(* ===== verification/Prelude.thy ===== *)
theory Prelude
  imports Main
begin

text \<open>
  Shared vocabulary of the development: the collections of rewrite rules the component theories
  fill, the string operations both the dashboard (JavaScript) and the server (Go) rely on
  (\<open>split\<close>, \<open>join\<close>, \<open>trim\<close>, decimal printing and parsing), and the facts about lists and
  strings that several components use.

  A string is a list of bytes, the UTF-8 encoding of the JavaScript or Go string; every
  delimiter the code splits at is ASCII, so splitting bytes and splitting code points agree.
\<close>

named_theorems effects
  \<comment> \<open>introduction rules: what a handler of the dashboard leaves alone, what it may send\<close>
named_theorems html_safe
  \<comment> \<open>texts that carry no markup character\<close>

section \<open>Splitting and joining\<close>

fun split_on :: "char \<Rightarrow> string \<Rightarrow> string list" where
  "split_on c [] = [[]]"
| "split_on c (x # xs) =
     (if x = c then [] # split_on c xs
      else (case split_on c xs of [] \<Rightarrow> [[x]] | y # ys \<Rightarrow> (x # y) # ys))"

fun join_with :: "string \<Rightarrow> string list \<Rightarrow> string" where
  "join_with sep [] = []"
| "join_with sep [x] = x"
| "join_with sep (x # y # ys) = x @ sep @ join_with sep (y # ys)"

lemma split_on_not_Nil [simp]: "split_on c xs \<noteq> []"
  by (induction xs) (auto split: list.split)

lemma split_on_absent [simp]: "c \<notin> set xs \<Longrightarrow> split_on c xs = [xs]"
  by (induction xs) auto

lemma split_on_append_sep: "c \<notin> set xs \<Longrightarrow> split_on c (xs @ c # ys) = xs # split_on c ys"
  by (induction xs) (auto split: list.split)

lemma join_split: "join_with [c] (split_on c xs) = xs"
proof (induction xs)
  case Nil
  then show ?case by simp
next
  case (Cons x xs)
  obtain y ys where s: "split_on c xs = y # ys"
    by (cases "split_on c xs") auto
  with Cons show ?case
    by (cases ys) auto
qed

lemma split_join:
  "xs \<noteq> [] \<Longrightarrow> \<forall>x \<in> set xs. c \<notin> set x \<Longrightarrow> split_on c (join_with [c] xs) = xs"
  by (induction xs rule: induct_list012) (auto simp: split_on_append_sep)

lemma split_on_pieces: "y \<in> set (split_on c xs) \<Longrightarrow> c \<notin> set y"
proof (induction xs arbitrary: y)
  case Nil
  then show ?case by simp
next
  case (Cons x xs)
  then show ?case by (fastforce split: if_splits list.splits)
qed

section \<open>Trimming\<close>

text \<open>White space as both \<open>String.prototype.trim\<close> and \<open>strings.TrimSpace\<close> treat it on ASCII
  text: tab, line feed, vertical tab, form feed, carriage return, space.\<close>

definition is_space :: "char \<Rightarrow> bool" where
  "is_space c \<longleftrightarrow> c = CHR '' '' \<or> (9 \<le> (of_char c :: nat) \<and> (of_char c :: nat) \<le> 13)"

definition trim :: "string \<Rightarrow> string" where
  "trim s = rev (dropWhile is_space (rev (dropWhile is_space s)))"

lemma dropWhile_hd: "dropWhile P xs = y # ys \<Longrightarrow> \<not> P y"
  by (induction xs) (auto split: if_splits)

lemma dropWhile_idem [simp]: "dropWhile P (dropWhile P xs) = dropWhile P xs"
  by (cases "dropWhile P xs") (auto dest: dropWhile_hd)

lemma trim_no_space: "xs = [] \<or> \<not> is_space (hd xs) \<and> \<not> is_space (last xs) \<Longrightarrow> trim xs = xs"
proof (cases xs)
  case Nil
  then show "trim xs = xs" by (simp add: trim_def)
next
  case (Cons x ys)
  assume "xs = [] \<or> \<not> is_space (hd xs) \<and> \<not> is_space (last xs)"
  with Cons have h: "\<not> is_space (hd xs)" and l: "\<not> is_space (last xs)" by auto
  have "dropWhile is_space xs = xs" using h Cons by simp
  moreover have "dropWhile is_space (rev xs) = rev xs"
    using l by (metis dropWhile.simps(1) dropWhile.simps(2) hd_rev list.exhaust_sel)
  ultimately show "trim xs = xs" by (simp add: trim_def)
qed

lemma trim_ends:
  "trim s = [] \<or> \<not> is_space (hd (trim s)) \<and> \<not> is_space (last (trim s))"
proof -
  define u where "u = dropWhile is_space s"
  define v where "v = dropWhile is_space (rev u)"
  have t: "trim s = rev v" by (simp add: trim_def u_def v_def)
  show ?thesis
  proof (cases v)
    case Nil
    with t show ?thesis by simp
  next
    case (Cons a v')
    then have last_ok: "\<not> is_space a" using dropWhile_hd v_def by metis
    obtain pre where "rev u = pre @ v" unfolding v_def
      by (metis takeWhile_dropWhile_id)
    then have "u = rev v @ rev pre" by (metis rev_append rev_rev_ident)
    moreover have "rev v \<noteq> []" using Cons by simp
    ultimately have hd_u: "hd u = hd (rev v)" and "u \<noteq> []" by auto
    have "dropWhile is_space s = hd u # tl u"
      using \<open>u \<noteq> []\<close> by (metis list.collapse u_def)
    then have "\<not> is_space (hd (rev v))" using hd_u by (metis dropWhile_hd)
    with last_ok Cons t show ?thesis by (auto simp: last_rev)
  qed
qed

lemma trim_idem [simp]: "trim (trim s) = trim s"
  using trim_ends by (rule trim_no_space)

lemma set_trim: "set (trim s) \<subseteq> set s"
  by (auto simp: trim_def dest!: set_dropWhileD)

section \<open>Upper and lower case (ASCII)\<close>

definition lower_char :: "char \<Rightarrow> char" where
  "lower_char c = (if 65 \<le> (of_char c :: nat) \<and> (of_char c :: nat) \<le> 90 then char_of ((of_char c :: nat) + 32) else c)"

definition lower :: "string \<Rightarrow> string" where
  "lower s = map lower_char s"

definition upper_char :: "char \<Rightarrow> char" where
  "upper_char c = (if 97 \<le> (of_char c :: nat) \<and> (of_char c :: nat) \<le> 122 then char_of ((of_char c :: nat) - 32) else c)"

definition upper :: "string \<Rightarrow> string" where
  "upper s = map upper_char s"

definition has_prefix :: "string \<Rightarrow> string \<Rightarrow> bool" where
  "has_prefix p s \<longleftrightarrow> take (length p) s = p"

lemma has_prefix_append [simp]: "has_prefix p (p @ s)"
  by (simp add: has_prefix_def)

section \<open>Decimal numbers\<close>

definition digit_char :: "nat \<Rightarrow> char" where
  "digit_char d = char_of (48 + d)"

definition digit_val :: "char \<Rightarrow> nat option" where
  "digit_val c = (let n = (of_char c :: nat) in if 48 \<le> n \<and> n \<le> 57 then Some (n - 48) else None)"

fun nat_text :: "nat \<Rightarrow> string" where
  "nat_text n = (if n < 10 then [digit_char n] else nat_text (n div 10) @ [digit_char (n mod 10)])"

declare nat_text.simps [simp del]

definition int_text :: "int \<Rightarrow> string" where
  "int_text i = (if i < 0 then ''-'' @ nat_text (nat (- i)) else nat_text (nat i))"

fun digits_val :: "nat \<Rightarrow> string \<Rightarrow> nat option" where
  "digits_val acc [] = Some acc"
| "digits_val acc (c # cs) =
     (case digit_val c of None \<Rightarrow> None | Some d \<Rightarrow> digits_val (10 * acc + d) cs)"

definition parse_nat :: "string \<Rightarrow> nat option" where
  "parse_nat s = (if s = [] then None else digits_val 0 s)"

lemma digit_val_digit_char [simp]: "d < 10 \<Longrightarrow> digit_val (digit_char d) = Some d"
  by (simp add: digit_val_def digit_char_def Let_def)

lemma digits_val_append:
  "digits_val acc (xs @ ys) =
     (case digits_val acc xs of None \<Rightarrow> None | Some a \<Rightarrow> digits_val a ys)"
  by (induction xs arbitrary: acc) (auto split: option.split)

lemma digits_val_nat_text: "digits_val 0 (nat_text n) = Some n"
proof (induction n rule: nat_text.induct)
  case (1 n)
  show ?case
    by (cases "n < 10") (simp_all add: nat_text.simps [of n] 1 digits_val_append)
qed

lemma nat_text_not_Nil [simp]: "nat_text n \<noteq> []"
  by (subst nat_text.simps) auto

lemma parse_nat_text [simp]: "parse_nat (nat_text n) = Some n"
  by (simp add: parse_nat_def digits_val_nat_text)

lemma nat_text_inj: "nat_text m = nat_text n \<Longrightarrow> m = n"
  by (metis parse_nat_text option.inject)

lemma nat_text_digits: "c \<in> set (nat_text n) \<Longrightarrow> \<exists>d < 10. c = digit_char d"
proof (induction n rule: nat_text.induct)
  case (1 n)
  show ?case
  proof (cases "n < 10")
    case True
    with "1.prems" show ?thesis by (auto simp: nat_text.simps [of n])
  next
    case False
    then consider "c \<in> set (nat_text (n div 10))" | "c = digit_char (n mod 10)"
      using "1.prems" by (auto simp: nat_text.simps [of n])
    then show ?thesis
    proof cases
      case 1
      with False "1.IH" show ?thesis by simp
    next
      case 2
      then show ?thesis by (intro exI [of _ "n mod 10"]) simp
    qed
  qed
qed

lemma nat_text_hd_digit: "(of_char (hd (nat_text n)) :: nat) \<in> {48..57}"
proof -
  obtain d where "d < 10" "hd (nat_text n) = digit_char d"
    using nat_text_digits [of "hd (nat_text n)" n] by auto
  then show ?thesis by (simp add: digit_char_def)
qed

lemma not_in_int_text:
  "(of_char c :: nat) < 48 \<or> 57 < (of_char c :: nat) \<Longrightarrow> c \<noteq> CHR ''-'' \<Longrightarrow> c \<notin> set (int_text i)"
  by (auto simp: int_text_def digit_char_def dest!: nat_text_digits split: if_splits)

lemma no_space_in_int_text: "c \<in> set (int_text i) \<Longrightarrow> \<not> is_space c"
proof
  assume c: "c \<in> set (int_text i)" and "is_space c"
  then have "(of_char c :: nat) < 48" and "c \<noteq> CHR ''-''" by (auto simp: is_space_def)
  with c not_in_int_text [of c i] show False by simp
qed

lemma int_text_not_Nil [simp]: "int_text i \<noteq> []"
  by (simp add: int_text_def)

section \<open>\<open>strconv.ParseInt(s, 10, 64)\<close>\<close>

text \<open>An optional sign, at least one digit, and a value that fits 64 bits; \<open>None\<close> is the error
  the Go function returns (its value is then not used by the code).\<close>

definition parse_int64 :: "string \<Rightarrow> int option" where
  "parse_int64 s =
     (let (neg, ds) = (case s of [] \<Rightarrow> (False, [])
                       | c # cs \<Rightarrow> if c = CHR ''-'' then (True, cs)
                                   else if c = CHR ''+'' then (False, cs) else (False, s))
      in case parse_nat ds of None \<Rightarrow> None
         | Some n \<Rightarrow> (let v = (if neg then - int n else int n)
                      in if - (2 ^ 63) \<le> v \<and> v < 2 ^ 63 then Some v else None))"

lemma parse_int64_nat:
  assumes "int n < 2 ^ 63"
  shows "parse_int64 (nat_text n) = Some (int n)"
proof -
  obtain c cs where s: "nat_text n = c # cs" by (cases "nat_text n") auto
  have "(of_char c :: nat) \<in> {48..57}" using nat_text_hd_digit [of n] s by simp
  then have "c \<noteq> CHR ''-''" "c \<noteq> CHR ''+''" by auto
  then show ?thesis
    using assms parse_nat_text [of n] s by (simp add: parse_int64_def Let_def)
qed

lemma parse_int64_int_text:
  assumes "- (2 ^ 63) \<le> i" and "i < 2 ^ 63"
  shows "parse_int64 (int_text i) = Some i"
proof (cases "i < 0")
  case True
  with assms show ?thesis by (simp add: int_text_def parse_int64_def Let_def)
next
  case False
  with assms parse_int64_nat [of "nat i"] show ?thesis by (simp add: int_text_def)
qed

lemma parse_int64_range:
  "parse_int64 s = Some v \<Longrightarrow> - (2 ^ 63) \<le> v \<and> v < 2 ^ 63"
  by (auto simp: parse_int64_def Let_def split: option.splits if_splits list.splits)

section \<open>Lists\<close>

lemma last_take: "0 < n \<Longrightarrow> n \<le> length xs \<Longrightarrow> last (take n xs) = xs ! (n - 1)"
  by (cases "xs = []") (simp_all add: last_conv_nth)

lemma find_SomeD: "find P xs = Some x \<Longrightarrow> x \<in> set xs \<and> P x"
  by (induction xs) (auto split: if_splits)

lemma find_unique:
  assumes "x \<in> set xs" and "P x" and "\<And>y. y \<in> set xs \<Longrightarrow> P y \<Longrightarrow> y = x"
  shows "find P xs = Some x"
proof (cases "find P xs")
  case None
  with assms(1,2) show ?thesis by (simp add: find_None_iff)
next
  case (Some y)
  with assms(3) find_SomeD [OF Some] show ?thesis by simp
qed

end
