(* ===== verification/JsValue.thy ===== *)
theory JsValue
  imports Prelude
begin

text \<open>
  The JavaScript values the dashboard manipulates without knowing their type: what \<open>JSON.parse\<close>
  returns, what a rejected request carries, what \<open>esc\<close> and \<open>showMsg\<close> receive. The conversions
  are those of the language: truthiness (\<open>ToBoolean\<close>), \<open>String(v)\<close>, \<open>Number(s)\<close> on decimal text,
  property access and \<open>JSON.stringify\<close>.

  Numbers are integers (the ids, counters and status codes the server sends) and NaN; the two
  fractional fields of the report summary only reach \<open>toLocaleString\<close>.
\<close>

datatype jsval =
    JUndef
  | JNull
  | JBool bool
  | JNum int
  | JNaN
  | JStr string
  | JArr "jsval list"
  | JObj "(string \<times> jsval) list"

fun truthy :: "jsval \<Rightarrow> bool" where
  "truthy JUndef = False"
| "truthy JNull = False"
| "truthy (JBool b) = b"
| "truthy (JNum n) = (n \<noteq> 0)"
| "truthy JNaN = False"
| "truthy (JStr s) = (s \<noteq> [])"
| "truthy (JArr xs) = True"
| "truthy (JObj fs) = True"

definition js_or :: "jsval \<Rightarrow> jsval \<Rightarrow> jsval" where
  "js_or a b = (if truthy a then a else b)"

definition str_or :: "string \<Rightarrow> string \<Rightarrow> string" where
  \<comment> \<open>\<open>a || b\<close> on strings\<close>
  "str_or a b = (if a \<noteq> [] then a else b)"

fun js_string :: "jsval \<Rightarrow> string" where
  "js_string JUndef = ''undefined''"
| "js_string JNull = ''null''"
| "js_string (JBool b) = (if b then ''true'' else ''false'')"
| "js_string (JNum n) = int_text n"
| "js_string JNaN = ''NaN''"
| "js_string (JStr s) = s"
| "js_string (JArr xs) =
     join_with '','' (map (\<lambda>x. if x = JUndef \<or> x = JNull then [] else js_string x) xs)"
| "js_string (JObj fs) = ''[object Object]''"

text \<open>Property access on an object; a missing property and every property of a primitive read
  \<open>undefined\<close>. \<open>None\<close> is the TypeError that reading from \<open>undefined\<close> or \<open>null\<close> raises.\<close>

fun js_get :: "jsval \<Rightarrow> string \<Rightarrow> jsval option" where
  "js_get JUndef k = None"
| "js_get JNull k = None"
| "js_get (JObj fs) k = Some (case map_of fs k of None \<Rightarrow> JUndef | Some v \<Rightarrow> v)"
| "js_get _ k = Some JUndef"

text \<open>\<open>Number(s)\<close> on the text of an \<open>input\<close>: surrounding white space is dropped, the empty text is
  0, an optionally signed run of decimal digits is its value. Every other text is NaN here; the
  fields the code converts (redirect code, maximum clicks, department id) are digits or empty.\<close>

definition js_number :: "string \<Rightarrow> jsval" where
  "js_number s =
     (case trim s of [] \<Rightarrow> JNum 0
      | c # cs \<Rightarrow>
          if c = CHR ''-'' then (case parse_nat cs of None \<Rightarrow> JNaN | Some n \<Rightarrow> JNum (- int n))
          else if c = CHR ''+'' then (case parse_nat cs of None \<Rightarrow> JNaN | Some n \<Rightarrow> JNum (int n))
          else (case parse_nat (c # cs) of None \<Rightarrow> JNaN | Some n \<Rightarrow> JNum (int n)))"

section \<open>\<open>JSON.stringify(x, null, 2)\<close>\<close>

definition hex_digit :: "nat \<Rightarrow> char" where
  "hex_digit d = (if d < 10 then char_of (48 + d) else char_of (87 + d))"

definition json_char :: "char \<Rightarrow> string" where
  "json_char c =
     (let n = (of_char c :: nat) in
      if n = 34 then [CHR 0x5C, c] else if n = 92 then [CHR 0x5C, c]
      else if n = 8 then [CHR 0x5C, CHR ''b''] else if n = 9 then [CHR 0x5C, CHR ''t'']
      else if n = 10 then [CHR 0x5C, CHR ''n''] else if n = 12 then [CHR 0x5C, CHR ''f'']
      else if n = 13 then [CHR 0x5C, CHR ''r'']
      else if n < 32 then CHR 0x5C # ''u00'' @ [hex_digit (n div 16), hex_digit (n mod 16)]
      else [c])"

definition json_quote :: "string \<Rightarrow> string" where
  "json_quote s = CHR 0x22 # concat (map json_char s) @ [CHR 0x22]"

definition json_indent :: "nat \<Rightarrow> string" where
  "json_indent k = CHR 0x0A # replicate (2 * k) (CHR '' '')"

fun json_pretty :: "nat \<Rightarrow> jsval \<Rightarrow> string" where
  "json_pretty k JUndef = ''null''"
| "json_pretty k JNull = ''null''"
| "json_pretty k (JBool b) = (if b then ''true'' else ''false'')"
| "json_pretty k (JNum n) = int_text n"
| "json_pretty k JNaN = ''null''"
| "json_pretty k (JStr s) = json_quote s"
| "json_pretty k (JArr xs) =
     (if xs = [] then ''[]''
      else ''['' @ json_indent (Suc k) @
           join_with ('','' @ json_indent (Suc k)) (map (\<lambda>x. json_pretty (Suc k) x) xs) @
           json_indent k @ '']'')"
| "json_pretty k (JObj fs) =
     (let fields = map (\<lambda>(n, v). json_quote n @ '': '' @ json_pretty (Suc k) v)
                       (filter (\<lambda>(n, v). v \<noteq> JUndef) fs)
      in if fields = [] then ''{}''
         else ''{'' @ json_indent (Suc k) @ join_with ('','' @ json_indent (Suc k)) fields @
              json_indent k @ ''}'')"

lemma js_string_Str [simp]: "truthy v \<Longrightarrow> js_string (js_or v w) = js_string v"
  by (simp add: js_or_def)

lemma js_number_int_text [simp]: "js_number (int_text i) = JNum i"
proof -
  have t: "trim (int_text i) = int_text i"
    using no_space_in_int_text [OF hd_in_set [OF int_text_not_Nil]]
      no_space_in_int_text [OF last_in_set [OF int_text_not_Nil]]
    by (intro trim_no_space) simp
  show ?thesis
  proof (cases "i < 0")
    case True
    then show ?thesis
      by (simp add: js_number_def t) (simp add: int_text_def)
  next
    case False
    obtain c cs where s: "nat_text (nat i) = c # cs" by (cases "nat_text (nat i)") auto
    have "(of_char c :: nat) \<in> {48..57}" using nat_text_hd_digit [of "nat i"] s by simp
    then have "c \<noteq> CHR ''-''" "c \<noteq> CHR ''+''" by auto
    with False s parse_nat_text [of "nat i"] show ?thesis
      by (simp add: js_number_def t) (simp add: int_text_def)
  qed
qed

end
