(* ===== verification/Html.thy ===== *)
theory Html
  imports JsValue
begin

text \<open>
  HTML escaping and what it protects (\<open>web/app.js\<close> \<open>esc\<close>, \<open>roleLabel\<close>; \<open>web/reports.js\<close>
  \<open>reportEsc\<close>). Every list of the dashboard is a template assigned to \<open>innerHTML\<close>. \<open>html_scan\<close>
  is the part of the browser's tokenizer that decides where markup starts: it keeps the
  characters that are structure (tags, attribute names, quotes) and drops text and attribute
  values. A text that never contains an angle bracket or a double quote leaves the scanner
  where it was, in text and inside a quoted attribute, and that is what \<open>esc\<close> guarantees.
\<close>

section \<open>Escaping\<close>

definition esc_char :: "char \<Rightarrow> string" where
  "esc_char c =
     (if c = CHR ''&'' then ''&amp;'' else if c = CHR ''<'' then ''&lt;''
      else if c = CHR ''>'' then ''&gt;'' else if c = CHR 0x22 then ''&quot;'' else [c])"

definition esc_text :: "string \<Rightarrow> string" where
  "esc_text s = concat (map esc_char s)"

definition esc :: "jsval \<Rightarrow> string" where
  "esc v = esc_text (js_string (js_or v (JStr [])))"

definition reportEsc :: "jsval \<Rightarrow> string" where
  "reportEsc v = esc (if v = JUndef \<or> v = JNull then JStr [] else v)"

definition roleLabel :: "string \<Rightarrow> string" where
  "roleLabel role =
     (if role = ''superadmin'' then ''admin''
      else if role = ''tenant'' then ''department admin''
      else if role = ''customer'' then ''user'' else role)"

text \<open>The reading direction: how the browser turns the four entities back into text.\<close>

fun html_decode :: "string \<Rightarrow> string" where
  "html_decode [] = []"
| "html_decode (c # cs) =
     (if c = CHR ''&'' then
        (if take 4 cs = ''amp;'' then CHR ''&'' # html_decode (drop 4 cs)
         else if take 3 cs = ''lt;'' then CHR ''<'' # html_decode (drop 3 cs)
         else if take 3 cs = ''gt;'' then CHR ''>'' # html_decode (drop 3 cs)
         else if take 5 cs = ''quot;'' then CHR 0x22 # html_decode (drop 5 cs)
         else c # html_decode cs)
      else c # html_decode cs)"

lemma html_decode_esc_char: "html_decode (esc_char c @ rest) = c # html_decode rest"
  by (simp add: esc_char_def)

lemma html_decode_esc_text: "html_decode (esc_text s) = s"
  by (induction s) (simp_all add: esc_text_def html_decode_esc_char)

lemma esc_Str [simp]: "esc (JStr s) = esc_text s"
  by (simp add: esc_def js_or_def)

lemma reportEsc_Str [simp]: "reportEsc (JStr s) = esc_text s"
  by (simp add: reportEsc_def)

section \<open>Where markup starts\<close>

datatype html_state = InText | InTag | InAttr

definition html_next :: "html_state \<Rightarrow> char \<Rightarrow> html_state" where
  "html_next st c =
     (case st of
        InText \<Rightarrow> if c = CHR ''<'' then InTag else InText
      | InTag \<Rightarrow> if c = CHR ''>'' then InText else if c = CHR 0x22 then InAttr else InTag
      | InAttr \<Rightarrow> if c = CHR 0x22 then InTag else InAttr)"

fun html_after :: "html_state \<Rightarrow> string \<Rightarrow> html_state" where
  "html_after st [] = st"
| "html_after st (c # cs) = html_after (html_next st c) cs"

text \<open>The structural characters: all of a tag but its quoted attribute values, nothing of text.\<close>

definition structural :: "html_state \<Rightarrow> char \<Rightarrow> bool" where
  "structural st c \<longleftrightarrow> st = InTag \<or> html_next st c = InTag"

fun html_struct :: "html_state \<Rightarrow> string \<Rightarrow> string" where
  "html_struct st [] = []"
| "html_struct st (c # cs) =
     (if structural st c then [c] else []) @ html_struct (html_next st c) cs"

definition same_markup :: "html_state \<Rightarrow> string \<Rightarrow> string \<Rightarrow> html_state \<Rightarrow> bool" where
  \<comment> \<open>the browser reads the same tags in both texts and ends in the same state\<close>
  "same_markup st s s' st' \<longleftrightarrow>
     html_struct st s = html_struct st s' \<and> html_after st s = st' \<and> html_after st s' = st'"

definition inert :: "string \<Rightarrow> bool" where
  "inert s \<longleftrightarrow> CHR ''<'' \<notin> set s \<and> CHR ''>'' \<notin> set s \<and> CHR 0x22 \<notin> set s"

lemma html_after_append: "html_after st (xs @ ys) = html_after (html_after st xs) ys"
  by (induction xs arbitrary: st) auto

lemma html_struct_append:
  "html_struct st (xs @ ys) = html_struct st xs @ html_struct (html_after st xs) ys"
  by (induction xs arbitrary: st) auto

lemma html_next_simps [simp]:
  "html_next InText c = (if c = CHR ''<'' then InTag else InText)"
  "html_next InTag c = (if c = CHR ''>'' then InText else if c = CHR 0x22 then InAttr else InTag)"
  "html_next InAttr c = (if c = CHR 0x22 then InTag else InAttr)"
  by (simp_all add: html_next_def)

lemma html_after_inert [simp]:
  "inert s \<Longrightarrow> html_after InText s = InText"
  "inert s \<Longrightarrow> html_after InAttr s = InAttr"
  by (induction s) (auto simp: inert_def)

lemma html_struct_inert [simp]:
  "inert s \<Longrightarrow> html_struct InText s = []"
  "inert s \<Longrightarrow> html_struct InAttr s = []"
  by (induction s) (auto simp: inert_def structural_def)

lemma inert_append [simp]: "inert (xs @ ys) \<longleftrightarrow> inert xs \<and> inert ys"
  by (auto simp: inert_def)

lemma inert_Nil [simp]: "inert []"
  by (simp add: inert_def)

lemma inert_Cons [simp]:
  "inert (c # s) \<longleftrightarrow> c \<noteq> CHR ''<'' \<and> c \<noteq> CHR ''>'' \<and> c \<noteq> CHR 0x22 \<and> inert s"
  by (auto simp: inert_def)

lemma inert_esc_text [simp, html_safe]: "inert (esc_text s)"
  by (auto simp: inert_def esc_text_def esc_char_def split: if_splits)

lemma inert_esc [simp, html_safe]: "inert (esc v)"
  by (simp add: esc_def)

lemma inert_reportEsc [simp, html_safe]: "inert (reportEsc v)"
  by (simp add: reportEsc_def)

lemma inert_int_text [simp, html_safe]: "inert (int_text i)"
  by (simp add: inert_def not_in_int_text)

section \<open>Templates\<close>

text \<open>A JavaScript template literal is a list of literal pieces and of expressions whose text is
  spliced in. \<open>safe_template\<close> walks it as the browser would and accepts an expression only in
  text or inside a quoted attribute, and only when its text is inert; \<open>template_shape\<close> forgets
  what the expressions evaluate to.\<close>

datatype piece = Lit string | Expr string

fun piece_text :: "piece \<Rightarrow> string" where
  "piece_text (Lit s) = s"
| "piece_text (Expr s) = s"

definition render :: "piece list \<Rightarrow> string" where
  "render ps = concat (map piece_text ps)"

fun safe_template :: "html_state \<Rightarrow> piece list \<Rightarrow> html_state option" where
  "safe_template st [] = Some st"
| "safe_template st (Lit s # ps) = safe_template (html_after st s) ps"
| "safe_template st (Expr s # ps) = (if st \<noteq> InTag \<and> inert s then safe_template st ps else None)"

fun piece_shape :: "piece \<Rightarrow> piece" where
  "piece_shape (Lit s) = Lit s"
| "piece_shape (Expr s) = Expr []"

definition template_shape :: "piece list \<Rightarrow> piece list" where
  "template_shape ps = map piece_shape ps"

lemma render_simps [simp]:
  "render [] = []"
  "render (p # ps) = piece_text p @ render ps"
  "render (ps @ qs) = render ps @ render qs"
  by (simp_all add: render_def)

lemma template_shape_simps [simp]:
  "template_shape [] = []"
  "template_shape (p # ps) = piece_shape p # template_shape ps"
  "template_shape (ps @ qs) = template_shape ps @ template_shape qs"
  by (simp_all add: template_shape_def)

lemma safe_template_append:
  "safe_template st (ps @ qs) =
   (case safe_template st ps of None \<Rightarrow> None | Some st' \<Rightarrow> safe_template st' qs)"
proof (induction ps arbitrary: st)
  case Nil
  then show ?case by simp
next
  case (Cons p ps)
  then show ?case by (cases p) auto
qed

lemma safe_template_concat:
  "(\<And>x. x \<in> set xs \<Longrightarrow> safe_template InText (g x) = Some InText) \<Longrightarrow>
   safe_template InText (concat (map g xs)) = Some InText"
  by (induction xs) (simp_all add: safe_template_append)

lemma template_shape_concat:
  "list_all2 (\<lambda>x y. template_shape (g x) = template_shape (h y)) xs ys \<Longrightarrow>
   template_shape (concat (map g xs)) = template_shape (concat (map h ys))"
  by (induction rule: list_all2_induct) simp_all

lemma template_shape_Cons_eq:
  "template_shape qs = Lit s # ss \<longleftrightarrow> (\<exists>qs'. qs = Lit s # qs' \<and> template_shape qs' = ss)"
  "template_shape qs = Expr [] # ss \<longleftrightarrow> (\<exists>t qs'. qs = Expr t # qs' \<and> template_shape qs' = ss)"
  by (cases qs; cases "hd qs"; force)+

text \<open>Two safe instances of one shape give the browser the same tags.\<close>

lemma same_markup_template:
  assumes "safe_template st ps = Some st'" and "safe_template st qs = Some st''"
    and "template_shape ps = template_shape qs"
  shows "same_markup st (render ps) (render qs) st'"
  using assms
proof (induction ps arbitrary: st qs)
  case Nil
  then show ?case by (auto simp: same_markup_def template_shape_def)
next
  case (Cons p ps)
  show ?case
  proof (cases p)
    case (Lit s)
    with Cons.prems(3) obtain qs' where qs: "qs = Lit s # qs'" "template_shape ps = template_shape qs'"
      by (auto simp: template_shape_Cons_eq dest!: sym [of _ "template_shape qs"])
    with Lit Cons.prems Cons.IH [of "html_after st s" qs'] show ?thesis
      by (simp add: same_markup_def html_after_append html_struct_append)
  next
    case (Expr s)
    with Cons.prems(3) obtain t qs' where qs: "qs = Expr t # qs'" "template_shape ps = template_shape qs'"
      by (auto simp: template_shape_Cons_eq dest!: sym [of _ "template_shape qs"])
    with Expr Cons.prems Cons.IH [of st qs'] show ?thesis
      by (cases st) (auto simp: same_markup_def html_after_append html_struct_append split: if_splits)
  qed
qed

lemma same_markup_append:
  "same_markup st a b st1 \<Longrightarrow> same_markup st1 ys ys' st' \<Longrightarrow> same_markup st (a @ ys) (b @ ys') st'"
  by (simp add: same_markup_def html_after_append html_struct_append)

lemma same_markup_concat:
  "list_all2 (\<lambda>x y. same_markup InText (f x) (g y) InText) xs ys \<Longrightarrow>
   same_markup InText (concat (map f xs)) (concat (map g ys)) InText"
  by (induction rule: list_all2_induct) (auto simp: same_markup_def html_after_append html_struct_append)

end
