(* ===== verification/Models.thy ===== *)
theory Models
  imports Html Complex_Main
begin

text \<open>
  The data the server sends and the dashboard shows (\<open>internal/models/models.go\<close> and the payload
  of \<open>/api/v1/me\<close> in \<open>internal/handlers/handlers.go\<close>). A nullable column is an \<open>option\<close>; a
  field that JSON omits when empty is the empty text, which both languages treat the same way
  where the code reads it. Times are milliseconds since the epoch. \<open>int64\<close> values are integers;
  the components that depend on the width say so.
\<close>

record geo_target =
  gt_country_code :: string
  gt_target_url :: string

record link =
  l_id :: int
  l_user_id :: int
  l_creator_name :: string
  l_creator_email :: string
  l_tenant_id :: "int option"
  l_slug :: string
  l_target_url :: string
  l_title :: string
  l_visibility :: string
  l_short_url :: string
  l_clicks :: int
  l_redirect_code :: int
  l_expires_at :: "int option"
  l_max_clicks :: "int option"
  l_expired_url :: string
  l_ios_url :: string
  l_android_url :: string
  l_forward_query :: bool
  l_utm_source :: string
  l_utm_medium :: string
  l_utm_campaign :: string
  l_utm_term :: string
  l_utm_content :: string
  l_tags :: "string list"
  l_geo_targets :: "geo_target list"
  l_password_protected :: bool
  l_password_hash :: string
  l_created_at :: int
  l_deleted_at :: "int option"

definition blank_link :: link where
  \<comment> \<open>\<open>models.Link{}\<close>\<close>
  "blank_link =
     \<lparr>l_id = 0, l_user_id = 0, l_creator_name = [], l_creator_email = [], l_tenant_id = None, l_slug = [],
      l_target_url = [], l_title = [], l_visibility = [], l_short_url = [], l_clicks = 0, l_redirect_code = 0,
      l_expires_at = None, l_max_clicks = None, l_expired_url = [], l_ios_url = [], l_android_url = [],
      l_forward_query = False, l_utm_source = [], l_utm_medium = [], l_utm_campaign = [], l_utm_term = [],
      l_utm_content = [], l_tags = [], l_geo_targets = [], l_password_protected = False, l_password_hash = [],
      l_created_at = 0, l_deleted_at = None\<rparr>"

record user =
  u_id :: int
  u_tenant_id :: "int option"
  u_email :: string
  u_name :: string
  u_role :: string
  u_deletion_access :: bool
  u_active :: bool
  u_created_at :: int

record api_key =
  k_id :: int
  k_name :: string
  k_prefix :: string
  k_scope :: string
  k_created_at :: int

record tenant =
  t_id :: int
  t_name :: string
  t_slug :: string

record tenant_domain =
  d_id :: int
  d_tenant_id :: int
  d_domain :: string
  d_status :: string
  d_verification_token :: string
  d_verified_at :: "int option"
  d_not_found_url :: string

record click_event =
  c_id :: int
  c_link_id :: int
  c_slug :: string
  c_country_code :: string
  c_status_code :: int
  c_route_type :: string
  c_browser :: string
  c_os :: string
  c_device :: string
  c_is_bot :: bool
  c_referrer_host :: string
  c_utm_campaign :: string
  c_created_at :: int

record audit_event =
  a_id :: int
  a_actor_email :: string
  a_auth_type :: string
  a_action :: string
  a_target_type :: string
  a_target_id :: string
  a_outcome :: string
  a_ip_address :: string
  a_created_at :: int

text \<open>\<open>mePayload\<close>: the signed-in user as the dashboard knows it (\<open>currentUser\<close>).\<close>

record me =
  me_id :: int
  me_tenant_id :: "int option"
  me_email :: string
  me_name :: string
  me_role :: string
  me_created_at :: int
  me_actual_role :: string
  me_dashboard_mode :: string
  me_can_switch_mode :: bool
  me_deletion_access :: bool
  me_active :: bool
  me_can_delete :: bool

record point =
  p_key :: string
  p_clicks :: int

text \<open>A page of a cursor-paginated listing: the items and \<open>next_cursor\<close>, 0 when omitted.\<close>

record 'a page =
  items :: "'a list"
  next_cursor :: int

section \<open>Reports\<close>

text \<open>\<open>AnalyticsReport\<close>. The two fractional fields are rationals; a summary field that JSON omits
  when zero is 0, the two optional ones are \<open>option\<close>.\<close>

record daily_point =
  dp_day :: string
  dp_clicks :: int

record link_rank =
  lr_id :: int
  lr_slug :: string
  lr_title :: string
  lr_visibility :: string
  lr_period :: int
  lr_all_time :: int
  lr_deleted_at :: "int option"

record safe_event =
  se_slug :: string
  se_country :: string
  se_device :: string
  se_browser :: string
  se_os :: string
  se_referrer :: string
  se_campaign :: string
  se_bot :: bool
  se_route :: string
  se_status :: int
  se_created_at :: int

record report_summary =
  rs_all_time :: int
  rs_period :: int
  rs_human :: int
  rs_bot :: int
  rs_visitors :: int
  rs_expired :: int
  rs_average :: rat
  rs_peak_day :: string
  rs_peak_clicks :: int
  rs_previous :: "int option"
  rs_change :: "rat option"
  rs_active :: int
  rs_deleted :: int

datatype report_subject =
    Link_subject string string string string  \<comment> \<open>slug, title, visibility, owner name\<close>
  | User_subject string string                \<comment> \<open>name, email\<close>

record report =
  rp_subject :: report_subject
  rp_from :: string
  rp_to :: string
  rp_timezone :: string
  rp_retained_days :: int
  rp_summary :: report_summary
  rp_daily :: "daily_point list"
  rp_breakdowns :: "(string \<times> point list) list"
  rp_top_links :: "link_rank list"
  rp_events :: "safe_event list"

section \<open>Sample data\<close>

text \<open>Concrete values the theorems are applied to.\<close>

definition sample_link :: link where
  "sample_link =
     \<lparr>l_id = 7, l_user_id = 3, l_creator_name = [], l_creator_email = [], l_tenant_id = Some 1,
      l_slug = ''promo'', l_target_url = ''https://example.com/'', l_title = ''Promo'',
      l_visibility = ''private'', l_short_url = ''https://s.example.com/s/promo'', l_clicks = 12,
      l_redirect_code = 302, l_expires_at = None, l_max_clicks = None, l_expired_url = [],
      l_ios_url = [], l_android_url = [], l_forward_query = True, l_utm_source = [],
      l_utm_medium = [], l_utm_campaign = [], l_utm_term = [], l_utm_content = [], l_tags = [],
      l_geo_targets = [], l_password_protected = False, l_password_hash = [], l_created_at = 0,
      l_deleted_at = None\<rparr>"

definition sample_me :: me where
  "sample_me =
     \<lparr>me_id = 3, me_tenant_id = Some 1, me_email = ''a@example.com'', me_name = ''A'',
      me_role = ''customer'', me_created_at = 0, me_actual_role = ''customer'', me_dashboard_mode = ''user'',
      me_can_switch_mode = False, me_deletion_access = True, me_active = True,
      me_can_delete = True\<rparr>"

definition sample_admin :: user where
  "sample_admin =
     \<lparr>u_id = 5, u_tenant_id = Some 1, u_email = ''boss@example.com'', u_name = ''Boss'',
      u_role = ''tenant'', u_deletion_access = False, u_active = True, u_created_at = 0\<rparr>"

end
