(* ===== verification/Principal.thy ===== *)
theory Principal
  imports Models
begin

text \<open>
  Who a request acts as (\<open>internal/handlers/context.go\<close>), what \<open>/api/v1/me\<close> tells the dashboard,
  the Admin/User switch (\<open>sessionMode\<close>), and which links a user may see and manage
  (\<open>addLinkViewScope\<close>, \<open>addLinkManageScope\<close> of \<open>internal/store/store.go\<close>). A scope is the SQL
  condition the code appends, as a predicate on rows; \<open>None\<close> is the nil dereference of
  \<open>*u.TenantID\<close> for a department admin without a department.
\<close>

section \<open>Principals\<close>

record principal =
  pr_actual :: user
  pr_effective :: user
  pr_mode :: string
  pr_auth_type :: string

definition canSwitchMode :: "user \<Rightarrow> bool" where
  "canSwitchMode u \<longleftrightarrow> u_role u = ''superadmin'' \<or> u_role u = ''tenant''"

definition canDelete :: "principal \<Rightarrow> bool" where
  "canDelete p \<longleftrightarrow> u_role (pr_actual p) = ''superadmin'' \<or> u_deletion_access (pr_actual p)"

definition defaultDashboardMode :: "user \<Rightarrow> string" where
  "defaultDashboardMode u = (if canSwitchMode u then ''admin'' else ''user'')"

definition effectivePrincipal :: "user \<Rightarrow> string \<Rightarrow> string \<Rightarrow> principal" where
  "effectivePrincipal actual requestedMode authType =
     (let mode = (if requestedMode \<noteq> ''admin'' \<and> requestedMode \<noteq> ''user''
                  then defaultDashboardMode actual else requestedMode);
          mode = (if mode = ''admin'' \<and> \<not> canSwitchMode actual then ''user'' else mode);
          effective = (if mode = ''user'' then actual\<lparr>u_role := ''customer''\<rparr> else actual)
      in \<lparr>pr_actual = actual, pr_effective = effective, pr_mode = mode, pr_auth_type = authType\<rparr>)"

definition mePayload :: "principal \<Rightarrow> me" where
  "mePayload p =
     \<lparr>me_id = u_id (pr_effective p), me_tenant_id = u_tenant_id (pr_effective p),
      me_email = u_email (pr_effective p), me_name = u_name (pr_effective p),
      me_role = u_role (pr_effective p), me_created_at = u_created_at (pr_effective p),
      me_actual_role = u_role (pr_actual p),
      me_dashboard_mode = pr_mode p,
      me_can_switch_mode = (canSwitchMode (pr_actual p) \<and> pr_auth_type p = ''session''),
      me_deletion_access = u_deletion_access (pr_actual p), me_active = u_active (pr_actual p),
      me_can_delete = canDelete p\<rparr>"

section \<open>Switching the dashboard mode\<close>

text \<open>The claims of the session token, and the outcome of \<open>decode\<close> on a request body.\<close>

record claims =
  cl_user_id :: int
  cl_email :: string
  cl_mode :: string
  cl_exp :: int

datatype 'a decoded = Decoded 'a | TooLarge | BadJson

text \<open>The status written, the payload, and the claims of the new session cookie.\<close>

record mode_response =
  mr_status :: int
  mr_payload :: "me option"
  mr_session :: "claims option"

definition mode_error :: "int \<Rightarrow> mode_response" where
  "mode_error code = \<lparr>mr_status = code, mr_payload = None, mr_session = None\<rparr>"

definition sessionMode ::
    "string \<Rightarrow> principal option \<Rightarrow> string decoded \<Rightarrow> int \<Rightarrow> mode_response" where
  "sessionMode http_method session body ttl =
     (if http_method \<noteq> ''POST'' then mode_error 405
      else case session of None \<Rightarrow> mode_error 401
      | Some p \<Rightarrow>
          if \<not> canSwitchMode (pr_actual p) then mode_error 403
          else case body of TooLarge \<Rightarrow> mode_error 413 | BadJson \<Rightarrow> mode_error 400
          | Decoded mode \<Rightarrow>
              if mode \<noteq> ''admin'' \<and> mode \<noteq> ''user'' then mode_error 400
              else \<lparr>mr_status = 200,
                    mr_payload = Some (mePayload (effectivePrincipal (pr_actual p) mode ''session'')),
                    mr_session = Some \<lparr>cl_user_id = u_id (pr_actual p), cl_email = u_email (pr_actual p),
                                       cl_mode = mode, cl_exp = ttl\<rparr>\<rparr>)"

section \<open>Scopes\<close>

definition view_scope :: "user \<Rightarrow> bool \<Rightarrow> (link \<Rightarrow> bool) option" where
  "view_scope u includeDeleted =
     (if u_role u = ''tenant'' then
        (case u_tenant_id u of None \<Rightarrow> None | Some t \<Rightarrow> Some (\<lambda>l. l_tenant_id l = Some t))
      else if u_role u = ''customer'' then
        (case u_tenant_id u of
           Some t \<Rightarrow> Some (\<lambda>l. l_user_id l = u_id u \<or>
                          (l_tenant_id l = Some t \<and> l_visibility l = ''department'' \<and>
                           (includeDeleted \<or> l_deleted_at l = None)))
         | None \<Rightarrow> Some (\<lambda>l. l_user_id l = u_id u))
      else Some (\<lambda>_. True))"

definition manage_scope :: "user \<Rightarrow> (link \<Rightarrow> bool) option" where
  "manage_scope u =
     (if u_role u = ''tenant'' then
        (case u_tenant_id u of None \<Rightarrow> None | Some t \<Rightarrow> Some (\<lambda>l. l_tenant_id l = Some t))
      else if u_role u = ''customer'' then Some (\<lambda>l. l_user_id l = u_id u)
      else Some (\<lambda>_. True))"

lemma manage_scope_defined: "view_scope u d = None \<longleftrightarrow> manage_scope u = None"
  by (auto simp: view_scope_def manage_scope_def split: option.splits if_splits)

lemma manage_within_view:
  "manage_scope u = Some m \<Longrightarrow> view_scope u d = Some v \<Longrightarrow> m l \<Longrightarrow> v l"
  by (auto simp: view_scope_def manage_scope_def split: option.splits if_splits)

lemma effective_simps [simp]:
  "pr_actual (effectivePrincipal a m t) = a"
  "pr_auth_type (effectivePrincipal a m t) = t"
  "u_id (pr_effective (effectivePrincipal a m t)) = u_id a"
  "u_tenant_id (pr_effective (effectivePrincipal a m t)) = u_tenant_id a"
  by (simp_all add: effectivePrincipal_def Let_def)

lemma effective_role:
  "u_role (pr_effective (effectivePrincipal a m t)) =
     (if pr_mode (effectivePrincipal a m t) = ''user'' then ''customer'' else u_role a)"
  by (simp add: effectivePrincipal_def Let_def)

lemma requested_mode [simp]:
  "canSwitchMode a \<Longrightarrow> m = ''admin'' \<or> m = ''user'' \<Longrightarrow> pr_mode (effectivePrincipal a m t) = m"
  by (auto simp: effectivePrincipal_def Let_def)

lemma sessionMode_200:
  "mr_status (sessionMode http_method session body ttl) = 200 \<longleftrightarrow>
     http_method = ''POST'' \<and> (\<exists>p mode. session = Some p \<and> body = Decoded mode \<and>
       canSwitchMode (pr_actual p) \<and> (mode = ''admin'' \<or> mode = ''user''))"
  by (cases session; cases body) (simp_all add: sessionMode_def mode_error_def)

section \<open>Properties\<close>

text \<open>C13: Acting as someone never escalates. Whatever mode a token asks for, the effective user is
  the actual one, or the actual one lowered to department user; Admin mode is entered only by an
  account that may switch, and the role is department user exactly in User mode.\<close>

theorem effective_never_escalates:
  "pr_effective (effectivePrincipal a m t) \<in> {a, a\<lparr>u_role := ''customer''\<rparr>} \<and>
   pr_mode (effectivePrincipal a m t) \<in> {''admin'', ''user''} \<and>
   (pr_mode (effectivePrincipal a m t) = ''admin'' \<longleftrightarrow> m \<noteq> ''user'' \<and> canSwitchMode a) \<and>
   (u_role (pr_effective (effectivePrincipal a m t)) = ''customer'' \<longleftrightarrow>
    pr_mode (effectivePrincipal a m t) = ''user'')"
proof -
  have role: "canSwitchMode a \<Longrightarrow> u_role a \<noteq> ''customer''"
    by (auto simp: canSwitchMode_def)
  consider "m = ''admin''" | "m = ''user''" | "m \<noteq> ''admin''" "m \<noteq> ''user''" by blast
  then show ?thesis
    by cases (cases "canSwitchMode a"; simp add: effectivePrincipal_def defaultDashboardMode_def role)+
qed



end
