(* ===== verification/Paging.thy ===== *)
theory Paging
  imports Models
begin

text \<open>
  Cursor pagination, the interface between the dashboard's four paginated lists and the server.

  \<^item> The client side is \<open>web/app.js\<close>: the state \<open>linkCursor\<close>, \<open>linkCursorHistory\<close>,
    \<open>linkNextCursor\<close> (and the same three for users, clicks and audit events), the handlers
    \<open>next...Page\<close>, \<open>previous...Page\<close>, \<open>reset...Pagination\<close>, and the part of \<open>load...\<close> that asks
    for a page and shows it.
  \<^item> The provider side is the contract \<open>cursor_listing\<close> of a listing endpoint, extended by
    \<open>exact_listing\<close> for the endpoints whose \<open>next_cursor\<close> promises a further row. The stores
    interpret them for their own SQL.
\<close>

section \<open>The client's state and handlers\<close>

record pager =
  pg_cursor :: string
  pg_history :: "string list"
  pg_next :: int

definition reset_pager :: pager where
  "reset_pager = \<lparr>pg_cursor = [], pg_history = [], pg_next = 0\<rparr>"

text \<open>\<open>None\<close> is the early return, which starts no request.\<close>

definition next_page :: "pager \<Rightarrow> pager option" where
  "next_page p =
     (if pg_next p = 0 then None
      else Some (p\<lparr>pg_history := pg_history p @ [pg_cursor p], pg_cursor := int_text (pg_next p)\<rparr>))"

definition previous_page :: "pager \<Rightarrow> pager option" where
  "previous_page p =
     (if pg_history p = [] then None
      else Some (p\<lparr>pg_cursor := last (pg_history p), pg_history := butlast (pg_history p)\<rparr>))"

definition page_number :: "pager \<Rightarrow> nat" where
  "page_number p = length (pg_history p) + 1"

definition previous_disabled :: "pager \<Rightarrow> bool" where
  "previous_disabled p \<longleftrightarrow> pg_history p = []"

definition next_disabled :: "pager \<Rightarrow> bool" where
  "next_disabled p \<longleftrightarrow> pg_next p = 0"

text \<open>What the server reads from the \<open>cursor\<close> parameter: an absent cursor is 0, any other text must
  be a positive 64-bit integer (\<open>None\<close> is the 400 answer).\<close>

definition parse_cursor :: "string \<Rightarrow> int option" where
  "parse_cursor raw =
     (if raw = [] then Some 0
      else case parse_int64 raw of None \<Rightarrow> None | Some v \<Rightarrow> if v < 1 then None else Some v)"

text \<open>A completed load: the page asked for is shown and its cursor kept for the Next button.\<close>

definition load_page :: "(int \<Rightarrow> 'a page) \<Rightarrow> pager \<Rightarrow> ('a list \<times> pager) option" where
  "load_page fetch p =
     (case parse_cursor (pg_cursor p) of None \<Rightarrow> None
      | Some c \<Rightarrow> Some (items (fetch c), p\<lparr>pg_next := next_cursor (fetch c)\<rparr>))"

text \<open>The pages a user sees who presses Next until it is disabled; \<open>n\<close> bounds the presses.\<close>

fun visit :: "(int \<Rightarrow> 'a page) \<Rightarrow> nat \<Rightarrow> pager \<Rightarrow> 'a list list" where
  "visit fetch 0 p = []"
| "visit fetch (Suc n) p =
     (case load_page fetch p of None \<Rightarrow> []
      | Some (xs, p') \<Rightarrow> xs # (case next_page p' of None \<Rightarrow> [] | Some p'' \<Rightarrow> visit fetch n p''))"

lemma parse_cursor_Nil [simp]: "parse_cursor [] = Some 0"
  by (simp add: parse_cursor_def)

lemma parse_cursor_int_text: "0 < n \<Longrightarrow> n < 2 ^ 63 \<Longrightarrow> parse_cursor (int_text n) = Some n"
  by (simp add: parse_cursor_def parse_int64_int_text)

lemma previous_next: "next_page p = Some q \<Longrightarrow> previous_page (q\<lparr>pg_next := n\<rparr>) = Some (p\<lparr>pg_next := n\<rparr>)"
  by (auto simp: next_page_def previous_page_def split: if_splits)

section \<open>The list on the screen\<close>

text \<open>One paginated list with its requests in flight. Every handler acts at once on the globals and
  starts a request for the cursor and page size of that moment; the answers come back in any
  order (\<open>Answer i\<close> is the arrival of the \<open>i\<close>-th outstanding one) and each of them overwrites
  what is shown, the page number and the state of the buttons.\<close>

record 'a listing_ui =
  lu_pager :: pager
  lu_size :: nat
  lu_inflight :: "(nat \<times> string) list"
  lu_shown :: "'a list"
  lu_label :: nat
  lu_previous_off :: bool
  lu_next_off :: bool

datatype ui_event = Press_next | Press_previous | Press_refresh | Change_size nat | Answer nat

definition start_load :: "'a listing_ui \<Rightarrow> 'a listing_ui" where
  "start_load ui = ui\<lparr>lu_inflight := lu_inflight ui @ [(lu_size ui, pg_cursor (lu_pager ui))]\<rparr>"

definition show_page :: "'a page \<Rightarrow> 'a listing_ui \<Rightarrow> 'a listing_ui" where
  "show_page pg ui =
     (let p = (lu_pager ui)\<lparr>pg_next := next_cursor pg\<rparr> in
      ui\<lparr>lu_pager := p, lu_shown := items pg, lu_label := page_number p,
         lu_previous_off := previous_disabled p, lu_next_off := next_disabled p\<rparr>)"

fun ui_step :: "(nat \<Rightarrow> int \<Rightarrow> 'a page) \<Rightarrow> ui_event \<Rightarrow> 'a listing_ui \<Rightarrow> 'a listing_ui" where
  "ui_step f Press_next ui =
     (if lu_next_off ui then ui
      else case next_page (lu_pager ui) of None \<Rightarrow> ui
           | Some p \<Rightarrow> start_load (ui\<lparr>lu_pager := p\<rparr>))"
| "ui_step f Press_previous ui =
     (if lu_previous_off ui then ui
      else case previous_page (lu_pager ui) of None \<Rightarrow> ui
           | Some p \<Rightarrow> start_load (ui\<lparr>lu_pager := p\<rparr>))"
| "ui_step f Press_refresh ui = start_load ui"
| "ui_step f (Change_size n) ui = start_load (ui\<lparr>lu_size := n, lu_pager := reset_pager\<rparr>)"
| "ui_step f (Answer i) ui =
     (if i < length (lu_inflight ui) then
        (let (n, c) = lu_inflight ui ! i;
             rest = take i (lu_inflight ui) @ drop (Suc i) (lu_inflight ui)
         in case parse_cursor c of None \<Rightarrow> ui\<lparr>lu_inflight := rest\<rparr>
            | Some v \<Rightarrow> show_page (f n v) (ui\<lparr>lu_inflight := rest\<rparr>))
      else ui)"

fun ui_run :: "(nat \<Rightarrow> int \<Rightarrow> 'a page) \<Rightarrow> ui_event list \<Rightarrow> 'a listing_ui \<Rightarrow> 'a listing_ui" where
  "ui_run f [] ui = ui"
| "ui_run f (e # es) ui = ui_run f es (ui_step f e ui)"

definition fresh_ui :: "nat \<Rightarrow> 'a listing_ui" where
  \<comment> \<open>the list as the page is loaded: nothing shown, both buttons disabled\<close>
  "fresh_ui n =
     \<lparr>lu_pager = reset_pager, lu_size = n, lu_inflight = [], lu_shown = [], lu_label = 1,
      lu_previous_off = True, lu_next_off = True\<rparr>"

section \<open>What the list should do\<close>

text \<open>The abstract list is a page index. \<open>cursor_at f n\<close> is the cursor of page \<open>n\<close> (from 0) of an
  endpoint \<open>f\<close>; \<open>shows_page\<close> relates a settled list to the index.\<close>

fun cursor_at :: "(int \<Rightarrow> 'a page) \<Rightarrow> nat \<Rightarrow> int" where
  "cursor_at f 0 = 0"
| "cursor_at f (Suc n) = next_cursor (f (cursor_at f n))"

definition cursor_text :: "(int \<Rightarrow> 'a page) \<Rightarrow> nat \<Rightarrow> string" where
  "cursor_text f n = (if n = 0 then [] else int_text (cursor_at f n))"

definition page_exists :: "(int \<Rightarrow> 'a page) \<Rightarrow> nat \<Rightarrow> bool" where
  "page_exists f n \<longleftrightarrow> (\<forall>m < n. next_cursor (f (cursor_at f m)) \<noteq> 0)"

definition pager_at :: "(int \<Rightarrow> 'a page) \<Rightarrow> nat \<Rightarrow> pager" where
  "pager_at f n =
     \<lparr>pg_cursor = cursor_text f n, pg_history = map (cursor_text f) [0..<n],
      pg_next = next_cursor (f (cursor_at f n))\<rparr>"

definition shows_page :: "(nat \<Rightarrow> int \<Rightarrow> 'a page) \<Rightarrow> nat \<Rightarrow> 'a listing_ui \<Rightarrow> bool" where
  "shows_page f n ui \<longleftrightarrow>
     page_exists (f (lu_size ui)) n \<and> lu_inflight ui = [] \<and>
     lu_pager ui = pager_at (f (lu_size ui)) n \<and>
     lu_shown ui = items (f (lu_size ui) (cursor_at (f (lu_size ui)) n)) \<and>
     lu_label ui = n + 1 \<and> lu_previous_off ui = (n = 0) \<and>
     lu_next_off ui = (next_cursor (f (lu_size ui) (cursor_at (f (lu_size ui)) n)) = 0)"

text \<open>What every endpoint must give for its cursors to come back: a next cursor that is 0 or a
  positive number a JavaScript number holds exactly.\<close>

definition cursor_ok :: "int \<Rightarrow> bool" where
  "cursor_ok c \<longleftrightarrow> 0 \<le> c \<and> c < 2 ^ 53"

definition cursor_safe :: "(int \<Rightarrow> 'a page) \<Rightarrow> bool" where
  "cursor_safe f \<longleftrightarrow> (\<forall>c. cursor_ok c \<longrightarrow> next_cursor (f c) = 0 \<or> 0 < next_cursor (f c) \<and> next_cursor (f c) < 2 ^ 53)"

lemma cursor_ok_0 [simp]: "cursor_ok 0"
  by (simp add: cursor_ok_def)

lemma cursor_at_range: "cursor_safe f \<Longrightarrow> cursor_ok (cursor_at f n)"
  by (induction n) (force simp: cursor_safe_def cursor_ok_def)+

lemma parse_cursor_text:
  assumes "cursor_safe f" and "page_exists f n"
  shows "parse_cursor (cursor_text f n) = Some (cursor_at f n)"
proof (cases n)
  case 0
  then show ?thesis by (simp add: cursor_text_def)
next
  case (Suc m)
  then have "cursor_at f n \<noteq> 0" using assms(2) by (simp add: page_exists_def)
  then have "0 < cursor_at f n" "cursor_at f n < 2 ^ 63"
    using cursor_at_range [OF assms(1), of n] by (auto simp: cursor_ok_def)
  with Suc show ?thesis by (simp add: cursor_text_def parse_cursor_int_text del: cursor_at.simps)
qed

text \<open>An answer for the cursor of page \<open>n\<close> that finds the pager on page \<open>n\<close> shows page \<open>n\<close>.\<close>

lemma answer_shows_page:
  assumes "cursor_safe (f (lu_size ui))" and "page_exists (f (lu_size ui)) n"
    and "lu_inflight ui = [(lu_size ui, cursor_text (f (lu_size ui)) n)]"
    and "pg_cursor (lu_pager ui) = cursor_text (f (lu_size ui)) n"
    and "pg_history (lu_pager ui) = map (cursor_text (f (lu_size ui))) [0..<n]"
  shows "shows_page f n (ui_step f (Answer 0) ui)"
  using assms
  by (simp add: parse_cursor_text shows_page_def show_page_def pager_at_def page_number_def
      previous_disabled_def next_disabled_def Let_def)

lemma next_page_at:
  "next_cursor (f (cursor_at f n)) \<noteq> 0 \<Longrightarrow>
   next_page (pager_at f n) = Some (pager_at f n
     \<lparr>pg_cursor := cursor_text f (Suc n), pg_history := map (cursor_text f) [0..<Suc n]\<rparr>)"
  by (simp add: next_page_def pager_at_def cursor_text_def)

lemma previous_page_at:
  "previous_page (pager_at f (Suc n)) = Some (pager_at f (Suc n)
     \<lparr>pg_cursor := cursor_text f n, pg_history := map (cursor_text f) [0..<n]\<rparr>)"
  by (simp add: previous_page_def pager_at_def)

lemma page_exists_Suc:
  "page_exists f (Suc n) \<longleftrightarrow> page_exists f n \<and> next_cursor (f (cursor_at f n)) \<noteq> 0"
  by (auto simp: page_exists_def less_Suc_eq)

lemma wait_next:
  assumes "cursor_safe (f (lu_size ui))" and "shows_page f n ui" and "\<not> lu_next_off ui"
  shows "shows_page f (Suc n) (ui_run f [Press_next, Answer 0] ui)"
  using assms
  by (simp add: shows_page_def [of f n] next_page_at start_load_def answer_shows_page page_exists_Suc
      del: upt_Suc ui_step.simps(5))

lemma wait_previous:
  assumes "cursor_safe (f (lu_size ui))" and "shows_page f (Suc n) ui"
  shows "shows_page f n (ui_run f [Press_previous, Answer 0] ui)"
  using assms
  by (simp add: shows_page_def [of f "Suc n"] previous_page_at start_load_def answer_shows_page
      page_exists_Suc del: upt_Suc ui_step.simps(5) cursor_at.simps)

lemma wait_reset:
  assumes "cursor_safe (f m)" and "lu_inflight ui = []"
  shows "shows_page f 0 (ui_run f [Change_size m, Answer 0] ui)"
  using assms
  by (simp add: start_load_def answer_shows_page page_exists_def reset_pager_def cursor_text_def
      del: ui_step.simps(5))

lemma wait_refresh:
  assumes "cursor_safe (f (lu_size ui))" and "shows_page f n ui"
  shows "shows_page f n (ui_run f [Press_refresh, Answer 0] ui)"
  using assms
  by (simp add: shows_page_def [of f n ui] start_load_def answer_shows_page pager_at_def
      del: ui_step.simps(5))

section \<open>The contract of a listing endpoint\<close>

text \<open>\<open>'k\<close> is what a request fixes while the user pages through it: the tables, the signed-in user,
  the filters and the page size; \<open>invar\<close> says when it is well formed. \<open>rows k\<close> are the rows the
  request selects, newest first.\<close>

locale cursor_listing =
  fixes invar :: "'k \<Rightarrow> bool"
    and rows :: "'k \<Rightarrow> 'a list"
    and ident :: "'a \<Rightarrow> int"
    and fetch :: "'k \<Rightarrow> int \<Rightarrow> 'a page"
    and limit :: "'k \<Rightarrow> nat"
  assumes newest_first: "invar k \<Longrightarrow> sorted_wrt (\<lambda>x y. ident y < ident x) (rows k)"
    and ident_range: "invar k \<Longrightarrow> x \<in> set (rows k) \<Longrightarrow> 0 < ident x \<and> ident x < 2 ^ 53"
    and page_items:
      "invar k \<Longrightarrow> cursor_ok c \<Longrightarrow>
       items (fetch k c) = take (limit k) (filter (\<lambda>x. c = 0 \<or> ident x < c) (rows k))"
    and next_is_last:
      "invar k \<Longrightarrow> cursor_ok c \<Longrightarrow> next_cursor (fetch k c) \<noteq> 0 \<Longrightarrow>
       items (fetch k c) \<noteq> [] \<and> next_cursor (fetch k c) = ident (last (items (fetch k c)))"
    and no_next_complete:
      "invar k \<Longrightarrow> cursor_ok c \<Longrightarrow> next_cursor (fetch k c) = 0 \<Longrightarrow>
       items (fetch k c) = filter (\<lambda>x. c = 0 \<or> ident x < c) (rows k)"
begin

definition remaining :: "'k \<Rightarrow> int \<Rightarrow> 'a list" where
  "remaining k c = filter (\<lambda>x. c = 0 \<or> ident x < c) (rows k)"

lemma cursor_safe_fetch: "invar k \<Longrightarrow> cursor_safe (fetch k)"
proof -
  assume k: "invar k"
  have "0 < next_cursor (fetch k c) \<and> next_cursor (fetch k c) < 2 ^ 53"
    if c: "cursor_ok c" "next_cursor (fetch k c) \<noteq> 0" for c
  proof -
    have "items (fetch k c) \<noteq> []" and n: "next_cursor (fetch k c) = ident (last (items (fetch k c)))"
      using next_is_last [OF k c] by auto
    then have "last (items (fetch k c)) \<in> set (rows k)"
      using last_in_set page_items [OF k c(1)] by (metis filter_is_subset in_set_takeD subsetD)
    with n ident_range [OF k] show ?thesis by simp
  qed
  then show "cursor_safe (fetch k)" by (auto simp: cursor_safe_def)
qed

lemma remaining_sorted: "invar k \<Longrightarrow> sorted_wrt (\<lambda>x y. ident y < ident x) (remaining k c)"
  by (simp add: remaining_def newest_first sorted_wrt_filter)

lemma filter_after_last:
  assumes "sorted_wrt (\<lambda>x y. ident y < ident x) xs" and "0 < n" and "n \<le> length xs"
  shows "filter (\<lambda>x. ident x < ident (last (take n xs))) xs = drop n xs"
proof -
  have nth: "last (take n xs) = xs ! (n - 1)" using assms(2,3) by (rule last_take)
  have lo: "\<not> ident x < ident (xs ! (n - 1))" if x: "x \<in> set (take n xs)" for x
  proof -
    obtain i where i: "i < n" "i < length xs" "x = xs ! i"
      using x by (auto simp: in_set_conv_nth)
    show ?thesis
      using assms i sorted_wrt_nth_less [OF assms(1), of i "n - 1"]
      by (cases "i = n - 1") force+
  qed
  have hi: "ident x < ident (xs ! (n - 1))" if x: "x \<in> set (drop n xs)" for x
  proof -
    obtain j where "j < length (drop n xs)" "x = xs ! (n + j)"
      using x by (auto simp: in_set_conv_nth)
    then show ?thesis
      using assms sorted_wrt_nth_less [OF assms(1), of "n - 1" "n + j"] by simp
  qed
  have "filter (\<lambda>x. ident x < ident (xs ! (n - 1))) (take n xs @ drop n xs) = drop n xs"
    unfolding filter_append using lo hi by (simp add: filter_empty_conv filter_id_conv)
  then show ?thesis by (simp add: nth)
qed

text \<open>A page and what is left for the next one make up what was left before.\<close>

lemma page_split:
  assumes k: "invar k" and c: "cursor_ok c" and more: "next_cursor (fetch k c) \<noteq> 0"
  shows "remaining k c = items (fetch k c) @ remaining k (next_cursor (fetch k c))"
    and "length (remaining k (next_cursor (fetch k c))) < length (remaining k c)"
proof -
  let ?r = "remaining k c" and ?n = "next_cursor (fetch k c)"
  define m where "m = min (limit k) (length ?r)"
  have it: "items (fetch k c) = take m ?r"
    using page_items [OF k c] by (cases "limit k \<le> length ?r") (simp_all add: m_def remaining_def)
  have ne: "items (fetch k c) \<noteq> []" and nx: "?n = ident (last (items (fetch k c)))"
    using next_is_last [OF k c more] by auto
  have m: "0 < m" "m \<le> length ?r" using ne it by (auto simp: m_def)
  have "remaining k ?n = filter (\<lambda>x. ident x < ?n) (rows k)"
    using more by (simp add: remaining_def)
  also have "\<dots> = filter (\<lambda>x. ident x < ?n) ?r"
  proof -
    have "last (items (fetch k c)) \<in> set ?r" using ne it by (metis in_set_takeD last_in_set)
    then have "c = 0 \<or> ?n < c" using nx by (auto simp: remaining_def)
    then show ?thesis by (auto simp: remaining_def filter_filter intro!: filter_cong)
  qed
  also have "\<dots> = drop m ?r"
    using filter_after_last [OF remaining_sorted [OF k] m] nx it by simp
  finally have d: "remaining k ?n = drop m ?r" .
  then show "?r = items (fetch k c) @ remaining k ?n" using it by simp
  show "length (remaining k ?n) < length ?r" using d m by simp
qed

lemma load_page_ok:
  "parse_cursor (pg_cursor p) = Some c \<Longrightarrow>
   load_page (fetch k) p = Some (items (fetch k c), p\<lparr>pg_next := next_cursor (fetch k c)\<rparr>)"
  by (simp add: load_page_def)

lemma next_page_cursor:
  assumes "invar k" and "cursor_ok c" and "next_page (p\<lparr>pg_next := next_cursor (fetch k c)\<rparr>) = Some p'"
  shows "parse_cursor (pg_cursor p') = Some (next_cursor (fetch k c)) \<and>
         next_cursor (fetch k c) > 0 \<and> cursor_ok (next_cursor (fetch k c))"
proof -
  have nz: "next_cursor (fetch k c) \<noteq> 0"
    and p': "pg_cursor p' = int_text (next_cursor (fetch k c))"
    using assms(3) by (auto simp: next_page_def split: if_splits)
  then have "0 < next_cursor (fetch k c)" "next_cursor (fetch k c) < 2 ^ 53"
    using cursor_safe_fetch [OF assms(1)] assms(2) by (auto simp: cursor_safe_def)
  then show ?thesis by (simp add: p' parse_cursor_int_text cursor_ok_def)
qed

lemma visit_from:
  assumes "invar k" and "parse_cursor (pg_cursor p) = Some c" and "cursor_ok c"
    and "length (remaining k c) < n"
  shows "concat (visit (fetch k) n p) = remaining k c"
  using assms(2-)
proof (induction n arbitrary: p c)
  case 0
  then show ?case by simp
next
  case (Suc n)
  let ?p' = "p\<lparr>pg_next := next_cursor (fetch k c)\<rparr>"
  have ld: "load_page (fetch k) p = Some (items (fetch k c), ?p')"
    using Suc.prems(1) by (rule load_page_ok)
  show ?case
  proof (cases "next_page ?p'")
    case None
    then have "next_cursor (fetch k c) = 0" by (auto simp: next_page_def split: if_splits)
    with None ld Suc.prems(2) assms(1) show ?thesis by (simp add: no_next_complete remaining_def)
  next
    case (Some p2)
    then have p2: "parse_cursor (pg_cursor p2) = Some (next_cursor (fetch k c))" "0 < next_cursor (fetch k c)"
      "cursor_ok (next_cursor (fetch k c))"
      using next_page_cursor [OF assms(1) Suc.prems(2)] by auto
    then have "length (remaining k (next_cursor (fetch k c))) < n"
      using page_split(2) [OF assms(1) Suc.prems(2)] Suc.prems(3) by simp
    with Suc.IH [OF p2(1)] p2
    have "concat (visit (fetch k) n p2) = remaining k (next_cursor (fetch k c))" by simp
    with Some ld p2 page_split(1) [OF assms(1) Suc.prems(2)] show ?thesis by simp
  qed
qed

text \<open>Pressing Next from the first page to the end shows every row once, newest first.\<close>

lemma visit_complete:
  "invar k \<Longrightarrow> length (rows k) < n \<Longrightarrow> concat (visit (fetch k) n reset_pager) = rows k"
  using visit_from [of k reset_pager 0 n] by (simp add: reset_pager_def remaining_def)

end

text \<open>Endpoints that read one row more than they return know that a further row exists.\<close>

locale exact_listing = cursor_listing +
  assumes next_promises:
    "invar k \<Longrightarrow> cursor_ok c \<Longrightarrow> next_cursor (fetch k c) \<noteq> 0 \<Longrightarrow>
     items (fetch k (next_cursor (fetch k c))) \<noteq> []"
begin

lemma visit_no_empty_from:
  assumes "invar k" and "parse_cursor (pg_cursor p) = Some c" and "cursor_ok c"
    and "items (fetch k c) \<noteq> []"
  shows "[] \<notin> set (visit (fetch k) n p)"
  using assms(2-)
proof (induction n arbitrary: p c)
  case 0
  then show ?case by simp
next
  case (Suc n)
  let ?p' = "p\<lparr>pg_next := next_cursor (fetch k c)\<rparr>"
  have ld: "load_page (fetch k) p = Some (items (fetch k c), ?p')"
    using Suc.prems(1) by (rule load_page_ok)
  show ?case
  proof (cases "next_page ?p'")
    case None
    with ld Suc.prems(3) show ?thesis by auto
  next
    case (Some p2)
    then have p2: "parse_cursor (pg_cursor p2) = Some (next_cursor (fetch k c))" "0 < next_cursor (fetch k c)"
      "cursor_ok (next_cursor (fetch k c))"
      using next_page_cursor [OF assms(1) Suc.prems(2)] by auto
    have "[] \<notin> set (visit (fetch k) n p2)"
      using Suc.IH [OF p2(1) p2(3)] next_promises [OF assms(1) Suc.prems(2)] p2(2) by simp
    with Some ld Suc.prems(3) show ?thesis by auto
  qed
qed

text \<open>No page the user can reach by pressing Next is empty, unless the listing is.\<close>

lemma visit_no_empty:
  "invar k \<Longrightarrow> rows k \<noteq> [] \<Longrightarrow> 0 < limit k \<Longrightarrow> [] \<notin> set (visit (fetch k) n reset_pager)"
  using visit_no_empty_from [of k reset_pager 0 n] page_items [of k 0]
  by (simp add: reset_pager_def)

end

end
