(* ===== verification/Listing.thy ===== *)
theory Listing
  imports Paging
begin

text \<open>
  The two ways the server cuts a listing into pages (\<open>internal/store/store.go\<close>), and the proof
  that each of them meets a contract of \<open>Paging\<close>.

  \<^item> \<open>probe_page\<close>, used by \<open>ListLinksPage\<close>, \<open>ListUsersPage\<close> and \<open>ListAuditEvents\<close>: read one row more
    than the page holds; a next cursor is named only when the extra row was there.
  \<^item> \<open>full_page\<close>, used by \<open>ListClicks\<close>: a next cursor is named whenever the page is full.

  \<open>ORDER BY id DESC\<close> is \<open>order_desc\<close>, \<open>LIMIT n\<close> is \<open>take n\<close>.
\<close>

section \<open>Selections\<close>

definition order_desc :: "('a \<Rightarrow> int) \<Rightarrow> 'a list \<Rightarrow> 'a list" where
  "order_desc f xs = rev (sort_key f xs)"

lemma set_order_desc [simp]: "set (order_desc f xs) = set xs"
  by (simp add: order_desc_def)

lemma length_order_desc [simp]: "length (order_desc f xs) = length xs"
  by (simp add: order_desc_def)

lemma filter_order_desc: "filter P (order_desc f xs) = order_desc f (filter P xs)"
  by (simp add: order_desc_def rev_filter [symmetric] filter_sort)

lemma order_desc_sorted:
  assumes "distinct (map f xs)"
  shows "sorted_wrt (\<lambda>x y. f y < f x) (order_desc f xs)"
proof -
  have "distinct (map f (sort_key f xs))"
    using assms by (simp add: distinct_map)
  then have "sorted_wrt (<) (map f (sort_key f xs))"
    by (simp add: strict_sorted_iff)
  then show ?thesis by (simp add: order_desc_def sorted_wrt_rev sorted_wrt_map)
qed

definition probe_page :: "('a \<Rightarrow> int) \<Rightarrow> nat \<Rightarrow> 'a list \<Rightarrow> 'a page" where
  "probe_page ident limit found =
     (if length found > limit
      then \<lparr>items = take limit found, next_cursor = ident (last (take limit found))\<rparr>
      else \<lparr>items = found, next_cursor = 0\<rparr>)"

definition full_page :: "('a \<Rightarrow> int) \<Rightarrow> nat \<Rightarrow> 'a list \<Rightarrow> 'a page" where
  "full_page ident limit found =
     (if length found = limit
      then \<lparr>items = found, next_cursor = ident (last found)\<rparr>
      else \<lparr>items = found, next_cursor = 0\<rparr>)"

text \<open>The rows of a listing that come after a cursor; cursor 0 is the start.\<close>

definition after_cursor :: "('a \<Rightarrow> int) \<Rightarrow> int \<Rightarrow> 'a list \<Rightarrow> 'a list" where
  "after_cursor ident c xs = filter (\<lambda>x. c = 0 \<or> ident x < c) xs"

lemma after_cursor_nonzero:
  "\<forall>x \<in> set xs. 0 < ident x \<Longrightarrow> x \<in> set (after_cursor ident c xs) \<Longrightarrow> 0 < ident x"
  by (simp add: after_cursor_def)

lemma probe_items: "items (probe_page f n (take (Suc n) xs)) = take n xs"
  by (simp add: probe_page_def min_def)

lemma probe_next:
  "0 < n \<Longrightarrow> next_cursor (probe_page f n (take (Suc n) xs)) =
     (if n < length xs then f (last (take n xs)) else 0)"
  by (auto simp: probe_page_def min_def)

lemma last_take_in_set: "0 < n \<Longrightarrow> n < length xs \<Longrightarrow> last (take n xs) \<in> set xs"
  by (simp add: last_take)

section \<open>Reading one row more\<close>

locale probe_listing =
  fixes invar :: "'k \<Rightarrow> bool"
    and rows :: "'k \<Rightarrow> 'a list"
    and ident :: "'a \<Rightarrow> int"
    and fetch :: "'k \<Rightarrow> int \<Rightarrow> 'a page"
    and limit :: "'k \<Rightarrow> nat"
  assumes rows_newest_first: "invar k \<Longrightarrow> sorted_wrt (\<lambda>x y. ident y < ident x) (rows k)"
    and rows_ident: "invar k \<Longrightarrow> x \<in> set (rows k) \<Longrightarrow> 0 < ident x \<and> ident x < 2 ^ 53"
    and limit_positive: "invar k \<Longrightarrow> 0 < limit k"
    and fetch_probe:
      "invar k \<Longrightarrow> cursor_ok c \<Longrightarrow>
       fetch k c = probe_page ident (limit k) (take (Suc (limit k)) (after_cursor ident c (rows k)))"
begin

lemma probe_after:
  assumes "invar k" and "cursor_ok c" and "next_cursor (fetch k c) \<noteq> 0"
  shows "items (fetch k (next_cursor (fetch k c))) \<noteq> []"
proof -
  let ?r = "after_cursor ident c (rows k)" and ?n = "limit k"
  have n: "0 < ?n" "?n < length ?r" and nx: "next_cursor (fetch k c) = ident (?r ! (?n - 1))"
    using assms limit_positive [OF assms(1)]
    by (auto simp: fetch_probe probe_next last_take split: if_splits)
  have srt: "sorted_wrt (\<lambda>x y. ident y < ident x) ?r"
    using rows_newest_first [OF assms(1)] by (simp add: after_cursor_def sorted_wrt_filter)
  have "ident (?r ! ?n) < ident (?r ! (?n - 1))"
    using sorted_wrt_nth_less [OF srt, of "?n - 1" ?n] n by simp
  moreover have mem: "?r ! m \<in> set (rows k)" if "m < length ?r" for m
    using that nth_mem [OF that] by (simp add: after_cursor_def)
  ultimately have "?r ! ?n \<in> set (after_cursor ident (ident (?r ! (?n - 1))) (rows k))"
    using n by (simp add: after_cursor_def)
  moreover have "cursor_ok (ident (?r ! (?n - 1)))"
    using rows_ident [OF assms(1) mem, of "?n - 1"] n by (simp add: cursor_ok_def less_imp_le)
  ultimately show ?thesis
    using assms(1) n by (auto simp: nx fetch_probe probe_items)
qed

end

sublocale probe_listing \<subseteq> exact_listing invar rows ident fetch limit
proof
  fix k :: 'k and c :: int
  assume k: "invar k"
  show "sorted_wrt (\<lambda>x y. ident y < ident x) (rows k)" using k by (rule rows_newest_first)
  show "0 < ident x \<and> ident x < 2 ^ 53" if "x \<in> set (rows k)" for x
    using k that by (rule rows_ident)
  assume c: "cursor_ok c"
  let ?left = "filter (\<lambda>x. c = 0 \<or> ident x < c) (rows k)"
  note f = fetch_probe [OF k c, unfolded after_cursor_def]
  show "items (fetch k c) = take (limit k) ?left" by (simp only: f probe_items)
  have pos: "0 < ident (last (take (limit k) ?left))" if "limit k < length ?left"
    using last_take_in_set [OF limit_positive [OF k] that] rows_ident [OF k] by simp
  show "items (fetch k c) = ?left" if "next_cursor (fetch k c) = 0"
    using that limit_positive [OF k] pos
    by (cases "limit k < length ?left") (auto simp: f probe_items probe_next probe_page_def)
  assume more: "next_cursor (fetch k c) \<noteq> 0"
  show "items (fetch k c) \<noteq> [] \<and> next_cursor (fetch k c) = ident (last (items (fetch k c)))"
    using more limit_positive [OF k]
    by (cases "limit k < length ?left") (auto simp: f probe_items probe_next probe_page_def)
  show "items (fetch k (next_cursor (fetch k c))) \<noteq> []"
    using k c more by (rule probe_after)
qed

section \<open>Counting a full page as a sign of more\<close>

locale full_listing =
  fixes invar :: "'k \<Rightarrow> bool"
    and rows :: "'k \<Rightarrow> 'a list"
    and ident :: "'a \<Rightarrow> int"
    and fetch :: "'k \<Rightarrow> int \<Rightarrow> 'a page"
    and limit :: "'k \<Rightarrow> nat"
  assumes rows_newest_first: "invar k \<Longrightarrow> sorted_wrt (\<lambda>x y. ident y < ident x) (rows k)"
    and rows_ident: "invar k \<Longrightarrow> x \<in> set (rows k) \<Longrightarrow> 0 < ident x \<and> ident x < 2 ^ 53"
    and limit_positive: "invar k \<Longrightarrow> 0 < limit k"
    and fetch_full:
      "invar k \<Longrightarrow> cursor_ok c \<Longrightarrow>
       fetch k c = full_page ident (limit k) (take (limit k) (after_cursor ident c (rows k)))"
begin

text \<open>Exactly when the number of remaining rows is the page size, Next leads to an empty page.\<close>

lemma empty_last_page:
  assumes "invar k" and "cursor_ok c" and "length (after_cursor ident c (rows k)) = limit k"
  shows "next_cursor (fetch k c) \<noteq> 0 \<and> items (fetch k (next_cursor (fetch k c))) = []"
proof -
  let ?r = "after_cursor ident c (rows k)"
  have r: "?r \<noteq> []" using assms limit_positive [OF assms(1)] by auto
  have l: "last ?r \<in> set (rows k)" using last_in_set [OF r] by (simp add: after_cursor_def)
  have nx: "next_cursor (fetch k c) = ident (last ?r)"
    using assms by (simp add: fetch_full full_page_def)
  have srt: "sorted_wrt (\<lambda>x y. ident y < ident x) ?r"
    using rows_newest_first [OF assms(1)] by (simp add: after_cursor_def sorted_wrt_filter)
  have low: "ident (last ?r) \<le> ident y" if y: "y \<in> set ?r" for y
  proof -
    obtain i where i: "i < length ?r" "y = ?r ! i" using y by (metis in_set_conv_nth)
    with sorted_wrt_nth_less [OF srt, of i "length ?r - 1"] show ?thesis
      by (cases "i = length ?r - 1") (auto simp: last_conv_nth [OF r] intro: less_imp_le)
  qed
  have lc: "c = 0 \<or> ident (last ?r) < c" using last_in_set [OF r] by (simp add: after_cursor_def)
  have "x \<in> set ?r" if "x \<in> set (rows k)" "ident x < ident (last ?r)" for x
    using that lc by (auto simp: after_cursor_def)
  with low have "\<not> ident x < ident (last ?r)" if "x \<in> set (rows k)" for x
    using that by (meson leD)
  then have "after_cursor ident (ident (last ?r)) (rows k) = []"
    using rows_ident [OF assms(1) l] by (simp add: after_cursor_def [of _ "ident (last ?r)"] filter_empty_conv)
  then show ?thesis
    using rows_ident [OF assms(1) l] limit_positive [OF assms(1)]
    by (simp add: nx fetch_full assms(1) full_page_def cursor_ok_def)
qed

end

sublocale full_listing \<subseteq> cursor_listing invar rows ident fetch limit
proof
  fix k :: 'k and c :: int
  assume k: "invar k"
  show "sorted_wrt (\<lambda>x y. ident y < ident x) (rows k)" using k by (rule rows_newest_first)
  show "0 < ident x \<and> ident x < 2 ^ 53" if "x \<in> set (rows k)" for x
    using k that by (rule rows_ident)
  assume c: "cursor_ok c"
  let ?left = "filter (\<lambda>x. c = 0 \<or> ident x < c) (rows k)"
  note f = fetch_full [OF k c, unfolded after_cursor_def]
  show it: "items (fetch k c) = take (limit k) ?left" by (simp add: f full_page_def)
  show "items (fetch k c) = ?left" if z: "next_cursor (fetch k c) = 0"
  proof (cases "length (take (limit k) ?left) = limit k")
    case True
    then have ne: "take (limit k) ?left \<noteq> []" using limit_positive [OF k] by auto
    have "last (take (limit k) ?left) \<in> set (rows k)"
      using in_set_takeD [OF last_in_set [OF ne]] by simp
    with True z rows_ident [OF k] have False by (force simp: f full_page_def)
    then show ?thesis ..
  next
    case False
    then show ?thesis using it by simp
  qed
  assume more: "next_cursor (fetch k c) \<noteq> 0"
  then have "length (take (limit k) ?left) = limit k"
    by (auto simp: f full_page_def split: if_splits)
  then show "items (fetch k c) \<noteq> [] \<and> next_cursor (fetch k c) = ident (last (items (fetch k c)))"
    using limit_positive [OF k] by (auto simp: f full_page_def)
qed

end
