(* ===== verification/Database.thy ===== *)
theory Database
  imports Principal Listing
begin

text \<open>
  The tables (\<open>internal/db/db.go\<close>) and the audit log (\<open>internal/store/store.go\<close>, \<open>RecordAudit\<close>,
  \<open>ListAuditEvents\<close>). A table is the list of its rows; \<open>wf_store\<close> is what the schema guarantees:
  primary keys, unique slugs, identity columns that count upwards. Ids stay below \<open>2 ^ 53\<close>,
  the largest integer range a JavaScript number holds exactly.

  Errors are values: \<open>NoRows\<close> is \<open>sql.ErrNoRows\<close>, \<open>Panicked\<close> the nil dereference of a department
  admin without a department, \<open>Invalid\<close> a rejected parameter. A failing database connection is
  not modelled, except for the audit insert, whose failure the handlers treat separately.

  Of an audit row the actor id, the before and after snapshots and the user agent are left out.
\<close>

record store =
  s_users :: "user list"
  s_links :: "link list"
  s_clicks :: "click_event list"
  s_audit :: "audit_event list"
  s_audit_seq :: int

datatype store_error = NoRows | Panicked | Invalid string

definition wf_ids :: "('a \<Rightarrow> int) \<Rightarrow> 'a list \<Rightarrow> bool" where
  "wf_ids ident xs \<longleftrightarrow> distinct (map ident xs) \<and> (\<forall>x \<in> set xs. 0 < ident x \<and> ident x < 2 ^ 53)"

definition wf_store :: "store \<Rightarrow> bool" where
  "wf_store s \<longleftrightarrow>
     wf_ids u_id (s_users s) \<and> wf_ids l_id (s_links s) \<and> wf_ids c_id (s_clicks s) \<and>
     wf_ids a_id (s_audit s) \<and> distinct (map l_slug (s_links s)) \<and>
     (\<forall>e \<in> set (s_audit s). a_id e < s_audit_seq s) \<and> 0 < s_audit_seq s"

text \<open>Filtering a table keeps its ids apart, and a listing of it newest first is sorted.\<close>

lemma wf_ids_filter: "wf_ids ident xs \<Longrightarrow> wf_ids ident (filter P xs)"
  by (simp add: wf_ids_def distinct_map_filter)

lemma wf_ids_sorted: "wf_ids ident xs \<Longrightarrow> sorted_wrt (\<lambda>x y. ident y < ident x) (order_desc ident xs)"
  by (simp add: wf_ids_def order_desc_sorted)

lemma wf_ids_range: "wf_ids ident xs \<Longrightarrow> x \<in> set xs \<Longrightarrow> 0 < ident x \<and> ident x < 2 ^ 53"
  by (simp add: wf_ids_def)

lemma wf_ids_inj: "wf_ids ident xs \<Longrightarrow> x \<in> set xs \<Longrightarrow> y \<in> set xs \<Longrightarrow> ident x = ident y \<Longrightarrow> x = y"
  by (auto simp: wf_ids_def distinct_map dest: inj_onD)

lemma wf_ids_count:
  assumes "wf_ids ident xs" and "x \<in> set xs" and "P x" and "\<And>y. P y \<Longrightarrow> ident y = ident x"
  shows "filter P xs = [x]"
proof -
  have "distinct (filter P xs)" using assms(1) by (simp add: wf_ids_def distinct_map)
  moreover have "set (filter P xs) = {x}" using assms wf_ids_inj [OF assms(1)] by auto
  ultimately show ?thesis
    by (metis distinct_length_2_or_more insert_iff list.exhaust list.set_intros(1) list.simps(15)
        set_empty insert_not_empty singletonD)
qed

lemma wf_store_ids [dest]:
  "wf_store s \<Longrightarrow> wf_ids u_id (s_users s)" "wf_store s \<Longrightarrow> wf_ids l_id (s_links s)"
  "wf_store s \<Longrightarrow> wf_ids c_id (s_clicks s)" "wf_store s \<Longrightarrow> wf_ids a_id (s_audit s)"
  by (simp_all add: wf_store_def)

section \<open>Query parameters\<close>

text \<open>\<open>url.Values\<close> as its \<open>Get\<close> function, which reads an absent parameter as the empty text. The
  parameters \<open>limit\<close> and \<open>cursor\<close> are validated the same way by every listing, with a maximum of
  their own; \<open>None\<close> is the 400 answer.\<close>

type_synonym query = "string \<Rightarrow> string"

definition limit_param :: "int \<Rightarrow> int \<Rightarrow> query \<Rightarrow> int option" where
  "limit_param dflt maximum q =
     (if q ''limit'' = [] then Some dflt
      else case parse_int64 (q ''limit'') of None \<Rightarrow> None
           | Some v \<Rightarrow> if v < 1 \<or> v > maximum then None else Some v)"

definition cursor_param :: "query \<Rightarrow> int option" where
  "cursor_param q = parse_cursor (q ''cursor'')"

lemma limit_param_range:
  "limit_param d m q = Some v \<Longrightarrow> 1 \<le> d \<Longrightarrow> d \<le> m \<Longrightarrow> 1 \<le> v \<and> v \<le> m"
  by (auto simp: limit_param_def split: if_splits option.splits)

lemma cursor_param_nonneg: "cursor_param q = Some c \<Longrightarrow> 0 \<le> c"
  by (auto simp: cursor_param_def parse_cursor_def split: if_splits option.splits)

section \<open>The audit log\<close>

text \<open>\<open>truncateAuditField\<close> counts code points: a byte \<open>10xxxxxx\<close> continues the one before it.\<close>

fun take_runes :: "nat \<Rightarrow> string \<Rightarrow> string" where
  "take_runes n [] = []"
| "take_runes n (c # cs) =
     (if 128 \<le> (of_char c :: nat) \<and> (of_char c :: nat) < 192 then c # take_runes n cs
      else case n of 0 \<Rightarrow> [] | Suc m \<Rightarrow> c # take_runes m cs)"

definition truncateAuditField :: "string \<Rightarrow> nat \<Rightarrow> string" where
  "truncateAuditField v maxRunes = take_runes maxRunes v"

text \<open>\<open>None\<close> is a failing insert.\<close>

definition recordAudit :: "bool \<Rightarrow> int \<Rightarrow> audit_event \<Rightarrow> store \<Rightarrow> store option" where
  "recordAudit db_up now event s =
     (if \<not> db_up then None
      else Some (s\<lparr>s_audit := s_audit s @
        [event\<lparr>a_id := s_audit_seq s,
          a_actor_email := truncateAuditField (a_actor_email event) 190,
          a_auth_type := truncateAuditField (a_auth_type event) 24,
          a_action := truncateAuditField (a_action event) 80,
          a_target_type := truncateAuditField (a_target_type event) 40,
          a_target_id := truncateAuditField (a_target_id event) 255,
          a_ip_address := truncateAuditField (a_ip_address event) 64,
          a_created_at := now\<rparr>],
        s_audit_seq := s_audit_seq s + 1\<rparr>))"

text \<open>\<open>parse_ts\<close> is how PostgreSQL reads a timestamp text, which the query passes on unread.\<close>

definition audit_match :: "(string \<Rightarrow> int option) \<Rightarrow> query \<Rightarrow> audit_event \<Rightarrow> bool" where
  "audit_match parse_ts q e \<longleftrightarrow>
     (\<forall>(key, field) \<in> set [(''actor'', a_actor_email e), (''action'', a_action e),
         (''target_type'', a_target_type e), (''outcome'', a_outcome e)].
        trim (q key) \<noteq> [] \<longrightarrow> field = trim (q key)) \<and>
     (q ''from'' \<noteq> [] \<longrightarrow> (case parse_ts (q ''from'') of None \<Rightarrow> False | Some t \<Rightarrow> t \<le> a_created_at e)) \<and>
     (q ''to'' \<noteq> [] \<longrightarrow> (case parse_ts (q ''to'') of None \<Rightarrow> False | Some t \<Rightarrow> a_created_at e < t))"

definition listAuditEvents ::
    "(string \<Rightarrow> int option) \<Rightarrow> store \<Rightarrow> query \<Rightarrow> store_error + audit_event page" where
  "listAuditEvents parse_ts s q =
     (case limit_param 100 500 q of None \<Rightarrow> Inl (Invalid ''limit must be 1 to 500'')
      | Some limit \<Rightarrow>
        (case cursor_param q of None \<Rightarrow> Inl (Invalid ''cursor must be positive'')
         | Some cursor \<Rightarrow>
             if (q ''from'' \<noteq> [] \<and> parse_ts (q ''from'') = None) \<or>
                (q ''to'' \<noteq> [] \<and> parse_ts (q ''to'') = None)
             then Inl (Invalid ''timestamp'')
             else Inr (probe_page a_id (nat limit) (take (nat limit + 1)
               (after_cursor a_id cursor (order_desc a_id (filter (audit_match parse_ts q) (s_audit s))))))))"

section \<open>The audit listing meets the contract\<close>

type_synonym audit_request = "(string \<Rightarrow> int option) \<times> store \<times> query"

definition audit_request_ok :: "audit_request \<Rightarrow> bool" where
  "audit_request_ok = (\<lambda>(ts, s, q).
     wf_store s \<and> limit_param 100 500 q \<noteq> None \<and>
     (q ''from'' \<noteq> [] \<longrightarrow> ts (q ''from'') \<noteq> None) \<and> (q ''to'' \<noteq> [] \<longrightarrow> ts (q ''to'') \<noteq> None))"

definition audit_rows :: "audit_request \<Rightarrow> audit_event list" where
  "audit_rows = (\<lambda>(ts, s, q). order_desc a_id (filter (audit_match ts q) (s_audit s)))"

definition with_cursor :: "int \<Rightarrow> query \<Rightarrow> query" where
  "with_cursor c q = q(''cursor'' := (if c = 0 then [] else int_text c))"

definition audit_fetch :: "audit_request \<Rightarrow> int \<Rightarrow> audit_event page" where
  "audit_fetch = (\<lambda>(ts, s, q) c. case listAuditEvents ts s (with_cursor c q) of
     Inl _ \<Rightarrow> \<lparr>items = [], next_cursor = 0\<rparr> | Inr p \<Rightarrow> p)"

definition audit_limit :: "audit_request \<Rightarrow> nat" where
  "audit_limit = (\<lambda>(ts, s, q). nat (the (limit_param 100 500 q)))"

lemma with_cursor_param:
  "cursor_ok c \<Longrightarrow> cursor_param (with_cursor c q) = Some c"
  by (simp add: cursor_param_def with_cursor_def parse_cursor_int_text cursor_ok_def)

lemma with_cursor_other [simp]: "key \<noteq> ''cursor'' \<Longrightarrow> with_cursor c q key = q key"
  by (simp add: with_cursor_def)

lemma limit_param_with_cursor [simp]: "limit_param d m (with_cursor c q) = limit_param d m q"
  by (simp add: limit_param_def)

lemma audit_match_with_cursor [simp]: "audit_match ts (with_cursor c q) = audit_match ts q"
  by (simp add: audit_match_def fun_eq_iff)

interpretation audit_pages: probe_listing audit_request_ok audit_rows a_id audit_fetch audit_limit
proof
  fix k :: audit_request and c :: int
  assume k: "audit_request_ok k"
  obtain ts s q where kk: "k = (ts, s, q)" by (cases k) auto
  have wf: "wf_ids a_id (filter (audit_match ts q) (s_audit s))"
    using k by (auto simp: kk audit_request_ok_def intro: wf_ids_filter)
  show "sorted_wrt (\<lambda>x y. a_id y < a_id x) (audit_rows k)"
    using wf_ids_sorted [OF wf] by (simp add: audit_rows_def kk)
  show "0 < a_id x \<and> a_id x < 2 ^ 53" if "x \<in> set (audit_rows k)" for x
    using wf_ids_range [OF wf] that by (simp add: audit_rows_def kk)
  obtain lim where lim: "limit_param 100 500 q = Some lim" "1 \<le> lim"
    using k limit_param_range [of 100 500 q] by (auto simp: audit_request_ok_def kk)
  then show "0 < audit_limit k" by (simp add: audit_limit_def kk)
  assume "cursor_ok c"
  then show "audit_fetch k c = probe_page a_id (audit_limit k)
      (take (Suc (audit_limit k)) (after_cursor a_id c (audit_rows k)))"
    using k lim
    by (auto simp: audit_fetch_def audit_limit_def audit_rows_def kk listAuditEvents_def
        with_cursor_param audit_request_ok_def)
qed

end
