(* ===== verification/RedirectCache.thy ===== *)
theory RedirectCache
  imports Database
begin

text \<open>
  The redirect cache (\<open>internal/redirectcache/cache.go\<close>, \<open>redis.go\<close>): what is cached of a link, the keys,
  the resolver that reads through the cache, and the invalidation after a change.

  The laws a cache promises are the locale \<open>redirect_cache\<close>; \<open>RedisCache\<close> of the code, over a store of
  keys whose calls may fail, is its interpretation. Encoding an entry as JSON and reading it back is the
  identity here, and the expiry of an entry (\<open>DefaultTTL\<close>) is a separate step of the store.
\<close>

section \<open>Host names and keys\<close>

definition splitHostPort :: "string \<Rightarrow> string option" where
  \<comment> \<open>\<open>net.SplitHostPort\<close>: the host, when the text has a port\<close>
  "splitHostPort hp =
     (let parts = split_on (CHR '':'') hp; before = join_with '':'' (butlast parts) in
      if length parts < 2 then None
      else if hd hp = CHR ''['' then
        (let inner = takeWhile (\<lambda>c. c \<noteq> CHR '']'') (tl hp); rest = drop (length inner + 1) hp in
         if rest = [] \<or> hd (tl rest @ ''x'') \<noteq> CHR '':'' then None
         else if CHR '':'' \<in> set (tl (tl rest)) then None
         else if CHR ''['' \<in> set (tl hp) \<or> CHR '']'' \<in> set (tl rest) then None
         else Some inner)
      else if CHR '':'' \<in> set before then None
      else if CHR ''['' \<in> set hp \<or> CHR '']'' \<in> set hp then None
      else Some before)"

definition strip_dots :: "string \<Rightarrow> string" where
  \<comment> \<open>\<open>strings.Trim(s, ".")\<close>\<close>
  "strip_dots s = rev (dropWhile (\<lambda>c. c = CHR ''.'') (rev (dropWhile (\<lambda>c. c = CHR ''.'') s)))"

definition normalizeHostname :: "string \<Rightarrow> string" where
  "normalizeHostname hostname =
     (let h = trim (lower hostname) in
      strip_dots
        (case splitHostPort h of Some host \<Rightarrow> host
         | None \<Rightarrow>
             (case split_on (CHR '':'') h of
                [host, port] \<Rightarrow> if parse_int64 port \<noteq> None then host else h
              | _ \<Rightarrow> h)))"

definition cache_key :: "string \<Rightarrow> string \<Rightarrow> string" where
  "cache_key hostname slug = ''shortq:redirect:v1:'' @ normalizeHostname hostname @ '':'' @ slug"

section \<open>Entries\<close>

record cached_redirect =
  cr_version :: int
  cr_id :: int
  cr_tenant_id :: "int option"
  cr_slug :: string
  cr_target_url :: string
  cr_redirect_code :: int
  cr_expires_at :: "int option"
  cr_expired_url :: string
  cr_ios_url :: string
  cr_android_url :: string
  cr_forward_query :: bool
  cr_utm :: "string \<times> string \<times> string \<times> string \<times> string"
  cr_geo_targets :: "geo_target list"

definition schema_version :: int where
  "schema_version = 1"

definition fromLink :: "link \<Rightarrow> cached_redirect option" where
  "fromLink l =
     (if l_password_protected l \<or> l_password_hash l \<noteq> [] \<or> l_max_clicks l \<noteq> None then None
      else Some \<lparr>cr_version = schema_version, cr_id = l_id l, cr_tenant_id = l_tenant_id l, cr_slug = l_slug l,
        cr_target_url = l_target_url l, cr_redirect_code = l_redirect_code l, cr_expires_at = l_expires_at l,
        cr_expired_url = l_expired_url l, cr_ios_url = l_ios_url l, cr_android_url = l_android_url l,
        cr_forward_query = l_forward_query l,
        cr_utm = (l_utm_source l, l_utm_medium l, l_utm_campaign l, l_utm_term l, l_utm_content l),
        cr_geo_targets = l_geo_targets l\<rparr>)"

definition toLink :: "cached_redirect \<Rightarrow> link option" where
  \<comment> \<open>\<open>None\<close> is the error about an unsupported version\<close>
  "toLink v =
     (if cr_version v \<noteq> schema_version then None
      else case cr_utm v of (source, medium, campaign, term, content) \<Rightarrow>
        Some (blank_link\<lparr>l_id := cr_id v, l_tenant_id := cr_tenant_id v, l_slug := cr_slug v,
          l_target_url := cr_target_url v, l_redirect_code := cr_redirect_code v, l_expires_at := cr_expires_at v,
          l_expired_url := cr_expired_url v, l_ios_url := cr_ios_url v, l_android_url := cr_android_url v,
          l_forward_query := cr_forward_query v, l_utm_source := source, l_utm_medium := medium,
          l_utm_campaign := campaign, l_utm_term := term, l_utm_content := content,
          l_geo_targets := cr_geo_targets v\<rparr>))"

lemma toLink_fromLink:
  assumes "fromLink l = Some v"
  obtains l' where "toLink v = Some l'" and "fromLink l' = Some v"
proof -
  have "toLink v \<noteq> None \<and> fromLink (the (toLink v)) = Some v"
    using assms by (auto simp: fromLink_def toLink_def blank_link_def split: if_splits)
  with that show thesis by auto
qed

section \<open>Keys tell hosts and slugs apart\<close>

lemma append_colon_inj:
  assumes "a @ CHR '':'' # s = b @ CHR '':'' # t" and "CHR '':'' \<notin> set s" and "CHR '':'' \<notin> set t"
  shows "a = b \<and> s = t"
proof -
  have "rev s @ CHR '':'' # rev a = rev t @ CHR '':'' # rev b"
    using arg_cong [OF assms(1), of rev] by simp
  moreover have "takeWhile (\<lambda>c. c \<noteq> CHR '':'') (rev u @ CHR '':'' # x) = rev u" if "CHR '':'' \<notin> set u" for u x
    using that by (subst takeWhile_append2) auto
  ultimately have "rev s = rev t" using assms(2,3) by metis
  then show ?thesis using assms(1) by simp
qed

lemma cache_key_inj:
  assumes "CHR '':'' \<notin> set s" and "CHR '':'' \<notin> set t"
  shows "cache_key h s = cache_key g t \<longleftrightarrow> normalizeHostname h = normalizeHostname g \<and> s = t"
  using append_colon_inj [OF _ assms] by (auto simp: cache_key_def)

section \<open>The interface\<close>

text \<open>A call that fails answers \<open>None\<close> or \<open>False\<close>. \<open>holds c k\<close> is the entry stored under a key. A failed
  \<open>put\<close> may or may not have stored the entry, a failed \<open>del\<close> may or may not have removed it.\<close>

locale redirect_cache =
  fixes get :: "'c \<Rightarrow> string \<Rightarrow> string \<Rightarrow> cached_redirect option option \<times> 'c"
    and put :: "'c \<Rightarrow> string \<Rightarrow> string \<Rightarrow> cached_redirect \<Rightarrow> bool \<times> 'c"
    and del :: "'c \<Rightarrow> string \<Rightarrow> string \<Rightarrow> bool \<times> 'c"
    and holds :: "'c \<Rightarrow> string \<Rightarrow> cached_redirect option"
  assumes get_keeps: "holds (snd (get c h s)) = holds c"
    and get_found: "fst (get c h s) = Some (Some v) \<Longrightarrow> holds c (cache_key h s) = Some v"
    and put_holds: "k \<noteq> cache_key h s \<Longrightarrow> holds (snd (put c h s v)) k = holds c k"
    and put_key: "holds (snd (put c h s v)) (cache_key h s) \<in> {holds c (cache_key h s), Some v}"
    and del_holds: "k \<noteq> cache_key h s \<Longrightarrow> holds (snd (del c h s)) k = holds c k"
    and del_key: "holds (snd (del c h s)) (cache_key h s) \<in> {holds c (cache_key h s), None}"
    and del_ok: "fst (del c h s) \<Longrightarrow> holds (snd (del c h s)) (cache_key h s) = None"

section \<open>Resolving and invalidating\<close>

text \<open>\<open>Resolve\<close> over the calls of a cache, with the counters of its observer. \<open>load\<close> reads the link from
  the database; \<open>Inl\<close> is its error.\<close>

record cache_metrics =
  cm_hits :: nat
  cm_misses :: nat
  cm_errors :: nat
  cm_invalidations :: nat

definition count_error :: "cache_metrics \<Rightarrow> cache_metrics" where
  "count_error m = m\<lparr>cm_errors := cm_errors m + 1\<rparr>"

definition read_through ::
    "('c \<Rightarrow> string \<Rightarrow> string \<Rightarrow> cached_redirect \<Rightarrow> bool \<times> 'c) \<Rightarrow> string \<Rightarrow> string \<Rightarrow>
     store_error + link \<Rightarrow> 'c \<times> cache_metrics \<Rightarrow> (store_error + link) \<times> 'c \<times> cache_metrics" where
  \<comment> \<open>\<open>Resolve\<close> after the cache had no answer\<close>
  "read_through put h s loaded cm =
     (case loaded of Inl e \<Rightarrow> (Inl e, cm)
      | Inr l \<Rightarrow>
          (case fromLink l of None \<Rightarrow> (Inr l, cm)
           | Some v \<Rightarrow> (case put (fst cm) h s v of (ok, c) \<Rightarrow>
               (Inr l, c, if ok then snd cm else count_error (snd cm)))))"

definition resolve ::
    "('c \<Rightarrow> string \<Rightarrow> string \<Rightarrow> cached_redirect option option \<times> 'c) \<Rightarrow>
     ('c \<Rightarrow> string \<Rightarrow> string \<Rightarrow> cached_redirect \<Rightarrow> bool \<times> 'c) \<Rightarrow> string \<Rightarrow> string \<Rightarrow>
     store_error + link \<Rightarrow> 'c \<times> cache_metrics \<Rightarrow> (store_error + link) \<times> 'c \<times> cache_metrics" where
  "resolve get put h s loaded cm =
     (case get (fst cm) h s of
        (None, c) \<Rightarrow> read_through put h s loaded (c, count_error (snd cm))
      | (Some None, c) \<Rightarrow> read_through put h s loaded (c, (snd cm)\<lparr>cm_misses := cm_misses (snd cm) + 1\<rparr>)
      | (Some (Some v), c) \<Rightarrow>
          (case toLink v of None \<Rightarrow> read_through put h s loaded (c, count_error (snd cm))
           | Some l \<Rightarrow> (Inr l, c, (snd cm)\<lparr>cm_hits := cm_hits (snd cm) + 1\<rparr>)))"

text \<open>\<open>Invalidate\<close>: each host once, by its key; the result tells whether every deletion worked.\<close>

fun invalidate ::
    "('c \<Rightarrow> string \<Rightarrow> string \<Rightarrow> bool \<times> 'c) \<Rightarrow> string set \<Rightarrow> string list \<Rightarrow> string \<Rightarrow> 'c \<times> cache_metrics \<Rightarrow>
     bool \<times> 'c \<times> cache_metrics" where
  "invalidate del seen [] s cm = (True, cm)"
| "invalidate del seen (h # hs) s cm =
     (let host = normalizeHostname h in
      if host = [] \<or> cache_key host s \<in> seen then invalidate del seen hs s cm
      else case del (fst cm) host s of
        (ok, c) \<Rightarrow>
          let m = (if ok then (snd cm)\<lparr>cm_invalidations := cm_invalidations (snd cm) + 1\<rparr> else count_error (snd cm));
              r = invalidate del (insert (cache_key host s) seen) hs s (c, m)
          in (ok \<and> fst r, snd r))"

section \<open>Visits and changes\<close>

text \<open>A run of the redirects beside the database: \<open>Visit\<close> resolves a slug under a host, \<open>Change\<close> is
  \<open>InvalidateAfter\<close>: the link of a slug changes (to what \<open>LinkBySlug\<close> then answers) and the hosts are
  invalidated. Each event leaves an observation: an answer with what the database would have answered, or
  whether every deletion worked.\<close>

datatype cache_event = Visit string string | Change string "store_error + link" "string list"

datatype observation = Answer "store_error + link" "store_error + link" | Invalidated bool

type_synonym links_by_slug = "string \<Rightarrow> store_error + link"

definition cache_step ::
    "('c \<Rightarrow> string \<Rightarrow> string \<Rightarrow> cached_redirect option option \<times> 'c) \<Rightarrow>
     ('c \<Rightarrow> string \<Rightarrow> string \<Rightarrow> cached_redirect \<Rightarrow> bool \<times> 'c) \<Rightarrow> ('c \<Rightarrow> string \<Rightarrow> string \<Rightarrow> bool \<times> 'c) \<Rightarrow>
     cache_event \<Rightarrow> links_by_slug \<times> 'c \<times> cache_metrics \<Rightarrow> observation \<times> links_by_slug \<times> 'c \<times> cache_metrics" where
  "cache_step get put del e w =
     (case e of
        Visit h s \<Rightarrow> (case resolve get put h s (fst w s) (snd w) of (r, cm) \<Rightarrow> (Answer r (fst w s), fst w, cm))
      | Change s r hosts \<Rightarrow>
          (case invalidate del {} hosts s (snd w) of (ok, cm) \<Rightarrow> (Invalidated ok, (fst w)(s := r), cm)))"

fun cache_run ::
    "('c \<Rightarrow> string \<Rightarrow> string \<Rightarrow> cached_redirect option option \<times> 'c) \<Rightarrow>
     ('c \<Rightarrow> string \<Rightarrow> string \<Rightarrow> cached_redirect \<Rightarrow> bool \<times> 'c) \<Rightarrow> ('c \<Rightarrow> string \<Rightarrow> string \<Rightarrow> bool \<times> 'c) \<Rightarrow>
     cache_event list \<Rightarrow> links_by_slug \<times> 'c \<times> cache_metrics \<Rightarrow> observation list" where
  "cache_run get put del [] w = []"
| "cache_run get put del (e # es) w =
     (case cache_step get put del e w of (obs, w') \<Rightarrow> obs # cache_run get put del es w')"

definition cache_after ::
    "('c \<Rightarrow> string \<Rightarrow> string \<Rightarrow> cached_redirect option option \<times> 'c) \<Rightarrow>
     ('c \<Rightarrow> string \<Rightarrow> string \<Rightarrow> cached_redirect \<Rightarrow> bool \<times> 'c) \<Rightarrow> ('c \<Rightarrow> string \<Rightarrow> string \<Rightarrow> bool \<times> 'c) \<Rightarrow>
     cache_event list \<Rightarrow> links_by_slug \<times> 'c \<times> cache_metrics \<Rightarrow> links_by_slug \<times> 'c \<times> cache_metrics" where
  "cache_after get put del es w = fold (\<lambda>e w. snd (cache_step get put del e w)) es w"

text \<open>The hosts the redirects are visited under, and runs whose changes invalidate all of them.\<close>

definition covers :: "string set \<Rightarrow> string list \<Rightarrow> bool" where
  "covers H hosts \<longleftrightarrow> (\<forall>h \<in> H. \<exists>g \<in> set hosts. normalizeHostname g = h)"

fun event_ok :: "string set \<Rightarrow> cache_event \<Rightarrow> bool" where
  "event_ok H (Visit h s) = (normalizeHostname h \<in> H \<and> CHR '':'' \<notin> set s)"
| "event_ok H (Change s r hosts) = (covers H hosts \<and> CHR '':'' \<notin> set s)"

definition hosts_ok :: "string set \<Rightarrow> bool" where
  "hosts_ok H \<longleftrightarrow> (\<forall>h \<in> H. h \<noteq> [] \<and> normalizeHostname h = h)"

section \<open>Coherence\<close>

text \<open>What the cache must be: every entry that can be read for a slug is what the link of that slug would
  be cached as. Slugs of links have no colon, so that a key names one slug.\<close>

definition coherent :: "(string \<Rightarrow> store_error + link) \<Rightarrow> (string \<Rightarrow> cached_redirect option) \<Rightarrow> bool" where
  "coherent load entries \<longleftrightarrow> (\<forall>h s v. CHR '':'' \<notin> set s \<longrightarrow> entries (cache_key h s) = Some v \<longrightarrow>
     (\<exists>l. load s = Inr l \<and> fromLink l = Some v))"

lemma coherentD:
  "coherent load entries \<Longrightarrow> CHR '':'' \<notin> set s \<Longrightarrow> entries (cache_key h s) = Some v \<Longrightarrow>
     \<exists>l. load s = Inr l \<and> fromLink l = Some v"
  unfolding coherent_def by blast

text \<open>Two links a redirect cannot tell apart: the same entry is cached for both, or they are the same.\<close>

definition same_redirect :: "link \<Rightarrow> link \<Rightarrow> bool" where
  "same_redirect l l' \<longleftrightarrow> l = l' \<or> (fromLink l \<noteq> None \<and> fromLink l = fromLink l')"

definition agrees :: "store_error + link \<Rightarrow> store_error + link \<Rightarrow> bool" where
  "agrees r r' \<longleftrightarrow> (case (r, r') of (Inl e, Inl e') \<Rightarrow> e = e' | (Inr l, Inr l') \<Rightarrow> same_redirect l l' | _ \<Rightarrow> False)"

lemma agrees_refl [simp]: "agrees r r"
  by (cases r) (simp_all add: agrees_def same_redirect_def)

text \<open>Entries are held under known hosts only.\<close>

definition known :: "string set \<Rightarrow> (string \<Rightarrow> cached_redirect option) \<Rightarrow> bool" where
  "known H entries \<longleftrightarrow>
     (\<forall>h s. CHR '':'' \<notin> set s \<longrightarrow> entries (cache_key h s) \<noteq> None \<longrightarrow> normalizeHostname h \<in> H)"

lemma known_shrinks: "known H e \<Longrightarrow> (\<And>k. e' k \<in> {e k, None}) \<Longrightarrow> known H e'"
  unfolding known_def by (metis empty_iff insertE)

context redirect_cache
begin

lemma coherent_put:
  assumes "coherent load (holds c)" and "CHR '':'' \<notin> set s" and "load s = Inr l" and "fromLink l = Some v"
  shows "coherent load (holds (snd (put c h s v)))"
  unfolding coherent_def
proof (intro allI impI)
  fix g t w
  assume t: "CHR '':'' \<notin> set t" and w: "holds (snd (put c h s v)) (cache_key g t) = Some w"
  show "\<exists>l. load t = Inr l \<and> fromLink l = Some w"
  proof (cases "cache_key g t = cache_key h s")
    case True
    then have "t = s" using cache_key_inj t assms(2) by simp
    moreover have "holds c (cache_key h s) = Some w \<or> w = v"
      using w put_key [of c h s v] True by auto
    ultimately show ?thesis using assms coherentD [OF assms(1,2)] by blast
  next
    case False
    then have "holds c (cache_key g t) = Some w" using w put_holds by metis
    then show ?thesis using coherentD [OF assms(1) t] by blast
  qed
qed

lemma read_through_correct:
  assumes "coherent load (holds (fst cm))" and "CHR '':'' \<notin> set s"
  shows "fst (read_through put h s (load s) cm) = load s \<and>
    coherent load (holds (fst (snd (read_through put h s (load s) cm))))"
proof (cases "load s")
  case (Inl e)
  then show ?thesis using assms by (simp add: read_through_def)
next
  case (Inr l)
  show ?thesis
  proof (cases "fromLink l")
    case None
    then show ?thesis using Inr assms by (simp add: read_through_def)
  next
    case (Some v)
    obtain ok c where "put (fst cm) h s v = (ok, c)" by fastforce
    then show ?thesis using coherent_put [OF assms Inr Some, of h] Inr Some by (simp add: read_through_def)
  qed
qed

lemma resolve_correct:
  assumes "coherent load (holds (fst cm))" and "CHR '':'' \<notin> set s"
  shows "agrees (fst (resolve get put h s (load s) cm)) (load s)"
    and "coherent load (holds (fst (snd (resolve get put h s (load s) cm))))"
proof -
  obtain r c where g: "get (fst cm) h s = (r, c)" by fastforce
  then have same: "holds c = holds (fst cm)" using get_keeps [of "fst cm" h s] by simp
  have through: "fst (read_through put h s (load s) (c, m)) = load s"
      "coherent load (holds (fst (snd (read_through put h s (load s) (c, m)))))" for m
    using read_through_correct [of load "(c, m)" s h] assms same by simp_all
  consider "r = None" | "r = Some None" | v where "r = Some (Some v)" by (cases r) auto
  then have "agrees (fst (resolve get put h s (load s) cm)) (load s) \<and>
      coherent load (holds (fst (snd (resolve get put h s (load s) cm))))"
  proof cases
    case 3
    then have "holds (fst cm) (cache_key h s) = Some v" using get_found g by simp
    then obtain l where l: "load s = Inr l" "fromLink l = Some v"
      using coherentD [OF assms] by blast
    obtain l' where "toLink v = Some l'" "fromLink l' = Some v" using toLink_fromLink [OF l(2)] by blast
    then show ?thesis using 3 g l assms(1) same by (simp add: resolve_def agrees_def same_redirect_def)
  qed (use g through in \<open>simp_all add: resolve_def\<close>)
  then show "agrees (fst (resolve get put h s (load s) cm)) (load s)"
    and "coherent load (holds (fst (snd (resolve get put h s (load s) cm))))" by simp_all
qed

lemma del_none: "holds c k = None \<Longrightarrow> holds (snd (del c h s)) k = None"
  by (cases "k = cache_key h s") (use del_key [of c h s] del_holds [of k h s c] in auto)

lemma invalidate_keeps_none:
  "holds (fst cm) k = None \<Longrightarrow> holds (fst (snd (invalidate del seen hs s cm))) k = None"
proof (induction hs arbitrary: seen cm)
  case (Cons h hs)
  obtain ok c where d: "del (fst cm) (normalizeHostname h) s = (ok, c)" by fastforce
  then have "holds c k = None" using del_none [OF Cons(2), of "normalizeHostname h" s] by simp
  with Cons d show ?case by (simp add: Let_def)
qed simp

lemma invalidate_holds:
  assumes "\<And>h. h \<in> set hs \<Longrightarrow> normalizeHostname h \<noteq> [] \<Longrightarrow> k \<noteq> cache_key (normalizeHostname h) s"
  shows "holds (fst (snd (invalidate del seen hs s cm))) k = holds (fst cm) k"
  using assms
proof (induction hs arbitrary: seen cm)
  case (Cons h hs)
  obtain ok c where d: "del (fst cm) (normalizeHostname h) s = (ok, c)" by fastforce
  have rest: "holds (fst (snd (invalidate del seen' hs s cm'))) k = holds (fst cm') k" for seen' cm'
    using Cons by simp
  show ?case
  proof (cases "normalizeHostname h = [] \<or> cache_key (normalizeHostname h) s \<in> seen")
    case False
    then have "k \<noteq> cache_key (normalizeHostname h) s" using Cons(2) by simp
    then have "holds c k = holds (fst cm) k" using del_holds [of k "normalizeHostname h" s "fst cm"] d by simp
    then show ?thesis using rest False d by (simp add: Let_def)
  qed (use rest in \<open>simp add: Let_def\<close>)
qed simp

lemma invalidate_removes:
  assumes "fst (invalidate del seen hs s cm)" and "h \<in> set hs" and "normalizeHostname h \<noteq> []"
    and "\<forall>k \<in> seen. holds (fst cm) k = None"
  shows "holds (fst (snd (invalidate del seen hs s cm))) (cache_key (normalizeHostname h) s) = None"
  using assms
proof (induction hs arbitrary: seen cm)
  case (Cons g hs)
  let ?k = "cache_key (normalizeHostname g) s"
  obtain ok c where d: "del (fst cm) (normalizeHostname g) s = (ok, c)" by fastforce
  show ?case
  proof (cases "normalizeHostname g = [] \<or> ?k \<in> seen")
    case True
    show ?thesis
    proof (cases "h \<in> set hs")
      case False
      then have "holds (fst cm) (cache_key (normalizeHostname h) s) = None" using Cons(3-5) True by auto
      then show ?thesis using True invalidate_keeps_none [of cm _ seen hs s] by (simp add: Let_def)
    qed (use Cons True in \<open>simp add: Let_def\<close>)
  next
    case fresh: False
    define m where "m = (if ok then (snd cm)\<lparr>cm_invalidations := cm_invalidations (snd cm) + 1\<rparr> else count_error (snd cm))"
    have step: "invalidate del seen (g # hs) s cm =
        (ok \<and> fst (invalidate del (insert ?k seen) hs s (c, m)), snd (invalidate del (insert ?k seen) hs s (c, m)))"
      using fresh d by (simp add: Let_def m_def)
    have ok: "ok" and rest: "fst (invalidate del (insert ?k seen) hs s (c, m))" using Cons(2) step by simp_all
    have gone: "holds c ?k = None" using del_ok [of "fst cm" "normalizeHostname g" s] d ok by simp
    have seen: "\<forall>k \<in> insert ?k seen. holds (fst (c, m)) k = None"
      using gone del_none [of "fst cm" _ "normalizeHostname g" s] Cons(5) d by auto
    show ?thesis
    proof (cases "h \<in> set hs")
      case False
      then have "h = g" using Cons(3) by simp
      then show ?thesis using step gone invalidate_keeps_none [of "(c, m)" ?k "insert ?k seen" hs s] by simp
    next
      case True
      then show ?thesis using Cons(1) [OF rest True Cons(4) seen] step by simp
    qed
  qed
qed simp

lemma invalidate_shrinks:
  "holds (fst (snd (invalidate del seen hs s cm))) k \<in> {holds (fst cm) k, None}"
proof (induction hs arbitrary: seen cm)
  case (Cons h hs)
  obtain ok c where d: "del (fst cm) (normalizeHostname h) s = (ok, c)" by fastforce
  have one: "holds c k \<in> {holds (fst cm) k, None}"
    using d del_key [of "fst cm" "normalizeHostname h" s] del_holds [of k "normalizeHostname h" s "fst cm"]
    by (cases "k = cache_key (normalizeHostname h) s") auto
  show ?case
  proof (cases "normalizeHostname h = [] \<or> cache_key (normalizeHostname h) s \<in> seen")
    case True
    then show ?thesis using Cons [of seen cm] by (simp add: Let_def)
  next
    case False
    define m where "m = (if ok then (snd cm)\<lparr>cm_invalidations := cm_invalidations (snd cm) + 1\<rparr> else count_error (snd cm))"
    have "snd (invalidate del seen (h # hs) s cm) =
        snd (invalidate del (insert (cache_key (normalizeHostname h) s) seen) hs s (c, m))"
      using False d by (simp add: Let_def m_def)
    then show ?thesis using Cons [of "insert (cache_key (normalizeHostname h) s) seen" "(c, m)"] one by auto
  qed
qed simp

lemma known_resolve:
  assumes "known H (holds (fst cm))" and "normalizeHostname h \<in> H" and "CHR '':'' \<notin> set s"
  shows "known H (holds (fst (snd (resolve get put h s r cm))))"
proof -
  obtain q c where g: "get (fst cm) h s = (q, c)" by fastforce
  then have c: "known H (holds c)" using assms(1) get_keeps [of "fst cm" h s] by (simp add: known_def)
  have put: "known H (holds (snd (put c h s v)))" for v
    unfolding known_def
  proof (intro allI impI)
    fix g t
    assume t: "CHR '':'' \<notin> set t" and "holds (snd (put c h s v)) (cache_key g t) \<noteq> None"
    then show "normalizeHostname g \<in> H"
      using put_holds [of "cache_key g t" h s c v] c cache_key_inj [OF t assms(3), of g h] assms(2)
      unfolding known_def by metis
  qed
  have "known H (holds (fst (snd (read_through put h s r (c, m)))))" for m
  proof (cases r)
    case (Inr l)
    show ?thesis
    proof (cases "fromLink l")
      case (Some v)
      obtain ok c' where "put c h s v = (ok, c')" by fastforce
      then show ?thesis using put [of v] Inr Some by (simp add: read_through_def)
    qed (use Inr c in \<open>simp add: read_through_def\<close>)
  qed (use c in \<open>simp add: read_through_def\<close>)
  then show ?thesis using g c by (auto simp: resolve_def split: option.split)
qed

lemma coherent_change:
  assumes "coherent load (holds (fst cm))" and "known H (holds (fst cm))" and "hosts_ok H" and "covers H hosts"
    and "CHR '':'' \<notin> set s" and "fst (invalidate del {} hosts s cm)"
  shows "coherent (load(s := r)) (holds (fst (snd (invalidate del {} hosts s cm))))"
  unfolding coherent_def
proof (intro allI impI)
  fix h t v
  assume t: "CHR '':'' \<notin> set t"
    and v: "holds (fst (snd (invalidate del {} hosts s cm))) (cache_key h t) = Some v"
  then have old: "holds (fst cm) (cache_key h t) = Some v"
    using invalidate_shrinks [of "{}" hosts s cm "cache_key h t"] by auto
  then have h: "normalizeHostname h \<in> H" using assms(2) t unfolding known_def by simp
  then obtain g where g: "g \<in> set hosts" "normalizeHostname g = normalizeHostname h"
    using assms(4) unfolding covers_def by blast
  have canon: "normalizeHostname h \<noteq> []" "normalizeHostname (normalizeHostname h) = normalizeHostname h"
    using assms(3) h unfolding hosts_ok_def by auto
  have "t \<noteq> s"
  proof
    assume "t = s"
    then have "cache_key h t = cache_key (normalizeHostname g) s" using g canon by (simp add: cache_key_def)
    then show False using v invalidate_removes [OF assms(6) g(1)] g canon by simp
  qed
  then show "\<exists>l. (load(s := r)) t = Inr l \<and> fromLink l = Some v"
    using coherentD [OF assms(1) t old] by simp
qed

lemma run_agrees:
  assumes "coherent (fst w) (holds (fst (snd w)))" and "known H (holds (fst (snd w)))" and "hosts_ok H"
    and "\<forall>e \<in> set es. event_ok H e" and "Invalidated False \<notin> set (cache_run get put del es w)"
    and "Answer r r' \<in> set (cache_run get put del es w)"
  shows "agrees r r'"
  using assms(1,2,4,5,6)
proof (induction es arbitrary: w)
  case (Cons e es)
  obtain obs w' where step: "cache_step get put del e w = (obs, w')" by (meson surj_pair)
  have "coherent (fst w') (holds (fst (snd w'))) \<and> known H (holds (fst (snd w'))) \<and>
      (\<forall>a b. obs = Answer a b \<longrightarrow> agrees a b)"
  proof (cases e)
    case (Visit h s)
    have ok: "normalizeHostname h \<in> H" "CHR '':'' \<notin> set s" using Cons(4) Visit by simp_all
    obtain q cm where q: "resolve get put h s (fst w s) (snd w) = (q, cm)" by (meson surj_pair)
    then have "obs = Answer q (fst w s)" "w' = (fst w, cm)" using step Visit by (simp_all add: cache_step_def)
    then show ?thesis
      using resolve_correct [OF Cons(2) ok(2), of h] known_resolve [OF Cons(3) ok, of "fst w s"] q by simp
  next
    case (Change s q hosts)
    have ok: "covers H hosts" "CHR '':'' \<notin> set s" using Cons(4) Change by simp_all
    obtain b cm where b: "invalidate del {} hosts s (snd w) = (b, cm)" by (meson surj_pair)
    then have o: "obs = Invalidated b" "w' = ((fst w)(s := q), cm)"
      using step Change by (simp_all add: cache_step_def)
    have "b" using Cons(5) o(1) step by (cases b) simp_all
    then have "coherent ((fst w)(s := q)) (holds (fst cm))"
      using coherent_change [OF Cons(2,3) assms(3) ok] b by simp
    moreover have "known H (holds (fst cm))"
      using known_shrinks [OF Cons(3)] invalidate_shrinks [of "{}" hosts s "snd w"] b by simp
    ultimately show ?thesis using o by simp
  qed
  then show ?case using Cons.IH [of w'] Cons(4-6) step by auto
qed simp

end

end
