(* ===== verification/RedisCache.thy ===== *)
theory RedisCache
  imports RedirectCache
begin

text \<open>
  The cache over Redis (\<open>internal/redirectcache/redis.go\<close>) and what holds of redirects through it.

  The server is its documented behaviour: a table of keys with an expiry, and a clock. What becomes of the
  calls that follow is a list: answered, lost on the way, or carried out without the client hearing of it;
  calls past its end are answered. JSON encoding and decoding of an entry cancel out, apart from the
  version, which \<open>Get\<close> checks. Times are milliseconds.
\<close>

section \<open>The server and the calls\<close>

datatype call_outcome = Answered | Lost | Unheard

record redis =
  rd_data :: "string \<Rightarrow> (cached_redirect \<times> int) option"
  rd_now :: int
  rd_net :: "call_outcome list"

definition redis_call :: "redis \<Rightarrow> call_outcome \<times> redis" where
  "redis_call c = (case rd_net c of [] \<Rightarrow> (Answered, c) | o1 # os \<Rightarrow> (o1, c\<lparr>rd_net := os\<rparr>))"

definition redis_live :: "redis \<Rightarrow> string \<Rightarrow> cached_redirect option" where
  \<comment> \<open>the entry \<open>GET\<close> answers\<close>
  "redis_live c k = (case rd_data c k of None \<Rightarrow> None | Some (v, expiry) \<Rightarrow> if rd_now c < expiry then Some v else None)"

definition DefaultTTL :: int where
  "DefaultTTL = 24 * 60 * 60 * 1000"

definition redisGet :: "redis \<Rightarrow> string \<Rightarrow> string \<Rightarrow> cached_redirect option option \<times> redis" where
  \<comment> \<open>\<open>None\<close> is an error, \<open>Some None\<close> is not found\<close>
  "redisGet c hostname slug =
     (case redis_call c of (outcome, c1) \<Rightarrow>
       (if outcome \<noteq> Answered then None
        else case redis_live c1 (cache_key hostname slug) of None \<Rightarrow> Some None
          | Some v \<Rightarrow> if cr_version v \<noteq> schema_version then Some None else Some (Some v), c1))"

definition redisSet :: "redis \<Rightarrow> string \<Rightarrow> string \<Rightarrow> cached_redirect \<Rightarrow> int \<Rightarrow> bool \<times> redis" where
  "redisSet c hostname slug v ttl =
     (case redis_call c of (outcome, c1) \<Rightarrow>
       (outcome = Answered,
        if outcome = Lost then c1
        else c1\<lparr>rd_data := (rd_data c1)(cache_key hostname slug \<mapsto> (v, rd_now c1 + ttl))\<rparr>))"

definition redisDelete :: "redis \<Rightarrow> string \<Rightarrow> string \<Rightarrow> bool \<times> redis" where
  "redisDelete c hostname slug =
     (case redis_call c of (outcome, c1) \<Rightarrow>
       (outcome = Answered,
        if outcome = Lost then c1 else c1\<lparr>rd_data := (rd_data c1)(cache_key hostname slug := None)\<rparr>))"

text \<open>What \<open>Resolve\<close> stores with: the default time to live.\<close>

definition redisPut :: "redis \<Rightarrow> string \<Rightarrow> string \<Rightarrow> cached_redirect \<Rightarrow> bool \<times> redis" where
  "redisPut c hostname slug v = redisSet c hostname slug v DefaultTTL"

definition redis_wait :: "nat \<Rightarrow> redis \<Rightarrow> redis" where
  "redis_wait d c = c\<lparr>rd_now := rd_now c + int d\<rparr>"

lemma redis_call_live: "redis_live (snd (redis_call c)) = redis_live c"
  by (simp add: redis_call_def redis_live_def fun_eq_iff split: list.split option.split)

lemma redisGet_state: "snd (redisGet c h s) = snd (redis_call c)"
  by (simp add: redisGet_def split: prod.split)

lemma redis_call_now [simp]: "rd_now (snd (redis_call c)) = rd_now c" "rd_data (snd (redis_call c)) = rd_data c"
  by (simp_all add: redis_call_def split: list.split)

text \<open>The state after a write: that of the call, with the key written unless the call was lost.\<close>

definition redis_write :: "string \<Rightarrow> (cached_redirect \<times> int) option \<Rightarrow> redis \<Rightarrow> redis" where
  "redis_write k e c = c\<lparr>rd_data := (rd_data c)(k := e)\<rparr>"

lemma redis_write_live:
  "redis_live (redis_write k e c) = (redis_live c)(k := (case e of None \<Rightarrow> None
     | Some (v, expiry) \<Rightarrow> if rd_now c < expiry then Some v else None))"
  by (simp add: redis_write_def redis_live_def fun_eq_iff split: option.split)

lemma redisPut_state:
  "snd (redisPut c h s v) = (if fst (redis_call c) = Lost then snd (redis_call c)
     else redis_write (cache_key h s) (Some (v, rd_now c + DefaultTTL)) (snd (redis_call c)))"
  using redis_call_now [of c]
  by (cases "redis_call c") (simp add: redisPut_def redisSet_def redis_write_def)

lemma redisDelete_state:
  "snd (redisDelete c h s) = (if fst (redis_call c) = Lost then snd (redis_call c)
     else redis_write (cache_key h s) None (snd (redis_call c)))"
  using redis_call_now [of c]
  by (cases "redis_call c") (simp add: redisDelete_def redis_write_def)

lemmas redis_states = redisGet_state redisPut_state redisDelete_state redis_write_live redis_call_live

section \<open>It is a redirect cache\<close>

interpretation redis: redirect_cache redisGet redisPut redisDelete redis_live
proof
  show "redis_live (snd (redisGet c h s)) = redis_live c" for c h s
    by (simp add: redisGet_state redis_call_live)
  show "fst (redisGet c h s) = Some (Some v) \<Longrightarrow> redis_live c (cache_key h s) = Some v" for c h s v
    using redis_call_live [of c] by (auto simp: redisGet_def split: option.splits if_splits prod.splits)
  show "k \<noteq> cache_key h s \<Longrightarrow> redis_live (snd (redisPut c h s v)) k = redis_live c k" for k h s c v
    by (simp add: redis_states DefaultTTL_def)
  show "redis_live (snd (redisPut c h s v)) (cache_key h s) \<in> {redis_live c (cache_key h s), Some v}" for c h s v
    by (simp add: redis_states DefaultTTL_def)
  show "k \<noteq> cache_key h s \<Longrightarrow> redis_live (snd (redisDelete c h s)) k = redis_live c k" for k h s c
    by (simp add: redis_states DefaultTTL_def)
  show "redis_live (snd (redisDelete c h s)) (cache_key h s) \<in> {redis_live c (cache_key h s), None}" for c h s
    by (simp add: redis_states DefaultTTL_def)
  show "fst (redisDelete c h s) \<Longrightarrow> redis_live (snd (redisDelete c h s)) (cache_key h s) = None" for c h s
    by (cases "fst (redis_call c)") (simp_all add: redis_states, simp_all add: redisDelete_def split: prod.splits)
qed

definition empty_redis :: redis where
  "empty_redis = \<lparr>rd_data = \<lambda>_. None, rd_now = 0, rd_net = []\<rparr>"

definition no_metrics :: cache_metrics where
  "no_metrics = \<lparr>cm_hits = 0, cm_misses = 0, cm_errors = 0, cm_invalidations = 0\<rparr>"

section \<open>Nothing is older than a day\<close>

definition expires_in_time :: "redis \<Rightarrow> bool" where
  "expires_in_time c \<longleftrightarrow> (\<forall>k v expiry. rd_data c k = Some (v, expiry) \<longrightarrow> expiry \<le> rd_now c + DefaultTTL)"

lemma expires_in_time_calls:
  assumes "expires_in_time c"
  shows "expires_in_time (snd (redisGet c h s))" "expires_in_time (snd (redisPut c h s v))"
    "expires_in_time (snd (redisDelete c h s))" "expires_in_time (redis_wait d c)"
  using assms by (force simp: expires_in_time_def redis_wait_def redisGet_state redisPut_state redisDelete_state
      redis_write_def DefaultTTL_def)+

lemma expires_in_time_read_through:
  assumes "expires_in_time (fst cm)"
  shows "expires_in_time (fst (snd (read_through redisPut h s r cm)))"
proof -
  have "fst (snd (read_through redisPut h s r cm)) = fst cm \<or>
      (\<exists>v. fst (snd (read_through redisPut h s r cm)) = snd (redisPut (fst cm) h s v))"
    by (auto simp: read_through_def split: sum.split option.split prod.split) (metis snd_conv)+
  then show ?thesis using assms expires_in_time_calls(2) [OF assms] by auto
qed

lemma expires_in_time_resolve:
  assumes "expires_in_time (fst cm)"
  shows "expires_in_time (fst (snd (resolve redisGet redisPut h s r cm)))"
proof -
  obtain q c where g: "redisGet (fst cm) h s = (q, c)" by fastforce
  then have "expires_in_time c" using expires_in_time_calls(1) [OF assms, of h s] by simp
  then have "expires_in_time (fst (snd (read_through redisPut h s r (c, m))))" and "expires_in_time c" for m
    using expires_in_time_read_through [of "(c, m)"] by simp_all
  then show ?thesis using g by (simp add: resolve_def split: option.split)
qed

lemma expires_in_time_invalidate:
  "expires_in_time (fst cm) \<Longrightarrow> expires_in_time (fst (snd (invalidate redisDelete seen hs s cm)))"
proof (induction hs arbitrary: seen cm)
  case (Cons h hs)
  obtain ok c where d: "redisDelete (fst cm) (normalizeHostname h) s = (ok, c)" by fastforce
  have "expires_in_time c"
    using d expires_in_time_calls(3) [OF Cons(2), of "normalizeHostname h" s] by simp
  with Cons d show ?case by (simp add: Let_def)
qed simp

lemma nothing_after_a_day:
  assumes "expires_in_time c" and "DefaultTTL \<le> int d"
  shows "redis_live (redis_wait d c) k = None"
  using assms by (fastforce simp: expires_in_time_def redis_live_def redis_wait_def split: option.split)

lemma expires_in_time_step:
  assumes "expires_in_time (fst (snd w))"
  shows "expires_in_time (fst (snd (snd (cache_step redisGet redisPut redisDelete e w))))"
proof (cases e)
  case (Visit h s)
  then show ?thesis using expires_in_time_resolve [OF assms, of h s "fst w s"]
    by (auto simp: cache_step_def split: prod.split)
next
  case (Change s r hosts)
  then show ?thesis using expires_in_time_invalidate [OF assms, of "{}" hosts s]
    by (auto simp: cache_step_def split: prod.split)
qed

lemma expires_in_time_run:
  "expires_in_time (fst (snd w)) \<Longrightarrow>
     expires_in_time (fst (snd (cache_after redisGet redisPut redisDelete es w)))"
  by (induction es arbitrary: w) (simp_all add: cache_after_def expires_in_time_step)

lemma resolve_when_absent:
  assumes "redis_live c (cache_key h s) = None"
  shows "fst (resolve redisGet redisPut h s r (c, m)) = r"
proof -
  have "fst (read_through redisPut h s r cm) = r" for cm
    by (simp add: read_through_def split: sum.split option.split prod.split)
  moreover obtain q c' where g: "redisGet c h s = (q, c')" by fastforce
  then have "q \<noteq> Some (Some v)" for v using redis.get_found [of c h s v] assms by auto
  ultimately show ?thesis using g by (auto simp: resolve_def split: option.split)
qed

section \<open>Calls that all get through\<close>

lemma redis_call_quiet: "rd_net c = [] \<Longrightarrow> redis_call c = (Answered, c)"
  by (simp add: redis_call_def)

lemma invalidate_quiet:
  "rd_net (fst cm) = [] \<Longrightarrow> fst (invalidate redisDelete seen hs s cm) \<and>
     rd_net (fst (snd (invalidate redisDelete seen hs s cm))) = [] \<and>
     rd_now (fst (snd (invalidate redisDelete seen hs s cm))) = rd_now (fst cm)"
proof (induction hs arbitrary: seen cm)
  case (Cons h hs)
  then show ?case by (simp add: Let_def redisDelete_def redis_call_quiet)
qed simp

lemma resolve_found:
  assumes "rd_net c = []" and "redis_live c (cache_key h s) = Some v" and "fromLink l = Some v"
  shows "\<exists>l'. fst (resolve redisGet redisPut h s r (c, m)) = Inr l' \<and> fromLink l' = Some v"
proof -
  obtain l' where l: "toLink v = Some l'" "fromLink l' = Some v" using toLink_fromLink [OF assms(3)] by blast
  then have "cr_version v = schema_version" by (simp add: toLink_def split: if_splits)
  then show ?thesis using assms(1,2) l by (simp add: resolve_def redisGet_def redis_call_quiet)
qed

text \<open>An entry under the empty host (a request without a \<open>Host\<close>) is skipped by every invalidation.\<close>

lemma empty_host_survives:
  assumes "normalizeHostname h = []" and "CHR '':'' \<notin> set s"
    and "\<forall>g \<in> set hosts. normalizeHostname (normalizeHostname g) = normalizeHostname g"
  shows "redis_live (fst (snd (invalidate redisDelete {} hosts s cm))) (cache_key h s) =
    redis_live (fst cm) (cache_key h s)"
  using assms by (intro redis.invalidate_holds) (simp add: cache_key_inj)

section \<open>Properties\<close>


definition sample_visits :: "cache_event list" where
  "sample_visits =
     [Visit ''s.example.com'' ''promo'',
      Change ''promo'' (Inr (sample_link\<lparr>l_target_url := ''https://example.org/''\<rparr>)) [''s.example.com''],
      Visit ''S.example.com:443'' ''promo'', Visit ''s.example.com'' ''promo'',
      Change ''promo'' (Inl NoRows) [''s.example.com''], Visit ''s.example.com'' ''promo'']"

definition sample_load :: links_by_slug where
  "sample_load = (\<lambda>s. if s = ''promo'' then Inr sample_link else Inl NoRows)"

definition sample_run :: "observation list" where
  "sample_run = cache_run redisGet redisPut redisDelete sample_visits
     (sample_load, empty_redis\<lparr>rd_net := [Lost]\<rparr>, no_metrics)"


text \<open>C30: Whatever went wrong, an answer is never older than a day: after any run over a cache whose entries
  expire in time (an empty one, say), with calls lost or unheard, once \<open>DefaultTTL\<close> has passed without
  further visits a visit answers exactly what the database holds then.\<close>

theorem nothing_older_than_a_day:
  assumes "expires_in_time c" and "DefaultTTL \<le> int d"
  shows "fst (resolve redisGet redisPut h s r
    (redis_wait d (fst (snd (cache_after redisGet redisPut redisDelete es (load, c, m)))), m')) = r"
  using resolve_when_absent nothing_after_a_day [OF expires_in_time_run [of "(load, c, m)"] assms(2)] assms(1)
  by simp

theorem nothing_older_than_a_day_witness:
  "fst (resolve redisGet redisPut ''s.example.com'' ''promo'' (Inl NoRows)
     (redis_wait 86400000 (fst (snd (cache_after redisGet redisPut redisDelete sample_visits
       (sample_load, empty_redis, no_metrics)))), no_metrics)) = Inl NoRows"
  by (rule nothing_older_than_a_day) (simp_all add: expires_in_time_def empty_redis_def DefaultTTL_def)



end
