(* ===== verification/ClickRecord.thy ===== *)
theory ClickRecord
  imports Database
begin

text \<open>
  Recording clicks (\<open>internal/store/store.go\<close>: \<open>RecordClick\<close>, \<open>RecordClicks\<close>, \<open>insertClick\<close>,
  \<open>incrementClickRollup\<close>): one click at a time as the redirect handler does, and a batch in one
  transaction as the queue worker does.

  A transaction is the list of what becomes of its statements (answered or failed; past its end all are
  answered) with the tables it has written so far; on any failure the tables stay as they were. A row of
  \<open>clicks\<close> is the event it was made of; its \<open>id\<close> column is left out. Times are milliseconds; the zero time
  is \<open>None\<close>.
\<close>

section \<open>Tables\<close>

record event = click_event +
  e_event_id :: string
  e_ip :: string
  e_method :: string
  e_user_agent :: string
  e_resolved_url :: string
  e_referrer :: string
  e_utm_source :: string
  e_utm_medium :: string
  e_occurred_at :: "int option"
  e_increment :: bool

type_synonym rollup_key = "int \<times> int \<times> string \<times> string \<times> string \<times> string \<times> string \<times> string \<times> int"

record click_db =
  cd_links :: "link list"
  cd_rows :: "event list"
  cd_rollups :: "rollup_key \<Rightarrow> nat"

type_synonym tx = "bool list \<times> click_db"

definition statement :: "tx \<Rightarrow> store_error + tx" where
  "statement t = (case fst t of [] \<Rightarrow> Inr t
     | ok # net \<Rightarrow> if ok then Inr (net, snd t) else Inl (Invalid ''statement failed''))"

section \<open>The statements\<close>

text \<open>\<open>VARCHAR(n)\<close> counts code points (a byte \<open>10xxxxxx\<close> continues the one before it); a longer text is an error.\<close>

definition runes :: "string \<Rightarrow> nat" where
  "runes s = length (filter (\<lambda>c. \<not> (digit7 c \<and> \<not> digit6 c)) s)"

definition fits :: "event \<Rightarrow> bool" where
  "fits ev \<longleftrightarrow>
     runes (e_ip ev) \<le> 64 \<and> runes (c_country_code ev) \<le> 2 \<and> runes (e_method ev) \<le> 10 \<and>
     - 32768 \<le> c_status_code ev \<and> c_status_code ev \<le> 32767 \<and> runes (c_route_type ev) \<le> 24 \<and> runes (c_browser ev) \<le> 80 \<and>
     runes (c_os ev) \<le> 80 \<and> runes (c_device ev) \<le> 32 \<and> runes (c_referrer_host ev) \<le> 255 \<and>
     runes (e_utm_source ev) \<le> 255 \<and> runes (e_utm_medium ev) \<le> 255 \<and> runes (c_utm_campaign ev) \<le> 255"

text \<open>The unique index on \<open>event_id\<close>: an empty one is \<open>NULL\<close>; a UUID is compared without regard to case.\<close>

definition same_event :: "event \<Rightarrow> event \<Rightarrow> bool" where
  "same_event ev r \<longleftrightarrow> e_event_id ev \<noteq> [] \<and> lower (e_event_id r) = lower (e_event_id ev)"

definition add_row :: "int \<Rightarrow> event \<Rightarrow> click_db \<Rightarrow> click_db" where
  "add_row now ev db = db\<lparr>cd_rows := cd_rows db @
     [ev\<lparr>c_created_at := (case e_occurred_at ev of None \<Rightarrow> now | Some t \<Rightarrow> t)\<rparr>]\<rparr>"

definition insertClick :: "int \<Rightarrow> event \<Rightarrow> tx \<Rightarrow> store_error + (bool \<times> tx)" where
  "insertClick now ev t =
     (case statement t of Inl e \<Rightarrow> Inl e
      | Inr (net, db) \<Rightarrow>
          if \<not> fits ev then Inl (Invalid ''value too long'')
          else if list_ex (same_event ev) (cd_rows db) then Inr (False, net, db)
          else if c_link_id ev \<notin> set (map l_id (cd_links db)) then Inl (Invalid ''foreign key'')
          else Inr (True, net, add_row now ev db))"

definition rollup_key :: "int \<Rightarrow> event \<Rightarrow> rollup_key" where
  "rollup_key time ev = (time div 86400000, c_link_id ev, c_country_code ev, c_device ev, c_browser ev,
     c_referrer_host ev, c_utm_campaign ev, c_route_type ev, c_status_code ev)"

definition add_rollup :: "int \<Rightarrow> event \<Rightarrow> click_db \<Rightarrow> click_db" where
  "add_rollup now ev db =
     (let k = rollup_key (case e_occurred_at ev of None \<Rightarrow> now | Some t \<Rightarrow> t) ev in
      db\<lparr>cd_rollups := (cd_rollups db)(k := cd_rollups db k + 1)\<rparr>)"

definition incrementClickRollup :: "int \<Rightarrow> event \<Rightarrow> tx \<Rightarrow> store_error + tx" where
  "incrementClickRollup now ev t =
     (case statement t of Inl e \<Rightarrow> Inl e | Inr (net, db) \<Rightarrow> Inr (net, add_rollup now ev db))"

text \<open>\<open>UPDATE links SET clicks=clicks+1 WHERE id=? AND \<dots>\<close>, with the number of rows it changed.\<close>

definition bump :: "(link \<Rightarrow> bool) \<Rightarrow> int \<Rightarrow> click_db \<Rightarrow> click_db" where
  "bump counts i db = db\<lparr>cd_links :=
     map (\<lambda>l. if l_id l = i \<and> counts l then l\<lparr>l_clicks := l_clicks l + 1\<rparr> else l) (cd_links db)\<rparr>"

definition update_clicks :: "(link \<Rightarrow> bool) \<Rightarrow> int \<Rightarrow> tx \<Rightarrow> store_error + (nat \<times> tx)" where
  "update_clicks counts i t =
     (case statement t of Inl e \<Rightarrow> Inl e
      | Inr (net, db) \<Rightarrow>
          Inr (length (filter (\<lambda>l. l_id l = i \<and> counts l) (cd_links db)), net, bump counts i db))"

definition below_limit :: "int option \<Rightarrow> link \<Rightarrow> bool" where
  "below_limit maxClicks l \<longleftrightarrow> l_deleted_at l = None \<and> (case maxClicks of None \<Rightarrow> True | Some m \<Rightarrow> l_clicks l < m)"

definition unlimited :: "link \<Rightarrow> bool" where
  "unlimited l \<longleftrightarrow> l_deleted_at l = None \<and> l_max_clicks l = None"

section \<open>The transactions\<close>

text \<open>\<open>now\<close> holds the clock as the two statements read it when the event has no time of its own.\<close>

definition commit :: "'a \<Rightarrow> click_db \<Rightarrow> tx \<Rightarrow> (store_error + 'a) \<times> click_db" where
  "commit v db t = (case statement t of Inl e \<Rightarrow> (Inl e, db) | Inr (net, db') \<Rightarrow> (Inr v, db'))"

definition recordClick ::
    "int \<times> int \<Rightarrow> bool list \<Rightarrow> event \<Rightarrow> bool \<Rightarrow> int option \<Rightarrow> click_db \<Rightarrow> (store_error + bool) \<times> click_db" where
  "recordClick now net event increment maxClicks db =
     (case statement (net, db) of Inl e \<Rightarrow> (Inl e, db)
      | Inr t0 \<Rightarrow>
        let ev = event\<lparr>e_increment := increment\<rparr>;
            finish = (\<lambda>t. case incrementClickRollup (snd now) ev t of Inl e \<Rightarrow> (Inl e, db) | Inr t' \<Rightarrow> commit True db t')
        in case insertClick (fst now) ev t0 of
             Inl e \<Rightarrow> (Inl e, db)
           | Inr (inserted, t1) \<Rightarrow>
               if \<not> inserted then commit True db t1
               else if increment then
                 (case update_clicks (below_limit maxClicks) (c_link_id ev) t1 of
                    Inl e \<Rightarrow> (Inl e, db)
                  | Inr (n, t2) \<Rightarrow>
                      if n = 0 then (case statement t2 of Inl e \<Rightarrow> Inl e | Inr _ \<Rightarrow> Inr False, db) else finish t2)
               else finish t1)"

fun record_events :: "int \<times> int \<Rightarrow> event list \<Rightarrow> tx \<Rightarrow> nat \<Rightarrow> store_error + (nat \<times> tx)" where
  "record_events now [] t n = Inr (n, t)"
| "record_events now (ev # evs) t n =
     (case insertClick (fst now) ev t of
        Inl e \<Rightarrow> Inl e
      | Inr (inserted, t1) \<Rightarrow>
          if \<not> inserted then record_events now evs t1 n
          else
            (case (if e_increment ev then
                     (case update_clicks unlimited (c_link_id ev) t1 of Inl e \<Rightarrow> Inl e
                      | Inr (k, t2) \<Rightarrow> if k \<noteq> 1 then Inl NoRows else Inr t2)
                   else Inr t1) of
               Inl e \<Rightarrow> Inl e
             | Inr t2 \<Rightarrow>
                 (case incrementClickRollup (snd now) ev t2 of Inl e \<Rightarrow> Inl e
                  | Inr t3 \<Rightarrow> record_events now evs t3 (n + 1))))"

definition recordClicks ::
    "int \<times> int \<Rightarrow> bool list \<Rightarrow> event list \<Rightarrow> click_db \<Rightarrow> (store_error + nat) \<times> click_db" where
  "recordClicks now net events db =
     (if events = [] then (Inr 0, db)
      else case statement (net, db) of Inl e \<Rightarrow> (Inl e, db)
        | Inr t0 \<Rightarrow> (case record_events now events t0 0 of Inl e \<Rightarrow> (Inl e, db)
            | Inr (n, t) \<Rightarrow> commit n db t))"

section \<open>What a successful transaction wrote\<close>

definition book :: "int \<times> int \<Rightarrow> (link \<Rightarrow> bool) \<Rightarrow> event \<Rightarrow> click_db \<Rightarrow> click_db" where
  "book now counts ev db = add_rollup (snd now) ev
     ((if e_increment ev then bump counts (c_link_id ev) else id) (add_row (fst now) ev db))"

definition bookable :: "(link \<Rightarrow> bool) \<Rightarrow> event \<Rightarrow> click_db \<Rightarrow> bool" where
  "bookable counts ev db \<longleftrightarrow> fits ev \<and> \<not> list_ex (same_event ev) (cd_rows db) \<and>
     c_link_id ev \<in> set (map l_id (cd_links db)) \<and>
     (e_increment ev \<longrightarrow> filter (\<lambda>l. l_id l = c_link_id ev \<and> counts l) (cd_links db) \<noteq> [])"

lemma statement_ok: "statement t = Inr t' \<Longrightarrow> snd t' = snd t"
  by (auto simp: statement_def split: list.splits if_splits)

lemma commit_ok:
  "commit v db t = (r, db') \<Longrightarrow> r = Inr v \<and> db' = snd t \<or> (\<exists>e. r = Inl e) \<and> db' = db"
  by (auto simp: commit_def dest: statement_ok split: sum.splits prod.splits)

lemma insertClick_ok:
  assumes "insertClick now ev t = Inr (inserted, t')"
  shows "if inserted then snd t' = add_row now ev (snd t) \<and> fits ev \<and>
      \<not> list_ex (same_event ev) (cd_rows (snd t)) \<and> c_link_id ev \<in> set (map l_id (cd_links (snd t)))
    else snd t' = snd t \<and> fits ev \<and> list_ex (same_event ev) (cd_rows (snd t))"
proof (cases "statement t")
  case (Inr t1)
  obtain net db where "t1 = (net, db)" by fastforce
  then show ?thesis using assms Inr statement_ok [OF Inr]
    by (auto simp: insertClick_def split: if_splits)
qed (use assms in \<open>simp add: insertClick_def\<close>)

lemma rollup_ok: "incrementClickRollup now ev t = Inr t' \<Longrightarrow> snd t' = add_rollup now ev (snd t)"
  by (auto simp: incrementClickRollup_def dest: statement_ok split: sum.splits)

lemma update_ok:
  "update_clicks counts i t = Inr (n, t') \<Longrightarrow>
     n = length (filter (\<lambda>l. l_id l = i \<and> counts l) (cd_links (snd t))) \<and> snd t' = bump counts i (snd t)"
  by (auto simp: update_clicks_def dest: statement_ok split: sum.splits)

lemma add_row_links [simp]: "cd_links (add_row now ev db) = cd_links db" "cd_rollups (add_row now ev db) = cd_rollups db"
  by (simp_all add: add_row_def)

lemma recordClick_cases:
  assumes "recordClick now net event increment maxClicks db = (r, db')"
  shows "db' = db \<and> (r = Inr True \<longrightarrow> list_ex (same_event (event\<lparr>e_increment := increment\<rparr>)) (cd_rows db)) \<or>
    r = Inr True \<and> bookable (below_limit maxClicks) (event\<lparr>e_increment := increment\<rparr>) db \<and>
    db' = book now (below_limit maxClicks) (event\<lparr>e_increment := increment\<rparr>) db"
proof -
  let ?ev = "event\<lparr>e_increment := increment\<rparr>"
  show ?thesis
  proof (cases "statement (net, db)")
    case (Inr t0)
    then have t0: "snd t0 = db" using statement_ok by fastforce
    show ?thesis
    proof (cases "insertClick (fst now) ?ev t0")
      case (Inl e)
      then show ?thesis using assms Inr by (auto simp: recordClick_def Let_def)
    next
      case ins: (Inr p)
      obtain inserted t1 where p: "p = (inserted, t1)" by (cases p)
      note i = insertClick_ok [OF ins [unfolded p]]
      define finish where "finish = (\<lambda>t. case incrementClickRollup (snd now) ?ev t of
        Inl e \<Rightarrow> (Inl e, db) | Inr t' \<Rightarrow> commit True db t')"
      have finish: "finish t = (r, db') \<Longrightarrow>
          r = Inr True \<and> db' = add_rollup (snd now) ?ev (snd t) \<or> db' = db \<and> r \<noteq> Inr True" for t
        by (auto simp: finish_def dest: rollup_ok commit_ok split: sum.splits)
      show ?thesis
      proof (cases "inserted")
        case False
        then have "commit True db t1 = (r, db')" using assms Inr ins p by (simp add: recordClick_def)
        then show ?thesis using commit_ok [of True db t1 r db'] i False t0 by auto
      next
        case True
        show ?thesis
        proof (cases increment)
          case False
          then have "finish t1 = (r, db')"
            using assms Inr ins p True by (simp add: recordClick_def Let_def finish_def)
          then show ?thesis using finish [of t1] i True False t0 by (auto simp: bookable_def book_def)
        next
          case inc: True
          show ?thesis
          proof (cases "update_clicks (below_limit maxClicks) (c_link_id ?ev) t1")
            case (Inl e)
            then show ?thesis using assms Inr ins p True inc by (auto simp: recordClick_def Let_def)
          next
            case upd: (Inr q)
            obtain n t2 where q: "q = (n, t2)" by (cases q)
            note u = update_ok [OF upd [unfolded q]]
            show ?thesis
            proof (cases "n = 0")
              case True
              then show ?thesis using assms Inr ins p \<open>inserted\<close> inc upd q
                by (auto simp: recordClick_def Let_def split: sum.splits)
            next
              case False
              then have "finish t2 = (r, db')" using assms Inr ins p \<open>inserted\<close> inc upd q
                by (simp add: recordClick_def Let_def finish_def)
              then show ?thesis using finish [of t2] i u \<open>inserted\<close> inc t0 False
                by (auto simp: bookable_def book_def)
            qed
          qed
        qed
      qed
    qed
  qed (use assms in \<open>auto simp: recordClick_def\<close>)
qed

text \<open>One event of a batch, and the induction over a batch that all the following facts use.\<close>

lemma record_events_step:
  assumes "record_events now (ev # evs) t n = Inr (m, t')"
  obtains t1 where "list_ex (same_event ev) (cd_rows (snd t))" "fits ev" "snd t1 = snd t"
      "record_events now evs t1 n = Inr (m, t')"
  | t3 where "bookable unlimited ev (snd t)" "snd t3 = book now unlimited ev (snd t)"
      "record_events now evs t3 (n + 1) = Inr (m, t')"
      "e_increment ev \<longrightarrow> length (filter (\<lambda>l. l_id l = c_link_id ev \<and> unlimited l) (cd_links (snd t))) = 1"
proof (cases "insertClick (fst now) ev t")
  case (Inr p)
  obtain inserted t1 where p: "p = (inserted, t1)" by (cases p)
  note i = insertClick_ok [OF Inr [unfolded p]]
  show thesis
  proof (cases inserted)
    case False
    then show thesis using that(1) [of t1] i assms Inr p by simp
  next
    case True
    define r where "r = (if e_increment ev then
        (case update_clicks unlimited (c_link_id ev) t1 of Inl e \<Rightarrow> Inl e
         | Inr (k, t2) \<Rightarrow> if k \<noteq> 1 then Inl NoRows else Inr t2)
      else Inr t1)"
    obtain t2 t3 where t2: "r = Inr t2" and t3: "incrementClickRollup (snd now) ev t2 = Inr t3"
        and rest: "record_events now evs t3 (n + 1) = Inr (m, t')"
      using assms Inr p True by (auto simp: r_def [symmetric] split: sum.splits)
    have t2': "snd t2 = (if e_increment ev then bump unlimited (c_link_id ev) (snd t1) else snd t1)"
      and one: "e_increment ev \<longrightarrow> length (filter (\<lambda>l. l_id l = c_link_id ev \<and> unlimited l) (cd_links (snd t1))) = 1"
      using t2 unfolding r_def by (auto dest: update_ok split: if_splits sum.splits)
    have one': "e_increment ev \<longrightarrow> length (filter (\<lambda>l. l_id l = c_link_id ev \<and> unlimited l) (cd_links (snd t))) = 1"
      using one i True by simp
    then have "e_increment ev \<longrightarrow> filter (\<lambda>l. l_id l = c_link_id ev \<and> unlimited l) (cd_links (snd t)) \<noteq> []"
      by (metis length_0_conv zero_neq_one)
    then have "bookable unlimited ev (snd t)" using i True by (simp add: bookable_def)
    moreover have "snd t3 = book now unlimited ev (snd t)"
      using rollup_ok [OF t3] t2' i True by (simp add: book_def)
    ultimately show thesis using that(2) rest one' by blast
  qed
qed (use assms in simp)

lemma record_events_induct:
  assumes "record_events now evs t n = Inr (m, t')" and "P (snd t)"
    and "\<And>ev db. ev \<in> set evs \<Longrightarrow> P db \<Longrightarrow> bookable unlimited ev db \<Longrightarrow> P (book now unlimited ev db)"
  shows "P (snd t')"
  using assms
proof (induction evs arbitrary: t n)
  case (Cons ev evs)
  show ?case
    by (rule record_events_step [OF Cons(2)]) (use Cons in \<open>metis list.set_intros\<close>)+
qed simp

lemma recordClicks_ok:
  assumes "recordClicks now net events db = (r, db')"
  obtains t t' n where "r = Inr n" "snd t = db" "snd t' = db'" "record_events now events t 0 = Inr (n, t')"
  | e where "r = Inl e" "db' = db"
proof (cases "events = []")
  case True
  then show thesis using that(1) [of 0 "([], db)" "([], db)"] assms by (simp add: recordClicks_def)
next
  case False
  show thesis
  proof (cases "statement (net, db)")
    case (Inr t0)
    then have t0: "snd t0 = db" using statement_ok by fastforce
    show thesis
    proof (cases "record_events now events t0 0")
      case rec: (Inr p)
      obtain n t1 where p: "p = (n, t1)" by (cases p)
      have c: "commit n db t1 = (r, db')" using assms Inr rec p False by (simp add: recordClicks_def)
      show thesis using commit_ok [OF c] that(1) [of n t0 t1] that(2) t0 rec p by auto
    qed (use that(2) assms Inr False in \<open>auto simp: recordClicks_def\<close>)
  qed (use that(2) assms False in \<open>auto simp: recordClicks_def\<close>)
qed

section \<open>The books\<close>

text \<open>What the three tables must agree on: an event is there once; the counter of a link is what it was
  (\<open>base\<close>, and clicks of rows purged since) plus its rows that count; a rollup is its rows.\<close>

definition row_count :: "(event \<Rightarrow> bool) \<Rightarrow> click_db \<Rightarrow> nat" where
  "row_count P db = length (filter P (cd_rows db))"

definition counted :: "int \<Rightarrow> event \<Rightarrow> bool" where
  "counted i e \<longleftrightarrow> e_increment e \<and> c_link_id e = i"

definition event_ids :: "event list \<Rightarrow> string list" where
  "event_ids rows = map (\<lambda>e. lower (e_event_id e)) (filter (\<lambda>e. e_event_id e \<noteq> []) rows)"

definition balanced :: "(int \<Rightarrow> int) \<Rightarrow> (rollup_key \<Rightarrow> nat) \<Rightarrow> click_db \<Rightarrow> bool" where
  "balanced base rbase db \<longleftrightarrow> distinct (map l_id (cd_links db)) \<and> distinct (event_ids (cd_rows db)) \<and>
     (\<forall>l \<in> set (cd_links db). l_clicks l = base (l_id l) + int (row_count (counted (l_id l)) db)) \<and>
     (\<forall>k. cd_rollups db k = rbase k + row_count (\<lambda>e. rollup_key (c_created_at e) e = k) db)"

definition limits_kept :: "click_db \<Rightarrow> bool" where
  "limits_kept db \<longleftrightarrow> (\<forall>l \<in> set (cd_links db). \<forall>m. l_max_clicks l = Some m \<longrightarrow> l_clicks l \<le> m)"

definition dated :: "event \<Rightarrow> bool" where
  "dated ev \<longleftrightarrow> e_occurred_at ev \<noteq> None"

lemma lower_Nil_iff [simp]: "lower s = [] \<longleftrightarrow> s = []" "[] = lower s \<longleftrightarrow> s = []" "lower [] = []"
  by (auto simp: lower_def)

lemma rollup_key_stored [simp]: "rollup_key t (ev\<lparr>c_created_at := x\<rparr>) = rollup_key t ev"
  by (simp add: rollup_key_def)

lemma bookable_counts:
  assumes "bookable counts ev db" and "distinct (map l_id (cd_links db))" and "e_increment ev"
    and "l \<in> set (cd_links db)" and "l_id l = c_link_id ev"
  shows "counts l"
proof -
  obtain l' where "l' \<in> set (cd_links db)" "l_id l' = c_link_id ev" "counts l'"
    using assms(1,3) by (auto simp: bookable_def filter_empty_conv)
  moreover have "inj_on l_id (set (cd_links db))" using assms(2) by (simp add: distinct_map)
  ultimately show ?thesis using assms(4,5) by (metis inj_onD)
qed

lemma book_rows:
  assumes "dated ev"
  shows "cd_rows (book now counts ev db) = cd_rows db @ [ev\<lparr>c_created_at := the (e_occurred_at ev)\<rparr>]"
  using assms by (auto simp: book_def add_rollup_def bump_def add_row_def dated_def Let_def)

lemma book_rollups:
  assumes "dated ev"
  shows "cd_rollups (book now counts ev db) k =
    cd_rollups db k + (if k = rollup_key (the (e_occurred_at ev)) ev then 1 else 0)"
  using assms by (auto simp: book_def add_rollup_def bump_def dated_def Let_def)

lemma book_links:
  "cd_links (book now counts ev db) = (if e_increment ev then cd_links (bump counts (c_link_id ev) db) else cd_links db)"
  by (simp add: book_def add_rollup_def bump_def Let_def)

lemma balanced_book:
  assumes "balanced base rbase db" and "bookable counts ev db" and "dated ev"
  shows "balanced base rbase (book now counts ev db)"
proof -
  have ids: "distinct (map l_id (cd_links db))" using assms(1) by (simp add: balanced_def)
  have "map l_id (cd_links (book now counts ev db)) = map l_id (cd_links db)"
    by (auto simp: book_links bump_def)
  moreover have "distinct (event_ids (cd_rows (book now counts ev db)))"
    using assms unfolding book_rows [OF assms(3)]
    by (auto simp: balanced_def event_ids_def bookable_def list_ex_iff same_event_def)
  moreover have "l_clicks l = base (l_id l) + int (row_count (counted (l_id l)) (book now counts ev db))"
    if l: "l \<in> set (cd_links (book now counts ev db))" for l
  proof -
    let ?up = "\<lambda>l. if e_increment ev \<and> l_id l = c_link_id ev then l\<lparr>l_clicks := l_clicks l + 1\<rparr> else l"
    obtain l0 where l0: "l0 \<in> set (cd_links db)" "l = ?up l0"
      using l bookable_counts [OF assms(2) ids] by (fastforce simp: book_links bump_def split: if_splits)
    have "l_clicks l0 = base (l_id l0) + int (row_count (counted (l_id l0)) db)"
      using assms(1) l0(1) by (simp add: balanced_def)
    then show ?thesis using l0(2) by (auto simp: row_count_def book_rows [OF assms(3)] counted_def)
  qed
  moreover have "cd_rollups (book now counts ev db) k =
      rbase k + row_count (\<lambda>e. rollup_key (c_created_at e) e = k) (book now counts ev db)" for k
  proof -
    have "cd_rollups db k = rbase k + row_count (\<lambda>e. rollup_key (c_created_at e) e = k) db"
      using assms(1) unfolding balanced_def by blast
    then show ?thesis by (simp add: book_rollups [OF assms(3)] row_count_def book_rows [OF assms(3)])
  qed
  ultimately show ?thesis using ids by (simp add: balanced_def)
qed

lemma limits_book:
  assumes "limits_kept db"
    and "\<And>l m. l \<in> set (cd_links db) \<Longrightarrow> l_id l = c_link_id ev \<Longrightarrow> counts l \<Longrightarrow> l_max_clicks l = Some m \<Longrightarrow> l_clicks l < m"
  shows "limits_kept (book now counts ev db)"
  using assms by (fastforce simp: limits_kept_def book_links bump_def split: if_splits)

section \<open>Runs of recordings\<close>

datatype recording = One event bool "int option" | Batch "event list"

text \<open>A recording, with the clock and the outcomes of its statements.\<close>

type_synonym recorded = "recording \<times> (int \<times> int) \<times> bool list"

definition do_record :: "recorded \<Rightarrow> click_db \<Rightarrow> click_db" where
  "do_record = (\<lambda>(op, now, net) db. case op of
       One ev increment maxClicks \<Rightarrow> snd (recordClick now net ev increment maxClicks db)
     | Batch evs \<Rightarrow> snd (recordClicks now net evs db))"

text \<open>The events have a time, as those of the handler and of the queue have, and the limit of a single
  recording is that of its link.\<close>

definition max_of :: "click_db \<Rightarrow> int \<Rightarrow> int option \<Rightarrow> bool" where
  "max_of db i maxClicks \<longleftrightarrow> (\<forall>l \<in> set (cd_links db). l_id l = i \<longrightarrow> l_max_clicks l = maxClicks)"

definition recording_ok :: "click_db \<Rightarrow> recorded \<Rightarrow> bool" where
  "recording_ok db = (\<lambda>(op, now, net). case op of
       One ev increment maxClicks \<Rightarrow> dated ev \<and> max_of db (c_link_id ev) maxClicks
     | Batch evs \<Rightarrow> \<forall>ev \<in> set evs. dated ev)"

definition books_ok :: "(int \<Rightarrow> int) \<Rightarrow> (rollup_key \<Rightarrow> nat) \<Rightarrow> click_db \<Rightarrow> bool" where
  "books_ok base rbase db \<longleftrightarrow> balanced base rbase db \<and> limits_kept db"

lemma book_max_of [simp]: "max_of (book now counts ev db) i m = max_of db i m"
proof -
  have "max_of d i m \<longleftrightarrow> (\<forall>p \<in> set (map (\<lambda>l. (l_id l, l_max_clicks l)) (cd_links d)). fst p = i \<longrightarrow> snd p = m)" for d
    by (auto simp: max_of_def)
  moreover have "map (\<lambda>l. (l_id l, l_max_clicks l)) (cd_links (book now counts ev db)) =
      map (\<lambda>l. (l_id l, l_max_clicks l)) (cd_links db)"
    by (simp add: book_links bump_def)
  ultimately show ?thesis by metis
qed

lemma dated_increment [simp]: "dated (ev\<lparr>e_increment := b\<rparr>) = dated ev"
  by (simp add: dated_def)

lemma do_record_ok:
  assumes "books_ok base rbase db" and "recording_ok db r"
  shows "books_ok base rbase (do_record r db) \<and> (\<forall>i m. max_of (do_record r db) i m = max_of db i m)"
proof -
  obtain op now net where r: "r = (op, now, net)" by (cases r)
  show ?thesis
  proof (cases op)
    case (One ev increment maxClicks)
    obtain res db' where res: "recordClick now net ev increment maxClicks db = (res, db')" by fastforce
    let ?ev = "ev\<lparr>e_increment := increment\<rparr>"
    have m: "dated ?ev" "max_of db (c_link_id ?ev) maxClicks"
      using assms(2) r One by (simp_all add: recording_ok_def)
    have "l_clicks l < k" if "l \<in> set (cd_links db)" "l_id l = c_link_id ?ev" "below_limit maxClicks l"
        "l_max_clicks l = Some k" for l k
      using that m(2) by (auto simp: max_of_def below_limit_def)
    then have "books_ok base rbase (book now (below_limit maxClicks) ?ev db)"
      if "bookable (below_limit maxClicks) ?ev db"
      using balanced_book [OF _ that m(1)] limits_book assms(1) unfolding books_ok_def by blast
    then show ?thesis using recordClick_cases [OF res] assms(1) r One res by (auto simp: do_record_def)
  next
    case (Batch evs)
    obtain res db' where res: "recordClicks now net evs db = (res, db')" by fastforce
    let ?P = "\<lambda>d. books_ok base rbase d \<and> (\<forall>i m. max_of d i m = max_of db i m)"
    have "?P db'"
    proof (rule recordClicks_ok [OF res])
      fix t t' n
      assume t: "snd t = db" "snd t' = db'" "record_events now evs t 0 = Inr (n, t')"
      have "?P (snd t')"
      proof (rule record_events_induct [OF t(3)])
        show "?P (snd t)" using assms(1) t(1) by simp
        fix ev d
        assume "ev \<in> set evs" and d: "?P d" and b: "bookable unlimited ev d"
        then have "dated ev" using assms(2) r Batch by (simp add: recording_ok_def)
        then show "?P (book now unlimited ev d)"
          using balanced_book [OF _ b] limits_book [of d ev unlimited now] d
          by (auto simp: books_ok_def unlimited_def)
      qed
      then show ?thesis using t by simp
    qed (use assms(1) in simp)
    then show ?thesis using r Batch res by (simp add: do_record_def)
  qed
qed

lemma recording_ok_cong:
  "(\<And>i m. max_of db' i m = max_of db i m) \<Longrightarrow> recording_ok db' r = recording_ok db r"
  by (auto simp: recording_ok_def split: recording.splits prod.splits)

lemma run_books_ok:
  "books_ok base rbase db \<Longrightarrow> \<forall>r \<in> set rs. recording_ok db r \<Longrightarrow> books_ok base rbase (fold do_record rs db)"
proof (induction rs arbitrary: db)
  case (Cons r rs)
  have ok: "books_ok base rbase (do_record r db)" and "\<And>i m. max_of (do_record r db) i m = max_of db i m"
    using do_record_ok [of base rbase db r] Cons(2,3) by simp_all
  then have "\<forall>q \<in> set rs. recording_ok (do_record r db) q"
    using recording_ok_cong [of "do_record r db" db] Cons(3) by simp
  with Cons.IH [OF ok] show ?case by simp
qed simp

section \<open>A batch whose statements are all answered\<close>

text \<open>A link as the batch sees it does not change while its clicks are counted.\<close>

definition recordable :: "click_db \<Rightarrow> event \<Rightarrow> bool" where
  "recordable db ev \<longleftrightarrow> fits ev \<and> c_link_id ev \<in> set (map l_id (cd_links db)) \<and>
     (e_increment ev \<longrightarrow> length (filter (\<lambda>l. l_id l = c_link_id ev \<and> unlimited l) (cd_links db)) = 1)"

lemma record_events_quiet:
  "record_events now (ev # evs) ([], db) n =
     (if \<not> fits ev then Inl (Invalid ''value too long'')
      else if list_ex (same_event ev) (cd_rows db) then record_events now evs ([], db) n
      else if c_link_id ev \<notin> set (map l_id (cd_links db)) then Inl (Invalid ''foreign key'')
      else if \<not> recordable db ev then Inl NoRows
      else record_events now evs ([], book now unlimited ev db) (n + 1))"
  by (simp add: insertClick_def statement_def update_clicks_def incrementClickRollup_def recordable_def
      book_def)

lemma recordClick_quiet:
  assumes "fits ev"
  shows "list_ex (same_event ev) (cd_rows db) \<Longrightarrow> recordClick now [] ev (e_increment ev) mc db = (Inr True, db)"
    and "bookable (below_limit mc) ev db \<Longrightarrow>
      recordClick now [] ev (e_increment ev) mc db = (Inr True, book now (below_limit mc) ev db)"
  using assms by (simp_all add: recordClick_def Let_def insertClick_def statement_def update_clicks_def
      incrementClickRollup_def commit_def bookable_def book_def)

lemma book_event_ids:
  "event_ids (cd_rows (book now counts ev db)) =
     event_ids (cd_rows db) @ (if e_event_id ev = [] then [] else [lower (e_event_id ev)])"
  by (simp add: event_ids_def book_def add_rollup_def bump_def add_row_def Let_def)

lemma same_event_ids:
  "list_ex (same_event ev) rows \<longleftrightarrow> e_event_id ev \<noteq> [] \<and> lower (e_event_id ev) \<in> set (event_ids rows)"
  by (induction rows) (auto simp: same_event_def event_ids_def)

definition plain :: "link \<Rightarrow> link" where
  "plain l = l\<lparr>l_clicks := 0\<rparr>"

lemma book_plain: "map plain (cd_links (book now counts ev db)) = map plain (cd_links db)"
  by (simp add: book_links bump_def plain_def)

lemma recordable_plain:
  assumes "map plain (cd_links db') = map plain (cd_links db)"
  shows "recordable db' ev = recordable db ev"
proof -
  have "map l_id (cd_links d) = map l_id (map plain (cd_links d))" for d by (simp add: plain_def)
  then have "map l_id (cd_links db') = map l_id (cd_links db)" using assms by metis
  moreover have "length (filter (\<lambda>l. l_id l = i \<and> unlimited l) (cd_links d)) =
      length (filter (\<lambda>l. l_id l = i \<and> unlimited l) (map plain (cd_links d)))" for d i
    by (simp add: filter_map o_def plain_def unlimited_def)
  ultimately show ?thesis using assms unfolding recordable_def by metis
qed

lemma record_events_fresh:
  assumes "distinct (map (\<lambda>ev. lower (e_event_id ev)) evs)" and "\<forall>ev \<in> set evs. e_event_id ev \<noteq> []"
    and "\<forall>ev \<in> set evs. lower (e_event_id ev) \<notin> set (event_ids (cd_rows db))"
  shows "if list_all (recordable db) evs
    then record_events now evs ([], db) n = Inr (n + length evs, [], fold (book now unlimited) evs db)
    else \<exists>e. record_events now evs ([], db) n = Inl e"
  using assms
proof (induction evs arbitrary: db n)
  case (Cons ev evs)
  let ?db = "book now unlimited ev db"
  have new: "\<not> list_ex (same_event ev) (cd_rows db)" using Cons(4) by (simp add: same_event_ids)
  have same: "recordable ?db = recordable db" using recordable_plain [OF book_plain] by blast
  have rest: "\<forall>e \<in> set evs. lower (e_event_id e) \<notin> set (event_ids (cd_rows ?db))"
    using Cons(2,4) by (auto simp: book_event_ids) (metis image_eqI)
  have IH: "if list_all (recordable db) evs
    then record_events now evs ([], ?db) (n + 1) = Inr (n + 1 + length evs, [], fold (book now unlimited) evs ?db)
    else \<exists>e. record_events now evs ([], ?db) (n + 1) = Inl e"
    using Cons.IH [OF _ _ rest, of "n + 1"] Cons(2,3) unfolding same by simp
  show ?case
  proof (cases "recordable db ev")
    case True
    then have "fits ev" "c_link_id ev \<in> set (map l_id (cd_links db))" by (simp_all add: recordable_def)
    then show ?thesis using IH True new by (simp add: record_events_quiet del: record_events.simps split: if_splits)
  qed (use new in \<open>auto simp: record_events_quiet simp del: record_events.simps\<close>)
qed simp

lemma recordClicks_quiet:
  "recordClicks now [] events db =
     (case record_events now events ([], db) 0 of Inl e \<Rightarrow> (Inl e, db) | Inr (n, t) \<Rightarrow> commit n db t)"
  by (auto simp: recordClicks_def statement_def commit_def)

section \<open>Redelivery\<close>

lemma record_events_all:
  assumes "record_events now evs t n = Inr (m, t')" and "\<forall>ev \<in> set evs. e_event_id ev \<noteq> []"
  shows "(\<forall>ev \<in> set evs. fits ev \<and> lower (e_event_id ev) \<in> set (event_ids (cd_rows (snd t')))) \<and>
    set (event_ids (cd_rows (snd t))) \<subseteq> set (event_ids (cd_rows (snd t')))"
  using assms
proof (induction evs arbitrary: t n)
  case (Cons ev evs)
  show ?case
  proof (rule record_events_step [OF Cons(2)])
    fix t1
    assume "list_ex (same_event ev) (cd_rows (snd t))" "fits ev" "snd t1 = snd t"
      and r: "record_events now evs t1 n = Inr (m, t')"
    then show ?thesis using Cons.IH [OF r] Cons(3) by (auto simp: same_event_ids)
  next
    fix t3
    assume "bookable unlimited ev (snd t)" "snd t3 = book now unlimited ev (snd t)"
      and r: "record_events now evs t3 (n + 1) = Inr (m, t')"
    then show ?thesis using Cons.IH [OF r] Cons(3) by (auto simp: bookable_def book_event_ids)
  qed
qed simp

lemma record_events_again:
  assumes "\<forall>ev \<in> set evs. fits ev \<and> e_event_id ev \<noteq> [] \<and> lower (e_event_id ev) \<in> set (event_ids (cd_rows db))"
  shows "record_events now evs ([], db) n = Inr (n, [], db)"
  using assms
  by (induction evs) (simp_all add: record_events_quiet same_event_ids del: record_events.simps(2))

lemma bump_same:
  assumes "\<And>l. l \<in> set (cd_links db) \<Longrightarrow> l_id l = i \<Longrightarrow> counts l \<and> counts' l"
  shows "bump counts i db = bump counts' i db"
  using assms by (auto simp: bump_def)

lemma record_events_singly:
  assumes "record_events now evs t n = Inr (m, t')" and "distinct (map l_id (cd_links (snd t)))"
  shows "fold (\<lambda>ev d. snd (recordClick now [] ev (e_increment ev) None d)) evs (snd t) = snd t'"
  using assms
proof (induction evs arbitrary: t n)
  case (Cons ev evs)
  show ?case
  proof (rule record_events_step [OF Cons(2)])
    fix t1
    assume "list_ex (same_event ev) (cd_rows (snd t))" "fits ev" "snd t1 = snd t"
      and r: "record_events now evs t1 n = Inr (m, t')"
    then show ?thesis using Cons.IH [OF r] Cons(3) by (simp add: recordClick_quiet(1))
  next
    fix t3
    assume b: "bookable unlimited ev (snd t)" and t3: "snd t3 = book now unlimited ev (snd t)"
      and r: "record_events now evs t3 (n + 1) = Inr (m, t')"
    have counts: "unlimited l" if "e_increment ev" "l \<in> set (cd_links (snd t))" "l_id l = c_link_id ev" for l
      using bookable_counts [OF b Cons(3) that] .
    have b': "bookable (below_limit None) ev (snd t)"
      using b by (auto simp: bookable_def below_limit_def unlimited_def filter_empty_conv)
    have "book now (below_limit None) ev (snd t) = book now unlimited ev (snd t)"
      using bump_same [of "add_row (fst now) ev (snd t)" "c_link_id ev" unlimited "below_limit None"] counts
      by (auto simp: book_def unlimited_def below_limit_def)
    then have "snd (recordClick now [] ev (e_increment ev) None (snd t)) = snd t3"
      using recordClick_quiet(2) [OF _ b'] b t3 by (simp add: bookable_def)
    moreover have "map l_id (cd_links (snd t3)) = map l_id (cd_links (snd t))"
      using t3 by (simp add: book_links bump_def)
    ultimately show ?thesis using Cons.IH [OF r] Cons(3) by simp
  qed
qed simp

section \<open>Properties\<close>


text \<open>C33: A batch is recorded exactly when each of its events could be. Of events that are new (and differ from
  each other), a batch either records all, as booking them one by one would, or, when a single one does not fit
  its columns, has no link, or counts for a link that is deleted or limited, fails as a whole and leaves the
  tables as they were.\<close>

theorem batch_all_or_nothing:
  assumes "distinct (map (\<lambda>ev. lower (e_event_id ev)) evs)" and "\<forall>ev \<in> set evs. e_event_id ev \<noteq> []"
    and "\<forall>ev \<in> set evs. lower (e_event_id ev) \<notin> set (event_ids (cd_rows db))"
  shows "if list_all (recordable db) evs
    then recordClicks now [] evs db = (Inr (length evs), fold (book now unlimited) evs db)
    else \<exists>e. recordClicks now [] evs db = (Inl e, db)"
  using record_events_fresh [OF assms, where n = 0 and now = now]
  by (auto simp: recordClicks_quiet commit_def statement_def split: if_splits)

text \<open>C34: A batch that was recorded is the same as its events recorded one after the other, and recording it
  again (a redelivery after a lost acknowledgement) changes nothing and counts nothing.\<close>

theorem batch_one_by_one:
  assumes "recordClicks now net evs db = (Inr n, db')" and "distinct (map l_id (cd_links db))"
    and "\<forall>ev \<in> set evs. e_event_id ev \<noteq> []"
  shows "fold (\<lambda>ev d. snd (recordClick now [] ev (e_increment ev) None d)) evs db = db' \<and>
    recordClicks now' [] evs db' = (Inr 0, db')"
proof (rule recordClicks_ok [OF assms(1)])
  fix t t' k
  assume t: "snd t = db" "snd t' = db'" and r: "record_events now evs t 0 = Inr (k, t')"
  have "fold (\<lambda>ev d. snd (recordClick now [] ev (e_increment ev) None d)) evs db = db'"
    using record_events_singly [OF r] assms(2) t by simp
  moreover have "recordClicks now' [] evs db' = (Inr 0, db')"
    using record_events_again [of evs db' now' 0] record_events_all [OF r assms(3)] assms(3) t(2)
    by (simp add: recordClicks_quiet commit_def statement_def)
  ultimately show ?thesis by simp
qed (use assms(1) in simp)

definition sample_event :: event where
  "sample_event = \<lparr>c_id = 0, c_link_id = 7, c_slug = ''promo'', c_country_code = ''DE'', c_status_code = 302,
     c_route_type = ''default'', c_browser = ''Firefox'', c_os = ''Linux'', c_device = ''desktop'',
     c_is_bot = False, c_referrer_host = [], c_utm_campaign = [], c_created_at = 0,
     e_event_id = ''0b1e5a4c-0000-4000-8000-000000000001'', e_ip = ''192.0.2.1'', e_method = ''GET'',
     e_user_agent = ''Mozilla'', e_resolved_url = ''https://example.com/'', e_referrer = [], e_utm_source = [],
     e_utm_medium = [], e_occurred_at = Some 50, e_increment = True\<rparr>"

definition second_event :: event where
  "second_event = sample_event\<lparr>e_event_id := ''0b1e5a4c-0000-4000-8000-000000000002''\<rparr>"

definition gone_event :: event where
  "gone_event = sample_event\<lparr>e_event_id := ''0b1e5a4c-0000-4000-8000-000000000003'', c_link_id := 8\<rparr>"

definition sample_db :: click_db where
  "sample_db = \<lparr>cd_links = [sample_link, sample_link\<lparr>l_id := 8, l_slug := ''old'', l_deleted_at := Some 1\<rparr>,
     sample_link\<lparr>l_id := 9, l_slug := ''few'', l_max_clicks := Some 12\<rparr>], cd_rows = [], cd_rollups = \<lambda>_. 0\<rparr>"


lemma sample_events:
  "e_event_id sample_event \<noteq> []" "e_event_id second_event \<noteq> []" "e_event_id gone_event \<noteq> []"
  "event_ids (cd_rows sample_db) = []" "distinct (map l_id (cd_links sample_db))"
  by (simp_all add: sample_event_def second_event_def gone_event_def sample_db_def event_ids_def sample_link_def)

lemma gone_not_recordable: "\<not> recordable sample_db gone_event"
  by (simp add: recordable_def unlimited_def gone_event_def sample_db_def sample_event_def sample_link_def)

theorem batch_all_or_nothing_witness:
  "\<exists>e. recordClicks (0, 0) [] [sample_event, second_event, gone_event] sample_db = (Inl e, sample_db)"
proof -
  have "distinct (map (\<lambda>ev. lower (e_event_id ev)) [sample_event, second_event, gone_event])"
    unfolding sample_event_def second_event_def gone_event_def by code_simp
  moreover have "\<not> list_all (recordable sample_db) [sample_event, second_event, gone_event]"
    using gone_not_recordable by simp
  ultimately show ?thesis
    using batch_all_or_nothing [of "[sample_event, second_event, gone_event]" sample_db "(0, 0)"] sample_events
    by (simp only: if_False) simp
qed

theorem batch_one_by_one_witness:
  "recordClicks (5, 5) [] [sample_event, second_event]
     (snd (recordClicks (0, 0) [True] [sample_event, second_event] sample_db)) =
   (Inr 0, snd (recordClicks (0, 0) [True] [sample_event, second_event] sample_db))"
proof -
  have "fst (recordClicks (0, 0) [True] [sample_event, second_event] sample_db) = Inr 2" by code_simp
  then have r: "recordClicks (0, 0) [True] [sample_event, second_event] sample_db =
      (Inr 2, snd (recordClicks (0, 0) [True] [sample_event, second_event] sample_db))"
    by (metis prod.collapse)
  show ?thesis using batch_one_by_one [OF r, of "(5, 5)"] sample_events by simp
qed

end
