(* ===== verification/ClickWorker.thy ===== *)
theory ClickWorker
  imports ClickRecord "HOL-Library.Multiset"
begin

text \<open>
  The click queue (\<open>internal/clickqueue/clickqueue.go\<close>, \<open>worker.go\<close>): the payload of a message, how a
  message is decoded, and the worker that collects deliveries into batches, records them and settles each
  delivery with the broker.

  JSON is its documented behaviour: a body is the payload it holds, or nothing when the strict decoder
  refuses it. The broker is a list of what becomes of the calls that follow (past its end they succeed); a
  delivery is settled when the call succeeded. Deliveries have all three callbacks, as those of
  \<open>worker_rabbitmq.go\<close> have. What the worker needs of its store is the locale \<open>batch_store\<close>;
  \<open>RecordClicks\<close> is its interpretation.
\<close>

section \<open>Messages\<close>

record event_payload =
  ep_version :: int
  ep_event :: event

definition PayloadVersion :: int where
  "PayloadVersion = 1"

definition MarshalEvent :: "(string \<Rightarrow> string) \<Rightarrow> event \<Rightarrow> event_payload" where
  \<comment> \<open>\<open>scrub\<close> is \<open>scrubURL\<close>: the URL without its user, query and fragment\<close>
  "MarshalEvent scrub ev = \<lparr>ep_version = PayloadVersion,
     ep_event = ev\<lparr>e_resolved_url := scrub (e_resolved_url ev), e_referrer := scrub (e_referrer ev)\<rparr>\<rparr>"

definition is_hex :: "char \<Rightarrow> bool" where
  "is_hex c \<longleftrightarrow> c \<in> set ''0123456789abcdefABCDEF''"

definition validUUID :: "string \<Rightarrow> bool" where
  "validUUID value \<longleftrightarrow>
     (let compact = filter (\<lambda>c. c \<noteq> CHR ''-'') value in
      length value = 36 \<and> length compact = 32 \<and> value ! 8 = CHR ''-'' \<and> value ! 13 = CHR ''-'' \<and>
      value ! 18 = CHR ''-'' \<and> value ! 23 = CHR ''-'' \<and> list_all is_hex compact)"

definition DecodeEvent :: "event_payload option \<Rightarrow> event option" where
  \<comment> \<open>\<open>None\<close> as body is a body the JSON decoder refuses; \<open>None\<close> as result is any of the errors\<close>
  "DecodeEvent body =
     (case body of None \<Rightarrow> None
      | Some p \<Rightarrow>
        let ev = ep_event p in
        if ep_version p \<noteq> PayloadVersion then None
        else if \<not> validUUID (e_event_id ev) then None
        else if e_occurred_at ev = None then None
        else if c_link_id ev \<le> 0 then None
        else if trim (c_slug ev) = [] \<or> trim (e_method ev) = [] \<or> trim (c_route_type ev) = [] then None
        else if c_status_code ev < 100 \<or> c_status_code ev > 599 then None
        else Some ev)"

text \<open>A header value: \<open>int(value)\<close> of a signed or unsigned integer, or another type.\<close>

datatype header = Signed int | Unsigned int | Other_header

definition wrap64 :: "int \<Rightarrow> int" where
  "wrap64 i = (i + 2 ^ 63) mod 2 ^ 64 - 2 ^ 63"

definition retryCount :: "header option \<Rightarrow> int" where
  "retryCount h = (case h of Some (Signed i) \<Rightarrow> i | Some (Unsigned i) \<Rightarrow> wrap64 i | _ \<Rightarrow> 0)"

record delivery =
  dl_tag :: nat
  dl_body :: "event_payload option"
  dl_retry_header :: "header option"

definition attempt_of :: "delivery \<Rightarrow> int" where
  "attempt_of d = wrap64 (retryCount (dl_retry_header d) + 1)"

section \<open>The recorder\<close>

text \<open>\<open>Record\<close> in the request: to the queue when there is a publisher (what becomes of the publication is \<open>Some ok\<close>)
  and the link has no limit, else, and as a fallback, straight to the tables. The state is the tables, the
  messages published and the fallbacks counted.\<close>

record recorder =
  rc_db :: click_db
  rc_queue :: "event_payload list"
  rc_fallbacks :: nat

definition to_tables ::
    "int \<times> int \<Rightarrow> bool list \<Rightarrow> event \<Rightarrow> bool \<Rightarrow> int option \<Rightarrow> recorder \<Rightarrow> (store_error + bool) \<times> recorder" where
  "to_tables now net event increment maxClicks rc =
     (case recordClick now net event increment maxClicks (rc_db rc) of (r, db) \<Rightarrow> (r, rc\<lparr>rc_db := db\<rparr>))"

definition recorder_Record ::
    "(string \<Rightarrow> string) \<Rightarrow> bool option \<Rightarrow> int \<times> int \<Rightarrow> bool list \<Rightarrow> event \<Rightarrow> bool \<Rightarrow> int option \<Rightarrow> recorder \<Rightarrow>
     (store_error + bool) \<times> recorder" where
  "recorder_Record scrub publisher now net event0 increment maxClicks rc =
     (let event = event0\<lparr>e_increment := increment\<rparr> in
      if publisher = None \<or> maxClicks \<noteq> None then to_tables now net event increment maxClicks rc
      else if publisher = Some True then (Inr True, rc\<lparr>rc_queue := rc_queue rc @ [MarshalEvent scrub event]\<rparr>)
      else to_tables now net event increment None (rc\<lparr>rc_fallbacks := rc_fallbacks rc + 1\<rparr>))"

section \<open>The worker\<close>

record worker_config =
  wc_batch_size :: int
  wc_max_retries :: int
  wc_retryer :: bool  \<comment> \<open>whether there is a retry publisher\<close>

definition DefaultWorkerBatchSize :: int where
  "DefaultWorkerBatchSize = 200"

definition DefaultWorkerMaxRetries :: int where
  "DefaultWorkerMaxRetries = 5"

definition NewWorker :: "worker_config \<Rightarrow> worker_config" where
  "NewWorker c = c\<lparr>
     wc_batch_size := (if wc_batch_size c \<le> 0 \<or> wc_batch_size c > DefaultWorkerBatchSize
       then DefaultWorkerBatchSize else wc_batch_size c),
     wc_max_retries := (if wc_max_retries c \<le> 0 then DefaultWorkerMaxRetries else wc_max_retries c)\<rparr>"

datatype settlement = Acked | Rejected | Requeued

record worker_metrics =
  wm_received :: nat
  wm_committed :: nat
  wm_duplicate :: nat
  wm_invalid :: nat
  wm_requeue :: nat
  wm_dlq :: nat
  wm_failures :: nat
  wm_batches :: "nat list"  \<comment> \<open>the sizes \<open>observeBatch\<close> saw\<close>

text \<open>The state: the store, the pending batch, the outcomes of the broker calls to come, and what the broker has
  been told: the settled deliveries and the copies published for a retry.\<close>

record 's worker =
  wk_store :: 's
  wk_batch :: "(delivery \<times> event) list"
  wk_net :: "bool list"
  wk_settled :: "(delivery \<times> settlement) list"
  wk_retried :: "(delivery \<times> int) list"
  wk_metrics :: worker_metrics

definition count_wm :: "(worker_metrics \<Rightarrow> worker_metrics) \<Rightarrow> 's worker \<Rightarrow> 's worker" where
  "count_wm f w = w\<lparr>wk_metrics := f (wk_metrics w)\<rparr>"

definition dlq :: "worker_metrics \<Rightarrow> worker_metrics" where
  "dlq m = m\<lparr>wm_dlq := wm_dlq m + 1\<rparr>"

definition broker_call :: "'s worker \<Rightarrow> bool \<times> 's worker" where
  "broker_call w = (case wk_net w of [] \<Rightarrow> (True, w) | ok # net \<Rightarrow> (ok, w\<lparr>wk_net := net\<rparr>))"

definition settle :: "delivery \<Rightarrow> settlement \<Rightarrow> 's worker \<Rightarrow> bool \<times> 's worker" where
  "settle d how w = (case broker_call w of (ok, w1) \<Rightarrow>
     (ok, if ok then w1\<lparr>wk_settled := wk_settled w1 @ [(d, how)]\<rparr> else w1))"

definition publish_retry :: "delivery \<Rightarrow> int \<Rightarrow> 's worker \<Rightarrow> bool \<times> 's worker" where
  "publish_retry d k w = (case broker_call w of (ok, w1) \<Rightarrow>
     (ok, if ok then w1\<lparr>wk_retried := wk_retried w1 @ [(d, k)]\<rparr> else w1))"

text \<open>The result is whether the function returned no error.\<close>

definition retry_one :: "worker_config \<Rightarrow> delivery \<Rightarrow> 's worker \<Rightarrow> bool \<times> 's worker" where
  \<comment> \<open>the body of the loop of \<open>retryBatch\<close>\<close>
  "retry_one c d w =
     (let attempt = attempt_of d in
      if attempt \<ge> wc_max_retries c then settle d Rejected (count_wm dlq w)
      else if \<not> wc_retryer c then
        (case settle d Requeued w of (ok, w1) \<Rightarrow>
          (ok, if ok then count_wm (\<lambda>m. m\<lparr>wm_requeue := wm_requeue m + 1\<rparr>) w1 else w1))
      else
        (case publish_retry d attempt w of (published, w1) \<Rightarrow>
           if \<not> published then settle d Rejected (count_wm dlq w1)
           else (case settle d Acked w1 of (ok, w2) \<Rightarrow>
             (ok, if ok then count_wm (\<lambda>m. m\<lparr>wm_requeue := wm_requeue m + 1\<rparr>) w2 else w2))))"

fun retryBatch :: "worker_config \<Rightarrow> (delivery \<times> event) list \<Rightarrow> 's worker \<Rightarrow> bool \<times> 's worker" where
  "retryBatch c [] w = (True, w)"
| "retryBatch c (p # ps) w =
     (case retry_one c (fst p) w of (ok, w1) \<Rightarrow> if ok then retryBatch c ps w1 else (False, w1))"

fun ack_all :: "(delivery \<times> event) list \<Rightarrow> 's worker \<Rightarrow> bool \<times> 's worker" where
  "ack_all [] w = (True, w)"
| "ack_all (p # ps) w = (case settle (fst p) Acked w of (ok, w1) \<Rightarrow> if ok then ack_all ps w1 else (False, w1))"

definition flush_batch ::
    "(event list \<Rightarrow> 's \<Rightarrow> (store_error + nat) \<times> 's) \<Rightarrow> worker_config \<Rightarrow> (delivery \<times> event) list \<Rightarrow> 's worker \<Rightarrow>
     bool \<times> 's worker" where
  "flush_batch rec c batch w =
     (case rec (map snd batch) (wk_store w) of
        (result, store) \<Rightarrow>
          let w1 = count_wm (\<lambda>m. m\<lparr>wm_batches := wm_batches m @ [length batch]\<rparr>) (w\<lparr>wk_store := store\<rparr>) in
          case result of
            Inl e \<Rightarrow> retryBatch c batch (count_wm (\<lambda>m. m\<lparr>wm_failures := wm_failures m + 1\<rparr>) w1)
          | Inr inserted \<Rightarrow> ack_all batch (count_wm (\<lambda>m. m\<lparr>wm_committed := wm_committed m + inserted,
              wm_duplicate := wm_duplicate m + (length batch - inserted)\<rparr>) w1))"

definition flush ::
    "(event list \<Rightarrow> 's \<Rightarrow> (store_error + nat) \<times> 's) \<Rightarrow> worker_config \<Rightarrow> 's worker \<Rightarrow> bool \<times> 's worker" where
  "flush rec c w =
     (if wk_batch w = [] then (True, w) else flush_batch rec c (wk_batch w) (w\<lparr>wk_batch := []\<rparr>))"

definition accept ::
    "(event list \<Rightarrow> 's \<Rightarrow> (store_error + nat) \<times> 's) \<Rightarrow> worker_config \<Rightarrow> delivery \<Rightarrow> 's worker \<Rightarrow> bool \<times> 's worker" where
  "accept rec c d w =
     (let w0 = count_wm (\<lambda>m. m\<lparr>wm_received := wm_received m + 1\<rparr>) w in
      case DecodeEvent (dl_body d) of
        None \<Rightarrow> settle d Rejected (count_wm (\<lambda>m. dlq (m\<lparr>wm_invalid := wm_invalid m + 1\<rparr>)) w0)
      | Some ev \<Rightarrow>
          let w1 = w0\<lparr>wk_batch := wk_batch w0 @ [(d, ev)]\<rparr> in
          if int (length (wk_batch w1)) \<ge> wc_batch_size c then flush rec c w1 else (True, w1))"

text \<open>\<open>Run\<close>: the deliveries and the timer as they come; at the end of the channel, or once the context is done
  and the deliveries already handed over are taken, the rest is flushed.\<close>

datatype worker_input = Delivered delivery | Timer

fun worker_run ::
    "(event list \<Rightarrow> 's \<Rightarrow> (store_error + nat) \<times> 's) \<Rightarrow> worker_config \<Rightarrow> worker_input list \<Rightarrow> 's worker \<Rightarrow>
     bool \<times> 's worker" where
  "worker_run rec c [] w = flush rec c w"
| "worker_run rec c (i # is) w =
     (case (case i of Delivered d \<Rightarrow> accept rec c d w | Timer \<Rightarrow> flush rec c w) of
        (ok, w1) \<Rightarrow> if ok then worker_run rec c is w1 else (False, w1))"

section \<open>What a run tells the broker\<close>

lemma settle_effect:
  assumes "settle d how w = (ok, w')"
  shows "wk_settled w' = wk_settled w @ (if ok then [(d, how)] else [])" "wk_store w' = wk_store w"
    "wk_batch w' = wk_batch w" "wk_retried w' = wk_retried w" "wk_metrics w' = wk_metrics w"
  using assms by (auto simp: settle_def broker_call_def split: list.splits if_splits)

lemma publish_effect:
  assumes "publish_retry d k w = (ok, w')"
  shows "wk_retried w' = wk_retried w @ (if ok then [(d, k)] else [])" "wk_store w' = wk_store w"
    "wk_batch w' = wk_batch w" "wk_settled w' = wk_settled w" "wk_metrics w' = wk_metrics w"
  using assms by (auto simp: publish_retry_def broker_call_def split: list.splits if_splits)

lemma count_wm_effect [simp]:
  "wk_settled (count_wm f w) = wk_settled w" "wk_store (count_wm f w) = wk_store w"
  "wk_batch (count_wm f w) = wk_batch w" "wk_retried (count_wm f w) = wk_retried w"
  "wk_metrics (count_wm f w) = f (wk_metrics w)"
  by (simp_all add: count_wm_def)

lemma retry_one_effect:
  assumes "retry_one c d w = (ok, w')"
  shows "\<exists>how rs. wk_settled w' = wk_settled w @ (if ok then [(d, how)] else []) \<and> wk_store w' = wk_store w \<and>
    wk_batch w' = wk_batch w \<and> wk_retried w' = wk_retried w @ rs \<and> wm_batches (wk_metrics w') = wm_batches (wk_metrics w) \<and>
    (rs = [] \<or> rs = [(d, attempt_of d)] \<and> attempt_of d < wc_max_retries c \<and> wc_retryer c) \<and>
    (how = Acked \<longrightarrow> rs \<noteq> [])"
proof (cases "attempt_of d \<ge> wc_max_retries c")
  case True
  then show ?thesis using assms settle_effect [of d Rejected "count_wm dlq w" ok w']
    by (simp add: retry_one_def) (auto simp: dlq_def intro!: exI [of _ Rejected])
next
  case False
  show ?thesis
  proof (cases "wc_retryer c")
    case no: False
    obtain b w1 where s: "settle d Requeued w = (b, w1)" by fastforce
    show ?thesis using assms False no s settle_effect [OF s]
      by (auto simp: retry_one_def intro!: exI [of _ Requeued])
  next
    case yes: True
    obtain b w1 where p: "publish_retry d (attempt_of d) w = (b, w1)" by fastforce
    show ?thesis
    proof (cases b)
      case no: False
      then have s: "settle d Rejected (count_wm dlq w1) = (ok, w')"
        using assms False yes p by (simp add: retry_one_def)
      show ?thesis using settle_effect [OF s] publish_effect [OF p] no
        by (auto simp: dlq_def intro!: exI [of _ Rejected])
    next
      case True
      obtain b2 w2 where s: "settle d Acked w1 = (b2, w2)" by fastforce
      show ?thesis using settle_effect [OF s] publish_effect [OF p] True assms False yes p s
        by (auto simp: retry_one_def intro!: exI [of _ Acked])
    qed
  qed
qed

text \<open>The deliveries a state answers for: the settled and the pending ones.\<close>

definition settled :: "'s worker \<Rightarrow> delivery multiset" where
  "settled w = mset (map fst (wk_settled w))"

definition pending :: "'s worker \<Rightarrow> delivery multiset" where
  "pending w = mset (map fst (wk_batch w))"

definition delivered :: "worker_input list \<Rightarrow> delivery list" where
  "delivered is = concat (map (\<lambda>i. case i of Delivered d \<Rightarrow> [d] | Timer \<Rightarrow> []) is)"

text \<open>Each of the deliveries \<open>ds\<close> is settled once on success, and at most once on an error.\<close>

definition settles :: "bool \<Rightarrow> delivery multiset \<Rightarrow> 's worker \<Rightarrow> 's worker \<Rightarrow> bool" where
  "settles ok ds w w' \<longleftrightarrow> (\<exists>done. done \<subseteq># ds \<and> settled w' = settled w + done \<and> (ok \<longrightarrow> done = ds))"

lemma settles_one: "wk_settled w' = wk_settled w @ (if ok then [(d, how)] else []) \<Longrightarrow> settles ok {#d#} w w'"
  by (auto simp: settles_def settled_def)

lemma settles_trans:
  assumes "settles True a w w1" and "settles ok b w1 w2"
  shows "settles ok (a + b) w w2"
  using assms by (auto simp: settles_def intro: subset_mset.add_left_mono)

lemma settles_fail: "settles False a w w1 \<Longrightarrow> settles False (a + b) w w1"
  unfolding settles_def by (metis mset_subset_eq_add_left subset_mset.order_trans)

lemma retryBatch_settles: "retryBatch c ps w = (ok, w') \<Longrightarrow> settles ok (mset (map fst ps)) w w' \<and> wk_batch w' = wk_batch w"
proof (induction ps arbitrary: w)
  case (Cons p ps)
  obtain b w1 where one: "retry_one c (fst p) w = (b, w1)" by fastforce
  then obtain how where "wk_settled w1 = wk_settled w @ (if b then [(fst p, how)] else [])" "wk_batch w1 = wk_batch w"
    using retry_one_effect [OF one] by blast
  then show ?case using Cons one settles_one [of w1 w b "fst p" how]
      settles_trans [of "{#fst p#}" w w1 ok "mset (map fst ps)" w'] settles_fail [of "{#fst p#}" w w1 "mset (map fst ps)"]
    by (auto split: if_splits)
qed (simp add: settles_def)

lemma ack_all_settles: "ack_all ps w = (ok, w') \<Longrightarrow> settles ok (mset (map fst ps)) w w' \<and> wk_batch w' = wk_batch w"
proof (induction ps arbitrary: w)
  case (Cons p ps)
  obtain b w1 where one: "settle (fst p) Acked w = (b, w1)" by fastforce
  show ?case using Cons one settle_effect [OF one] settles_one [of w1 w b "fst p" Acked]
      settles_trans [of "{#fst p#}" w w1 ok "mset (map fst ps)" w'] settles_fail [of "{#fst p#}" w w1 "mset (map fst ps)"]
    by (auto split: if_splits)
qed (simp add: settles_def)

lemma settles_cong: "wk_settled v = wk_settled w \<Longrightarrow> settles ok ds v w' = settles ok ds w w'"
  by (simp add: settles_def settled_def)

lemma flush_settles:
  assumes "flush rec c w = (ok, w')"
  shows "settles ok (pending w) w w' \<and> wk_batch w' = []"
proof (cases "wk_batch w = []")
  case True
  then show ?thesis using assms by (auto simp: flush_def settles_def pending_def)
next
  case False
  obtain r s where r: "rec (map snd (wk_batch w)) (wk_store w) = (r, s)" by fastforce
  define w1 where "w1 = count_wm (\<lambda>m. m\<lparr>wm_batches := wm_batches m @ [length (wk_batch w)]\<rparr>) (w\<lparr>wk_batch := [], wk_store := s\<rparr>)"
  have w1: "wk_settled w1 = wk_settled w" "wk_batch w1 = []" by (simp_all add: w1_def)
  have "retryBatch c (wk_batch w) (count_wm (\<lambda>m. m\<lparr>wm_failures := wm_failures m + 1\<rparr>) w1) = (ok, w') \<or>
      (\<exists>f. ack_all (wk_batch w) (count_wm f w1) = (ok, w'))"
    using assms False r by (auto simp: flush_def flush_batch_def Let_def w1_def split: sum.splits)
  then show ?thesis
    using retryBatch_settles [of c "wk_batch w" _ ok w'] ack_all_settles [of "wk_batch w" _ ok w'] w1
      settles_cong [of "count_wm _ w1" w ok "pending w" w']
    unfolding pending_def by fastforce
qed

lemma accept_settles:
  assumes "accept rec c d w = (ok, w')"
  shows "(ok \<longrightarrow> settled w' + pending w' = settled w + pending w + {#d#}) \<and>
    settled w' \<subseteq># settled w + pending w + {#d#}"
proof (cases "DecodeEvent (dl_body d)")
  case None
  then have s: "settle d Rejected (count_wm (\<lambda>m. dlq (m\<lparr>wm_invalid := wm_invalid m + 1\<rparr>))
      (count_wm (\<lambda>m. m\<lparr>wm_received := wm_received m + 1\<rparr>) w)) = (ok, w')"
    using assms by (simp add: accept_def Let_def)
  show ?thesis using settle_effect [OF s] by (auto simp: settled_def pending_def)
next
  case (Some ev)
  define w1 where "w1 = (count_wm (\<lambda>m. m\<lparr>wm_received := wm_received m + 1\<rparr>) w)\<lparr>wk_batch := wk_batch w @ [(d, ev)]\<rparr>"
  have w1: "settled w1 = settled w" "pending w1 = pending w + {#d#}"
    by (simp_all add: w1_def settled_def pending_def)
  have "flush rec c w1 = (ok, w') \<or> (ok \<and> w' = w1)"
    using assms Some by (auto simp: accept_def Let_def w1_def split: if_splits)
  then show ?thesis
  proof
    assume "flush rec c w1 = (ok, w')"
    then have "settles ok (pending w1) w1 w'" "pending w' = {#}"
      using flush_settles [of rec c w1 ok w'] by (simp_all add: pending_def)
    then show ?thesis using w1 by (auto simp: settles_def)
  qed (use w1 in simp)
qed

lemma worker_run_settles:
  assumes "worker_run rec c is w = (ok, w')"
  shows "(ok \<longrightarrow> settled w' = settled w + pending w + mset (delivered is) \<and> wk_batch w' = []) \<and>
    settled w' \<subseteq># settled w + pending w + mset (delivered is)"
  using assms
proof (induction "is" arbitrary: w)
  case Nil
  then show ?case using flush_settles [of rec c w ok w'] by (auto simp: settles_def delivered_def)
next
  case (Cons i "is")
  obtain b w1 where s: "(case i of Delivered d \<Rightarrow> accept rec c d w | Timer \<Rightarrow> flush rec c w) = (b, w1)" by fastforce
  have one: "(b \<longrightarrow> settled w1 + pending w1 = settled w + pending w + mset (delivered [i])) \<and>
      settled w1 \<subseteq># settled w + pending w + mset (delivered [i])"
  proof (cases i)
    case (Delivered d)
    then show ?thesis using accept_settles [of rec c d w b w1] s by (simp add: delivered_def)
  next
    case Timer
    then show ?thesis using flush_settles [of rec c w b w1] s by (auto simp: settles_def delivered_def pending_def [of w1])
  qed
  have split: "mset (delivered (i # is)) = mset (delivered [i]) + mset (delivered is)" by (simp add: delivered_def)
  show ?case
  proof (cases b)
    case True
    then have "worker_run rec c is w1 = (ok, w')" using Cons(2) s by simp
    moreover have "settled w + pending w + mset (delivered (i # is)) = settled w1 + pending w1 + mset (delivered is)"
      using one True split by (simp add: ac_simps)
    ultimately show ?thesis using Cons.IH by metis
  next
    case False
    then have "ok = False" "w' = w1" using Cons(2) s by simp_all
    moreover have "settled w1 \<subseteq># (settled w + pending w + mset (delivered [i])) + mset (delivered is)"
      using one by (metis mset_subset_eq_add_left subset_mset.order_trans)
    ultimately show ?thesis using split by (simp add: ac_simps)
  qed
qed

section \<open>What the worker relies on\<close>

text \<open>A batch that was recorded is recorded, and what is recorded stays.\<close>

locale batch_store =
  fixes rec :: "event list \<Rightarrow> 's \<Rightarrow> (store_error + nat) \<times> 's"
    and recorded :: "'s \<Rightarrow> event \<Rightarrow> bool"
  assumes records: "fst (rec evs s) = Inr n \<Longrightarrow> \<forall>ev \<in> set evs. e_event_id ev \<noteq> [] \<Longrightarrow>
      ev \<in> set evs \<Longrightarrow> recorded (snd (rec evs s)) ev"
    and keeps: "recorded s ev \<Longrightarrow> recorded (snd (rec evs s)) ev"

lemma DecodeEvent_id: "DecodeEvent body = Some ev \<Longrightarrow> e_event_id ev \<noteq> []"
  by (auto simp: DecodeEvent_def validUUID_def Let_def split: option.splits if_splits)

text \<open>Every acknowledged delivery is accounted for, and every copy published for a retry is in bounds.\<close>

definition acked_ok :: "('s \<Rightarrow> event \<Rightarrow> bool) \<Rightarrow> 's worker \<Rightarrow> delivery \<Rightarrow> bool" where
  "acked_ok recorded w d \<longleftrightarrow> (\<exists>ev. DecodeEvent (dl_body d) = Some ev \<and>
     (recorded (wk_store w) ev \<or> (\<exists>k. (d, k) \<in> set (wk_retried w))))"

definition retry_ok :: "worker_config \<Rightarrow> delivery set \<Rightarrow> delivery \<times> int \<Rightarrow> bool" where
  "retry_ok c D = (\<lambda>(d, k). d \<in> D \<and> k = attempt_of d \<and> k < wc_max_retries c \<and> wc_retryer c)"

definition worker_ok :: "('s \<Rightarrow> event \<Rightarrow> bool) \<Rightarrow> worker_config \<Rightarrow> delivery set \<Rightarrow> 's worker \<Rightarrow> bool" where
  "worker_ok recorded c D w \<longleftrightarrow>
     (\<forall>(d, ev) \<in> set (wk_batch w). DecodeEvent (dl_body d) = Some ev \<and> d \<in> D) \<and>
     (\<forall>d. (d, Acked) \<in> set (wk_settled w) \<longrightarrow> acked_ok recorded w d) \<and>
     (\<forall>r \<in> set (wk_retried w). retry_ok c D r)"

lemma worker_ok_mono:
  assumes "worker_ok recorded c D w" and "\<forall>(d, ev) \<in> set (wk_batch w'). DecodeEvent (dl_body d) = Some ev \<and> d \<in> D"
    and "\<And>ev. recorded (wk_store w) ev \<Longrightarrow> recorded (wk_store w') ev"
    and "set (wk_retried w) \<subseteq> set (wk_retried w')" and "\<forall>r \<in> set (wk_retried w') - set (wk_retried w). retry_ok c D r"
    and "\<And>d. (d, Acked) \<in> set (wk_settled w') \<Longrightarrow> (d, Acked) \<in> set (wk_settled w) \<or> acked_ok recorded w' d"
  shows "worker_ok recorded c D w'"
proof -
  have "acked_ok recorded w' d" if "acked_ok recorded w d" for d
    using that assms(3,4) unfolding acked_ok_def by blast
  then show ?thesis using assms(1,2,4,5,6) unfolding worker_ok_def by blast
qed

lemma retryBatch_ok:
  assumes "retryBatch c ps w = (ok, w')" and "worker_ok recorded c D w"
    and "\<forall>(d, ev) \<in> set ps. DecodeEvent (dl_body d) = Some ev \<and> d \<in> D"
  shows "worker_ok recorded c D w' \<and> wm_batches (wk_metrics w') = wm_batches (wk_metrics w)"
  using assms
proof (induction ps arbitrary: w)
  case (Cons p ps)
  obtain d ev where p: "p = (d, ev)" by fastforce
  obtain b w1 where one: "retry_one c d w = (b, w1)" by fastforce
  obtain how rs where e: "wk_settled w1 = wk_settled w @ (if b then [(d, how)] else [])" "wk_store w1 = wk_store w"
      "wk_batch w1 = wk_batch w" "wk_retried w1 = wk_retried w @ rs" "wm_batches (wk_metrics w1) = wm_batches (wk_metrics w)"
      "rs = [] \<or> rs = [(d, attempt_of d)] \<and> attempt_of d < wc_max_retries c \<and> wc_retryer c" "how = Acked \<longrightarrow> rs \<noteq> []"
    using retry_one_effect [OF one] by blast
  have d: "DecodeEvent (dl_body d) = Some ev" "d \<in> D" using Cons(4) p by simp_all
  have "acked_ok recorded w1 d" if "how = Acked"
    using that e(4,6,7) d by (auto simp: acked_ok_def)
  then have w1: "worker_ok recorded c D w1"
    by (intro worker_ok_mono [OF Cons(3), of w1])
      (use Cons(3) e d in \<open>auto simp: worker_ok_def retry_ok_def split: if_splits\<close>)
  then show ?case using Cons(1) [of w1] Cons(2,4) p one e(5) by (auto split: if_splits)
qed simp

lemma ack_all_ok:
  assumes "ack_all ps w = (ok, w')" and "worker_ok recorded c D w"
    and "\<forall>(d, ev) \<in> set ps. DecodeEvent (dl_body d) = Some ev \<and> recorded (wk_store w) ev"
  shows "worker_ok recorded c D w' \<and> wm_batches (wk_metrics w') = wm_batches (wk_metrics w)"
  using assms
proof (induction ps arbitrary: w)
  case (Cons p ps)
  obtain d ev where p: "p = (d, ev)" by fastforce
  obtain b w1 where one: "settle d Acked w = (b, w1)" by fastforce
  note e = settle_effect [OF one]
  have "acked_ok recorded w1 d" using Cons(4) p e(2) by (auto simp: acked_ok_def)
  then have "worker_ok recorded c D w1"
    by (intro worker_ok_mono [OF Cons(3), of w1]) (use Cons(3) e in \<open>auto simp: worker_ok_def split: if_splits\<close>)
  then show ?case using Cons(1) [of w1] Cons(2,4) p one e by (auto split: if_splits)
qed simp

text \<open>The pending batch is always smaller than a full one, and no batch is bigger.\<close>

definition sizes_ok :: "worker_config \<Rightarrow> 's worker \<Rightarrow> bool" where
  "sizes_ok c w \<longleftrightarrow> int (length (wk_batch w)) < wc_batch_size c \<and>
     (\<forall>n \<in> set (wm_batches (wk_metrics w)). 0 < n \<and> int n \<le> wc_batch_size c)"

context batch_store
begin

lemma flush_ok:
  assumes "flush rec c w = (ok, w')" and "worker_ok recorded c D w"
  shows "worker_ok recorded c D w' \<and> wm_batches (wk_metrics w') =
    wm_batches (wk_metrics w) @ (if wk_batch w = [] then [] else [length (wk_batch w)])"
proof (cases "wk_batch w = []")
  case True
  then show ?thesis using assms by (simp add: flush_def)
next
  case False
  let ?ps = "wk_batch w"
  have dec: "\<forall>(d, ev) \<in> set ?ps. DecodeEvent (dl_body d) = Some ev \<and> d \<in> D" using assms(2) by (simp add: worker_ok_def)
  then have ids: "\<forall>ev \<in> set (map snd ?ps). e_event_id ev \<noteq> []" using DecodeEvent_id by fastforce
  obtain r s where r: "rec (map snd ?ps) (wk_store w) = (r, s)" by fastforce
  define w1 where "w1 = count_wm (\<lambda>m. m\<lparr>wm_batches := wm_batches m @ [length ?ps]\<rparr>) (w\<lparr>wk_batch := [], wk_store := s\<rparr>)"
  have "recorded s ev" if "recorded (wk_store w) ev" for ev using keeps [OF that, of "map snd ?ps"] r by simp
  then have w1: "worker_ok recorded c D (count_wm f w1)" for f
    by (intro worker_ok_mono [OF assms(2)]) (use assms(2) in \<open>auto simp: w1_def worker_ok_def\<close>)
  have sizes: "wm_batches (wk_metrics w1) = wm_batches (wk_metrics w) @ [length ?ps]" by (simp add: w1_def)
  show ?thesis
  proof (cases r)
    case (Inl e)
    then have "retryBatch c ?ps (count_wm (\<lambda>m. m\<lparr>wm_failures := wm_failures m + 1\<rparr>) w1) = (ok, w')"
      using assms(1) False r by (simp add: flush_def flush_batch_def Let_def w1_def)
    then show ?thesis using retryBatch_ok [OF _ w1 dec] sizes False by fastforce
  next
    case (Inr n)
    then have a: "ack_all ?ps (count_wm (\<lambda>m. m\<lparr>wm_committed := wm_committed m + n,
        wm_duplicate := wm_duplicate m + (length ?ps - n)\<rparr>) w1) = (ok, w')"
      using assms(1) False r by (simp add: flush_def flush_batch_def Let_def w1_def)
    have "recorded s ev" if "ev \<in> set (map snd ?ps)" for ev
      using records [OF _ ids that, of "wk_store w" n] r Inr by simp
    then have "\<forall>(d, ev) \<in> set ?ps. DecodeEvent (dl_body d) = Some ev \<and> recorded (wk_store w1) ev"
      using dec by (fastforce simp: w1_def)
    then show ?thesis using ack_all_ok [OF a w1] sizes False by simp
  qed
qed

lemma accept_ok:
  assumes "accept rec c d w = (ok, w')" and "worker_ok recorded c D w" and "sizes_ok c w" and "0 < wc_batch_size c"
    and "d \<in> D"
  shows "worker_ok recorded c D w' \<and> sizes_ok c w'"
proof (cases "DecodeEvent (dl_body d)")
  case None
  then have s: "settle d Rejected (count_wm (\<lambda>m. dlq (m\<lparr>wm_invalid := wm_invalid m + 1\<rparr>))
      (count_wm (\<lambda>m. m\<lparr>wm_received := wm_received m + 1\<rparr>) w)) = (ok, w')"
    using assms(1) by (simp add: accept_def Let_def)
  show ?thesis using settle_effect [OF s] assms(3)
    by (intro conjI worker_ok_mono [OF assms(2)])
      (use assms(2) in \<open>auto simp: worker_ok_def sizes_ok_def dlq_def split: if_splits\<close>)
next
  case (Some ev)
  define w1 where "w1 = (count_wm (\<lambda>m. m\<lparr>wm_received := wm_received m + 1\<rparr>) w)\<lparr>wk_batch := wk_batch w @ [(d, ev)]\<rparr>"
  have w1: "worker_ok recorded c D w1"
    by (intro worker_ok_mono [OF assms(2)]) (use assms(2,5) Some in \<open>auto simp: worker_ok_def w1_def\<close>)
  have sz: "int (length (wk_batch w1)) \<le> wc_batch_size c" "wm_batches (wk_metrics w1) = wm_batches (wk_metrics w)"
      "wk_batch w1 \<noteq> []"
    using assms(3) by (auto simp: sizes_ok_def w1_def)
  consider "flush rec c w1 = (ok, w')" | "w' = w1" "int (length (wk_batch w1)) < wc_batch_size c"
    using assms(1) Some by (auto simp: accept_def Let_def w1_def split: if_splits)
  then show ?thesis
  proof cases
    case 1
    then show ?thesis
      using flush_ok [OF 1 w1] flush_settles [OF 1] sz assms(3,4) by (auto simp: sizes_ok_def)
  qed (use w1 sz assms(3) in \<open>simp add: sizes_ok_def\<close>)
qed

lemma flush_sizes:
  assumes "flush rec c w = (ok, w')" and "worker_ok recorded c D w" and "sizes_ok c w"
  shows "worker_ok recorded c D w' \<and> sizes_ok c w'"
  using flush_ok [OF assms(1,2)] flush_settles [OF assms(1)] assms(3) by (auto simp: sizes_ok_def)

lemma worker_run_ok:
  assumes "worker_run rec c is w = (ok, w')" and "worker_ok recorded c D w" and "sizes_ok c w" and "0 < wc_batch_size c"
    and "set (delivered is) \<subseteq> D"
  shows "worker_ok recorded c D w' \<and> sizes_ok c w'"
  using assms(1-3,5)
proof (induction "is" arbitrary: w)
  case Nil
  then show ?case using flush_sizes by simp
next
  case (Cons i "is")
  obtain b w1 where s: "(case i of Delivered d \<Rightarrow> accept rec c d w | Timer \<Rightarrow> flush rec c w) = (b, w1)" by fastforce
  have "worker_ok recorded c D w1 \<and> sizes_ok c w1"
    using s accept_ok [OF _ Cons(3,4) assms(4)] flush_sizes [OF _ Cons(3,4)] Cons(5)
    by (cases i) (simp_all add: delivered_def)
  moreover have "set (delivered is) \<subseteq> D" using Cons(5) by (auto simp: delivered_def)
  ultimately show ?case using Cons.IH [of w1] Cons(2) s by (cases b) simp_all
qed

end

section \<open>\<open>RecordClicks\<close> is such a store\<close>

record click_store =
  cs_db :: click_db
  cs_nets :: "bool list list"  \<comment> \<open>what becomes of the statements of the transactions to come\<close>
  cs_clock :: "int \<times> int"

definition store_record :: "event list \<Rightarrow> click_store \<Rightarrow> (store_error + nat) \<times> click_store" where
  "store_record evs cs =
     (case recordClicks (cs_clock cs) (case cs_nets cs of [] \<Rightarrow> [] | net # _ \<Rightarrow> net) evs (cs_db cs) of
        (r, db) \<Rightarrow> (r, cs\<lparr>cs_db := db, cs_nets := tl (cs_nets cs)\<rparr>))"

definition stored :: "click_store \<Rightarrow> event \<Rightarrow> bool" where
  "stored cs ev \<longleftrightarrow> lower (e_event_id ev) \<in> set (event_ids (cd_rows (cs_db cs)))"

lemma record_events_keep:
  "record_events now evs t n = Inr (m, t') \<Longrightarrow> i \<in> set (event_ids (cd_rows (snd t))) \<Longrightarrow>
     i \<in> set (event_ids (cd_rows (snd t')))"
  by (rule record_events_induct) (simp_all add: book_event_ids)

interpretation click_queue: batch_store store_record stored
proof
  fix evs :: "event list" and s :: click_store and ev :: event and n :: nat
  obtain net r db where c: "recordClicks (cs_clock s) net evs (cs_db s) = (r, db)"
      and s: "store_record evs s = (r, s\<lparr>cs_db := db, cs_nets := tl (cs_nets s)\<rparr>)"
    unfolding store_record_def by (metis (no_types, lifting) case_prod_conv surj_pair)
  consider t t' n where "r = Inr n" "snd t = cs_db s" "snd t' = db" "record_events (cs_clock s) evs t 0 = Inr (n, t')"
    | e where "r = Inl e" "db = cs_db s"
    by (rule recordClicks_ok [OF c])
  note cases = this
  show "stored (snd (store_record evs s)) ev" if "stored s ev"
    using cases
  proof cases
    case (1 t t' n)
    then show ?thesis using record_events_keep [OF 1(4)] that s by (simp add: stored_def)
  qed (use that s in \<open>simp add: stored_def\<close>)
  show "stored (snd (store_record evs s)) ev"
    if "fst (store_record evs s) = Inr n" "\<forall>ev \<in> set evs. e_event_id ev \<noteq> []" "ev \<in> set evs"
    using cases
  proof cases
    case (1 t t' n)
    then show ?thesis using record_events_all [OF 1(4) that(2)] that(3) s by (simp add: stored_def)
  qed (use that s in simp)
qed

section \<open>Runs\<close>

definition start_worker :: "'s \<Rightarrow> bool list \<Rightarrow> 's worker" where
  "start_worker s net = \<lparr>wk_store = s, wk_batch = [], wk_net = net, wk_settled = [], wk_retried = [],
     wk_metrics = \<lparr>wm_received = 0, wm_committed = 0, wm_duplicate = 0, wm_invalid = 0, wm_requeue = 0, wm_dlq = 0,
       wm_failures = 0, wm_batches = []\<rparr>\<rparr>"

lemma NewWorker_range: "0 < wc_batch_size (NewWorker c)" "wc_batch_size (NewWorker c) \<le> 200" "0 < wc_max_retries (NewWorker c)"
  by (simp_all add: NewWorker_def DefaultWorkerBatchSize_def DefaultWorkerMaxRetries_def)

lemma start_ok:
  "worker_ok recorded c D (start_worker s net)" "0 < wc_batch_size c \<Longrightarrow> sizes_ok c (start_worker s net)"
  "settled (start_worker s net) = {#}" "pending (start_worker s net) = {#}" "wk_net (start_worker s net) = net"
  "wk_store (start_worker s net) = s" "wk_retried (start_worker s net) = []"
  by (simp_all add: start_worker_def worker_ok_def sizes_ok_def settled_def pending_def)

text \<open>When every broker call succeeds, the worker returns no error.\<close>

lemma quiet_calls:
  assumes "wk_net w = []"
  shows "fst (settle d how w)" "wk_net (snd (settle d how w)) = []"
    "fst (publish_retry d k w)" "wk_net (snd (publish_retry d k w)) = []"
  using assms by (simp_all add: settle_def publish_retry_def broker_call_def)

lemma count_wm_net [simp]: "wk_net (count_wm f w) = wk_net w"
  by (simp add: count_wm_def)

lemma quiet_retry_one: "wk_net w = [] \<Longrightarrow> fst (retry_one c d w) \<and> wk_net (snd (retry_one c d w)) = []"
  by (simp add: retry_one_def Let_def settle_def publish_retry_def broker_call_def)

lemma quiet_lists:
  "wk_net w = [] \<Longrightarrow> fst (retryBatch c ps w) \<and> wk_net (snd (retryBatch c ps w)) = []"
  "wk_net w = [] \<Longrightarrow> fst (ack_all ps w) \<and> wk_net (snd (ack_all ps w)) = []"
proof (induction ps arbitrary: w)
  case (Cons p ps)
  {
    case 1
    then show ?case using Cons.IH(1) [of "snd (retry_one c (fst p) w)"] quiet_retry_one [OF 1, of c "fst p"]
      by (auto split: prod.split)
  next
    case 2
    then show ?case using Cons.IH(2) [of "snd (settle (fst p) Acked w)"] quiet_calls(1,2) [OF 2, where d = "fst p" and how = Acked]
      by (auto split: prod.split)
  }
qed simp_all

lemma quiet_flush: "wk_net w = [] \<Longrightarrow> fst (flush rec c w) \<and> wk_net (snd (flush rec c w)) = []"
  by (simp add: flush_def flush_batch_def Let_def quiet_lists split: prod.split sum.split)

lemma quiet_accept: "wk_net w = [] \<Longrightarrow> fst (accept rec c d w) \<and> wk_net (snd (accept rec c d w)) = []"
  by (simp add: accept_def Let_def quiet_calls quiet_flush split: option.split)

lemma quiet_run: "wk_net w = [] \<Longrightarrow> fst (worker_run rec c is w)"
proof (induction "is" arbitrary: w)
  case (Cons i "is")
  obtain b w1 where s: "(case i of Delivered d \<Rightarrow> accept rec c d w | Timer \<Rightarrow> flush rec c w) = (b, w1)" by fastforce
  have "b \<and> wk_net w1 = []" using s quiet_accept [OF Cons(2)] quiet_flush [OF Cons(2)] by (cases i) (metis fst_conv snd_conv worker_input.simps)+
  then show ?case using Cons.IH s by simp
qed (simp add: quiet_flush)

section \<open>Rounds of retries\<close>

text \<open>A copy published for a retry comes back as a delivery of its own, with the attempt in its header; each round
  is a run of its own over the copies of the round before.\<close>

definition republished :: "delivery \<times> int \<Rightarrow> delivery" where
  "republished = (\<lambda>(d, k). d\<lparr>dl_retry_header := Some (Signed k)\<rparr>)"

fun retry_rounds ::
    "(event list \<Rightarrow> 's \<Rightarrow> (store_error + nat) \<times> 's) \<Rightarrow> worker_config \<Rightarrow> bool list list \<Rightarrow> delivery list \<Rightarrow> 's \<Rightarrow>
     delivery list" where
  "retry_rounds rec c [] ds s = ds"
| "retry_rounds rec c (net # nets) ds s =
     (let w = snd (worker_run rec c (map Delivered ds) (start_worker s net)) in
      retry_rounds rec c nets (map republished (wk_retried w)) (wk_store w))"

lemma delivered_map [simp]: "delivered (map Delivered ds) = ds"
  by (induction ds) (simp_all add: delivered_def)

lemma attempt_of_next: "0 \<le> retryCount (dl_retry_header d) \<Longrightarrow> retryCount (dl_retry_header d) < 2 ^ 63 - 1 \<Longrightarrow>
    attempt_of d = retryCount (dl_retry_header d) + 1"
  by (simp add: attempt_of_def wrap64_def)

lemma retry_rounds_none: "retry_rounds rec c nets [] s = []"
  by (induction nets arbitrary: s) (simp_all add: flush_def start_worker_def)

context batch_store
begin

lemma retry_rounds_end:
  assumes "0 < wc_batch_size c" and "wc_max_retries c < 2 ^ 63"
    and "\<forall>d \<in> set ds. k \<le> retryCount (dl_retry_header d) \<and> retryCount (dl_retry_header d) < 2 ^ 63 - 1"
    and "0 \<le> k" and "k < wc_max_retries c" and "nat (wc_max_retries c - k) \<le> length nets"
  shows "retry_rounds rec c nets ds s = []"
  using assms(3-6)
proof (induction nets arbitrary: ds s k)
  case (Cons net nets)
  obtain ok w where w: "worker_run rec c (map Delivered ds) (start_worker s net) = (ok, w)" by fastforce
  have "worker_ok recorded c (set ds) w"
    using worker_run_ok [OF w start_ok(1) start_ok(2) [OF assms(1)] assms(1)] by simp
  then have copies: "k + 1 \<le> retryCount (dl_retry_header r) \<and> retryCount (dl_retry_header r) < wc_max_retries c"
    if r: "r \<in> set (map republished (wk_retried w))" for r
    using r Cons(2) attempt_of_next Cons(3)
    by (fastforce simp: worker_ok_def retry_ok_def republished_def retryCount_def)
  show ?case
  proof (cases "k + 1 < wc_max_retries c")
    case True
    have "\<forall>d \<in> set (map republished (wk_retried w)).
        k + 1 \<le> retryCount (dl_retry_header d) \<and> retryCount (dl_retry_header d) < 2 ^ 63 - 1"
      using copies assms(2) by fastforce
    then show ?thesis using Cons.IH [of _ "k + 1"] w True Cons(3,5) by (simp add: Let_def)
  next
    case False
    then have "map republished (wk_retried w) = []" using copies by (cases "map republished (wk_retried w)") force+
    then show ?thesis using w retry_rounds_none [of rec c nets] by (simp add: Let_def)
  qed
qed simp

end

section \<open>A message is what was published\<close>

lemma decode_marshal:
  assumes "DecodeEvent (Some \<lparr>ep_version = PayloadVersion, ep_event = ev\<rparr>) = Some ev"
  shows "DecodeEvent (Some (MarshalEvent scrub ev)) =
    Some (ev\<lparr>e_resolved_url := scrub (e_resolved_url ev), e_referrer := scrub (e_referrer ev)\<rparr>)"
  using assms by (simp add: DecodeEvent_def MarshalEvent_def Let_def split: if_splits)

section \<open>Properties\<close>

text \<open>C35: Every delivery is settled exactly once. Whatever the store does, whenever the worker returns without an
  error every delivery it took has been acknowledged, rejected or requeued exactly once; it does return without
  an error when the calls to the broker succeed, and when one fails, still none has been settled twice.\<close>

theorem every_delivery_settled_once:
  assumes "worker_run store_record (NewWorker c) is (start_worker s net) = (ok, w)"
  shows "(ok \<longrightarrow> mset (map fst (wk_settled w)) = mset (delivered is)) \<and>
    mset (map fst (wk_settled w)) \<subseteq># mset (delivered is) \<and> (net = [] \<longrightarrow> ok)"
  using worker_run_settles [OF assms] quiet_run [of "start_worker s net" store_record "NewWorker c" "is"] assms
  by (auto simp: start_ok settled_def [of w])

text \<open>C36: No click is lost. A delivery the worker acknowledged could be decoded, and its event is in the click log or
  a copy of it was published for a retry; every such copy carries the attempt after the one of the delivery,
  below the configured maximum; and no transaction held more than 200 events.\<close>

theorem no_click_lost:
  assumes "worker_run store_record (NewWorker c) is (start_worker s net) = (ok, w)"
  shows "(\<forall>d. (d, Acked) \<in> set (wk_settled w) \<longrightarrow> acked_ok stored w d) \<and>
    (\<forall>(d, k) \<in> set (wk_retried w). d \<in> set (delivered is) \<and> k = attempt_of d \<and> k < wc_max_retries (NewWorker c)) \<and>
    (\<forall>n \<in> set (wm_batches (wk_metrics w)). 0 < n \<and> n \<le> 200)"
proof -
  have "worker_ok stored (NewWorker c) (set (delivered is)) w \<and> sizes_ok (NewWorker c) w"
    using click_queue.worker_run_ok [OF assms start_ok(1,2)] NewWorker_range(1) by blast
  then show ?thesis using NewWorker_range(2) [of c]
    by (fastforce simp: worker_ok_def sizes_ok_def retry_ok_def)
qed


definition sample_config :: worker_config where
  "sample_config = \<lparr>wc_batch_size = 2, wc_max_retries = 0, wc_retryer = True\<rparr>"

definition sample_delivery :: "nat \<Rightarrow> event \<Rightarrow> delivery" where
  "sample_delivery tag ev = \<lparr>dl_tag = tag, dl_body = Some (MarshalEvent (\<lambda>u. u) ev), dl_retry_header = None\<rparr>"

definition sample_inputs :: "worker_input list" where
  "sample_inputs = [Delivered (sample_delivery 1 sample_event), Delivered \<lparr>dl_tag = 2, dl_body = None, dl_retry_header = None\<rparr>,
     Delivered (sample_delivery 3 gone_event), Delivered (sample_delivery 4 second_event), Timer]"

definition sample_store :: click_store where
  "sample_store = \<lparr>cs_db = sample_db, cs_nets = [], cs_clock = (0, 0)\<rparr>"

definition sample_end :: "click_store worker" where
  "sample_end = snd (worker_run store_record (NewWorker sample_config) sample_inputs (start_worker sample_store []))"

lemma sample_end_run:
  "worker_run store_record (NewWorker sample_config) sample_inputs (start_worker sample_store []) = (True, sample_end)"
proof -
  have "fst (worker_run store_record (NewWorker sample_config) sample_inputs (start_worker sample_store []))"
    by (rule quiet_run) (simp add: start_ok)
  then show ?thesis by (simp add: sample_end_def prod_eq_iff)
qed

theorem every_delivery_settled_once_witness:
  "mset (map fst (wk_settled sample_end)) = mset (delivered sample_inputs) \<and> length (wk_settled sample_end) = 4"
proof -
  have "mset (map fst (wk_settled sample_end)) = mset (delivered sample_inputs)"
    using every_delivery_settled_once [OF sample_end_run] by simp
  moreover from this have "length (wk_settled sample_end) = length (delivered sample_inputs)"
    using mset_eq_length by fastforce
  ultimately show ?thesis by (simp add: delivered_def sample_inputs_def)
qed

theorem no_click_lost_witness:
  "map (\<lambda>(d, k). (dl_tag d, k)) (wk_retried sample_end) = [(1, 1), (3, 1)] \<and>
   acked_ok stored sample_end (sample_delivery 4 second_event)"
proof -
  have "map (\<lambda>(d, k). (dl_tag d, k)) (wk_retried sample_end) = [(1, 1), (3, 1)]" by code_simp
  moreover have "(sample_delivery 4 second_event, Acked) \<in> set (wk_settled sample_end)" by code_simp
  ultimately show ?thesis using no_click_lost [OF sample_end_run] by blast
qed


end
