(* ===== verification/Limiter.thy ===== *)
theory Limiter
  imports Prelude "HOL-Library.AList"
begin

text \<open>
  The limit on password attempts (\<open>internal/handlers/handlers.go\<close>: \<open>tooManyAttempts\<close>,
  \<open>pruneAttemptsLocked\<close>, \<open>addAttempt\<close>, \<open>clearAttempts\<close>): five checks per link and visitor in fifteen
  minutes. The Go map of attempts is an association list with distinct keys; a missing key reads as no
  attempts. Times are milliseconds. Each function holds the lock, so each is one step.
\<close>

record limiter =
  at_map :: "(string \<times> int list) list"
  at_ops :: nat

definition attempt_window :: int where
  "attempt_window = 15 * 60 * 1000"

definition attempts_for :: "string \<Rightarrow> limiter \<Rightarrow> int list" where
  "attempts_for key lm = (case map_of (at_map lm) key of None \<Rightarrow> [] | Some ts \<Rightarrow> ts)"

definition recent :: "int \<Rightarrow> int list \<Rightarrow> int list" where
  \<comment> \<open>the attempts after the cutoff\<close>
  "recent now ts = filter (\<lambda>t. now - attempt_window < t) ts"

definition pruneAttemptsLocked :: "int \<Rightarrow> limiter \<Rightarrow> limiter" where
  "pruneAttemptsLocked now lm =
     (if at_ops lm mod 256 \<noteq> 0 \<and> length (at_map lm) < 10000 then lm
      else lm\<lparr>at_map := filter (\<lambda>(k, ts). ts \<noteq> []) (map (\<lambda>(k, ts). (k, recent now ts)) (at_map lm))\<rparr>)"

definition tooManyAttempts :: "int \<Rightarrow> string \<Rightarrow> limiter \<Rightarrow> bool \<times> limiter" where
  "tooManyAttempts now key lm =
     (let lm1 = pruneAttemptsLocked now (lm\<lparr>at_ops := at_ops lm + 1\<rparr>) in
      if length (at_map lm1) \<ge> 100000 \<and> attempts_for key lm1 = [] then (True, lm1)
      else let kept = recent now (attempts_for key lm1) in
        (5 \<le> length kept, lm1\<lparr>at_map := AList.update key kept (at_map lm1)\<rparr>))"

definition addAttempt :: "int \<Rightarrow> string \<Rightarrow> limiter \<Rightarrow> limiter" where
  "addAttempt now key lm = lm\<lparr>at_map := AList.update key (attempts_for key lm @ [now]) (at_map lm)\<rparr>"

definition clearAttempts :: "string \<Rightarrow> limiter \<Rightarrow> limiter" where
  "clearAttempts key lm = lm\<lparr>at_map := AList.delete key (at_map lm)\<rparr>"

definition no_attempts :: limiter where
  "no_attempts = \<lparr>at_map = [], at_ops = 0\<rparr>"

section \<open>The attempts of a key\<close>

definition limiter_ok :: "limiter \<Rightarrow> bool" where
  "limiter_ok lm \<longleftrightarrow> distinct (map fst (at_map lm))"

lemma attempts_update [simp]:
  "attempts_for k (lm\<lparr>at_map := AList.update key ts (at_map lm)\<rparr>) = (if k = key then ts else attempts_for k lm)"
  by (simp add: attempts_for_def AList.update_conv')

lemma attempts_add [simp]:
  "attempts_for k (addAttempt now key lm) = (if k = key then attempts_for k lm @ [now] else attempts_for k lm)"
  by (simp add: addAttempt_def)

lemma attempts_clear [simp]:
  "attempts_for k (clearAttempts key lm) = (if k = key then [] else attempts_for k lm)"
  by (simp add: attempts_for_def clearAttempts_def AList.delete_conv')

lemma recent_recent [simp]: "now \<le> later \<Longrightarrow> recent later (recent now ts) = recent later ts"
  by (auto simp: recent_def intro!: filter_cong)

lemma attempts_prune:
  assumes "limiter_ok lm"
  shows "recent now (attempts_for k (pruneAttemptsLocked now lm)) = recent now (attempts_for k lm)"
proof -
  have "map_of (filter (\<lambda>(k, ts). ts \<noteq> []) (map (\<lambda>(k, ts). (k, recent now ts)) m)) k =
      (case map_of m k of None \<Rightarrow> None | Some ts \<Rightarrow> if recent now ts = [] then None else Some (recent now ts))"
    if "distinct (map fst m)" for m
    using that
  proof (induction m)
    case (Cons p m)
    obtain a ts where p: "p = (a, ts)" by fastforce
    have "map_of m a = None" using Cons(2) p by (simp add: map_of_eq_None_iff)
    then show ?case using Cons p by (cases "k = a") (auto split: option.splits)
  qed simp
  then show ?thesis using assms
    by (auto simp: pruneAttemptsLocked_def attempts_for_def limiter_ok_def recent_def split: option.split)
qed

lemma limiter_ok_steps:
  assumes "limiter_ok lm"
  shows "limiter_ok (pruneAttemptsLocked now lm)" "limiter_ok (lm\<lparr>at_ops := n\<rparr>)" "limiter_ok (addAttempt now key lm)"
    "limiter_ok (clearAttempts key lm)" "limiter_ok (lm\<lparr>at_map := AList.update key ts (at_map lm)\<rparr>)"
  using assms
  by (simp_all add: limiter_ok_def pruneAttemptsLocked_def addAttempt_def clearAttempts_def distinct_update
      distinct_delete distinct_map_filter o_def case_prod_unfold comp_def)

lemma tooMany_effect:
  assumes "limiter_ok lm" and "tooManyAttempts now key lm = (refused, lm')"
  shows "limiter_ok lm'" and "recent now (attempts_for k lm') = recent now (attempts_for k lm)"
    and "\<not> refused \<Longrightarrow> length (recent now (attempts_for key lm)) < 5"
proof -
  obtain lm1 where lm1: "pruneAttemptsLocked now (lm\<lparr>at_ops := Suc (at_ops lm)\<rparr>) = lm1" by blast
  have ok: "limiter_ok lm1" using limiter_ok_steps assms(1) lm1 by blast
  have same: "recent now (attempts_for k lm1) = recent now (attempts_for k lm)" for k
    using attempts_prune [OF limiter_ok_steps(2) [OF assms(1)], of now k "Suc (at_ops lm)"] lm1
    by (simp add: attempts_for_def)
  consider "refused" "lm' = lm1" | "refused = (5 \<le> length (recent now (attempts_for key lm1)))"
      "lm' = lm1\<lparr>at_map := AList.update key (recent now (attempts_for key lm1)) (at_map lm1)\<rparr>"
    using assms(2) by (auto simp: tooManyAttempts_def lm1 Let_def split: if_splits)
  then show "limiter_ok lm'" and "recent now (attempts_for k lm') = recent now (attempts_for k lm)"
    and "\<not> refused \<Longrightarrow> length (recent now (attempts_for key lm)) < 5"
    by (cases; use ok same limiter_ok_steps(5) [OF ok] in simp)+
qed

section \<open>Attempts one after the other\<close>

text \<open>A password request as the gate handles it: refused, or checked with the result \<open>right\<close>. \<open>time\<close> is the
  clock of the request.\<close>

record password_try =
  pt_time :: int
  pt_key :: string
  pt_right :: bool

definition password_step :: "password_try \<Rightarrow> limiter \<Rightarrow> bool \<times> limiter" where
  \<comment> \<open>whether the password was checked\<close>
  "password_step p lm =
     (case tooManyAttempts (pt_time p) (pt_key p) lm of (refused, lm1) \<Rightarrow>
       if refused then (False, lm1)
       else (True, if pt_right p then clearAttempts (pt_key p) lm1 else addAttempt (pt_time p) (pt_key p) lm1))"

fun checked_tries :: "password_try list \<Rightarrow> limiter \<Rightarrow> password_try list" where
  "checked_tries [] lm = []"
| "checked_tries (p # ps) lm =
     (case password_step p lm of (checked, lm1) \<Rightarrow> (if checked then [p] else []) @ checked_tries ps lm1)"

text \<open>The times of the failed checks of a key are what the limiter remembers of them.\<close>

lemma password_step_other:
  assumes "limiter_ok lm" and "password_step p lm = (checked, lm')" and "pt_time p = now"
  shows "limiter_ok lm'"
    and "pt_key p \<noteq> key \<or> \<not> checked \<Longrightarrow> recent now (attempts_for key lm') = recent now (attempts_for key lm)"
    and "checked \<Longrightarrow> length (recent now (attempts_for (pt_key p) lm)) < 5"
    and "checked \<Longrightarrow> \<not> pt_right p \<Longrightarrow>
      recent now (attempts_for (pt_key p) lm') = recent now (attempts_for (pt_key p) lm) @ [now]"
proof -
  obtain refused lm1 where r: "tooManyAttempts (pt_time p) (pt_key p) lm = (refused, lm1)" by fastforce
  note e = tooMany_effect [OF assms(1) r]
  show "limiter_ok lm'" using assms(2) r e(1) limiter_ok_steps by (auto simp: password_step_def split: if_splits)
  show "recent now (attempts_for key lm') = recent now (attempts_for key lm)" if "pt_key p \<noteq> key \<or> \<not> checked"
    using that assms(2,3) r e(2) [of key] by (auto simp: password_step_def split: if_splits)
  show "checked \<Longrightarrow> length (recent now (attempts_for (pt_key p) lm)) < 5"
    using assms(2,3) r e(3) by (auto simp: password_step_def split: if_splits)
  show "checked \<Longrightarrow> \<not> pt_right p \<Longrightarrow>
      recent now (attempts_for (pt_key p) lm') = recent now (attempts_for (pt_key p) lm) @ [now]"
    using assms(2,3) r e(2) [of "pt_key p"]
    by (auto simp: password_step_def recent_def attempt_window_def split: if_splits)
qed

text \<open>The checks of a key in a window of fifteen minutes from \<open>a\<close>.\<close>

definition in_window :: "string \<Rightarrow> int \<Rightarrow> password_try \<Rightarrow> bool" where
  "in_window key a p \<longleftrightarrow> pt_key p = key \<and> a < pt_time p \<and> pt_time p \<le> a + attempt_window"

definition remembered :: "string \<Rightarrow> int \<Rightarrow> limiter \<Rightarrow> nat" where
  "remembered key a lm = length (filter (\<lambda>t. a < t) (attempts_for key lm))"

lemma filter_recent: "now \<le> a + attempt_window \<Longrightarrow> filter (\<lambda>t. a < t) (recent now ts) = filter (\<lambda>t. a < t) ts"
  by (auto simp: recent_def intro!: filter_cong)

lemma remembered_cong:
  assumes "recent now (attempts_for key lm') = recent now (attempts_for key lm)" and "now \<le> a + attempt_window"
  shows "remembered key a lm' = remembered key a lm"
  using filter_recent [OF assms(2)] assms(1) unfolding remembered_def by metis

lemma checks_in_window:
  assumes "limiter_ok lm" and "sorted (map pt_time ps)" and "\<forall>p \<in> set ps. pt_key p = key \<longrightarrow> \<not> pt_right p"
    and "remembered key a lm \<le> 5"
  shows "remembered key a lm + length (filter (in_window key a) (checked_tries ps lm)) \<le> 5"
  using assms
proof (induction ps arbitrary: lm)
  case (Cons p ps)
  obtain checked lm1 where s: "password_step p lm = (checked, lm1)" by fastforce
  note e = password_step_other [OF Cons(2) s refl]
  have checked: "checked_tries (p # ps) lm = (if checked then [p] else []) @ checked_tries ps lm1" using s by simp
  show ?case
  proof (cases "pt_time p \<le> a + attempt_window")
    case False
    have "set (checked_tries qs l) \<subseteq> set qs" for qs l
      by (induction qs arbitrary: l) (fastforce split: prod.splits if_splits)+
    then have "\<forall>q \<in> set (checked_tries (p # ps) lm). \<not> in_window key a q"
      using False Cons(3) by (fastforce simp: in_window_def)
    then show ?thesis using Cons(5) by (simp add: filter_empty_conv del: checked_tries.simps)
  next
    case now: True
    have IH: "remembered key a lm1 \<le> 5 \<Longrightarrow>
        remembered key a lm1 + length (filter (in_window key a) (checked_tries ps lm1)) \<le> 5"
      using Cons.IH [OF e(1)] Cons(3,4) by simp
    show ?thesis
    proof (cases "checked \<and> in_window key a p")
      case False
      have "remembered key a lm1 = remembered key a lm"
      proof (cases "pt_key p = key \<and> checked")
        case True
        then have "recent (pt_time p) (attempts_for key lm1) = recent (pt_time p) (attempts_for key lm) @ [pt_time p]"
          using e(4) Cons(4) by auto
        then show ?thesis using True False now filter_recent [OF now]
          unfolding remembered_def in_window_def by (metis append.right_neutral filter.simps filter_append)
      qed (use remembered_cong [OF e(2) now] in auto)
      then show ?thesis using IH Cons(5) checked False by auto
    next
      case True
      then have k: "pt_key p = key" "checked" "a < pt_time p" by (auto simp: in_window_def)
      then have "recent (pt_time p) (attempts_for key lm1) = recent (pt_time p) (attempts_for key lm) @ [pt_time p]"
        using e(4) Cons(4) by auto
      then have "remembered key a lm1 = remembered key a lm + 1"
        using filter_recent [OF now, of "attempts_for key lm"] filter_recent [OF now, of "attempts_for key lm1"] k(3)
        by (simp add: remembered_def) (metis length_append_singleton)
      moreover have "remembered key a lm < 5"
        using e(3) k filter_recent [OF now, of "attempts_for key lm"]
        by (metis remembered_def length_filter_le order.strict_trans1)
      ultimately show ?thesis using IH checked k True by simp
    qed
  qed
qed simp

section \<open>Attempts at the same time\<close>

text \<open>Asking and adding are two steps: requests that all ask before the first of them adds are all let through.\<close>

lemma length_update_le: "length (AList.update k v m) \<le> Suc (length m)"
  by (induction m) auto

lemma length_prune: "length (at_map (pruneAttemptsLocked now lm)) \<le> length (at_map lm)"
  by (simp add: pruneAttemptsLocked_def order_trans [OF length_filter_le])

lemma asking_is_free:
  assumes "limiter_ok lm" and "attempts_for key lm = []" and "length (at_map lm) < 100000"
    and "tooManyAttempts now key lm = (refused, lm')"
  shows "\<not> refused" and "attempts_for key lm' = []" and "length (at_map lm') \<le> Suc (length (at_map lm))"
proof -
  obtain lm1 where lm1: "pruneAttemptsLocked now (lm\<lparr>at_ops := Suc (at_ops lm)\<rparr>) = lm1" by blast
  have len: "length (at_map lm1) \<le> length (at_map lm)"
    using length_prune [of now "lm\<lparr>at_ops := Suc (at_ops lm)\<rparr>"] lm1 by simp
  have "recent now (attempts_for key (lm\<lparr>at_ops := Suc (at_ops lm)\<rparr>)) = []"
    using assms(2) by (simp add: attempts_for_def recent_def)
  then have none: "recent now (attempts_for key lm1) = []"
    using attempts_prune [OF limiter_ok_steps(2) [OF assms(1)], of now key "Suc (at_ops lm)"] lm1 by simp
  have few: "\<not> 100000 \<le> length (at_map lm1)" using len assms(3) by simp
  have "refused = False" "lm' = lm1\<lparr>at_map := AList.update key [] (at_map lm1)\<rparr>"
    using assms(4) none few by (auto simp: tooManyAttempts_def lm1 Let_def)
  then show "\<not> refused" and "attempts_for key lm' = []" and "length (at_map lm') \<le> Suc (length (at_map lm))"
    using length_update_le [of key "[]" "at_map lm1"] len by simp_all
qed

fun asks :: "nat \<Rightarrow> int \<Rightarrow> string \<Rightarrow> limiter \<Rightarrow> bool list" where
  "asks 0 now key lm = []"
| "asks (Suc n) now key lm = (case tooManyAttempts now key lm of (refused, lm1) \<Rightarrow> refused # asks n now key lm1)"

lemma asking_together:
  "limiter_ok lm \<Longrightarrow> attempts_for key lm = [] \<Longrightarrow> length (at_map lm) + n \<le> 100000 \<Longrightarrow>
     asks n now key lm = replicate n False"
proof (induction n arbitrary: lm)
  case (Suc n)
  obtain refused lm1 where r: "tooManyAttempts now key lm = (refused, lm1)" by fastforce
  have "length (at_map lm) < 100000" using Suc(4) by simp
  note f = asking_is_free [OF Suc(2,3) this r]
  have "limiter_ok lm1" by (rule tooMany_effect(1) [OF Suc(2) r])
  then show ?case using Suc.IH [of lm1] f Suc(4) r by simp
qed simp

section \<open>Properties\<close>

text \<open>C38: Nobody gets more than five wrong guesses in fifteen minutes. Of password requests handled one after the
  other, in any window of fifteen minutes at most five of a visitor for a link are checked at all, as long as
  none of them is right, whatever other visitors do in between.\<close>

theorem five_guesses_a_window:
  assumes "sorted (map pt_time ps)" and "\<forall>p \<in> set ps. pt_key p = key \<longrightarrow> \<not> pt_right p"
  shows "length (filter (in_window key a) (checked_tries ps no_attempts)) \<le> 5"
  using checks_in_window [of no_attempts ps key a] assms
  by (simp add: limiter_ok_def no_attempts_def remembered_def attempts_for_def)

theorem five_guesses_a_window_witness:
  "length (filter (in_window ''7:192.0.2.1'' 0)
     (checked_tries (map (\<lambda>t. \<lparr>pt_time = t, pt_key = ''7:192.0.2.1'', pt_right = False\<rparr>) [1, 2, 3, 4, 5, 6, 900002])
       no_attempts)) \<le> 5"
  by (rule five_guesses_a_window) simp_all


end
