(* ===== verification/Redirect.thy ===== *)
theory Redirect
  imports RedisCache ClickWorker Limiter "HOL-Library.Sublist"
begin

text \<open>
  The redirect handler (\<open>internal/handlers/handlers.go\<close>: \<open>redirectSlug\<close> and what it calls): the host and its
  domain, the link through the cache, the password gate, expiry, the choice of the destination, the query it
  is given, and the recording of the click.

  What the handler meets outside the repository is the record \<open>outside\<close>: the clock, DNS, parsing and printing
  of URLs and addresses, the password hash, the token signature, the broker and the outcomes of statements.
\<close>

section \<open>Requests, surroundings, state\<close>

record parsed_url =
  pu_host :: string
  pu_query :: "string \<Rightarrow> string list"  \<comment> \<open>\<open>url.Values\<close>; an absent key has no values\<close>
  pu_rest :: string

record redirect_request =
  rr_method :: string
  rr_host :: string
  rr_uri :: string
  rr_query :: "(string \<times> string list) list"
  rr_country :: string  \<comment> \<open>\<open>CF-IPCountry\<close>\<close>
  rr_connecting_ip :: string
  rr_remote_addr :: string
  rr_user_agent :: string
  rr_referer :: string
  rr_access :: "int \<Rightarrow> bool"  \<comment> \<open>\<open>hasLinkAccess\<close>: a valid access cookie for the link\<close>
  rr_password :: "string option"  \<comment> \<open>\<open>None\<close>: the form cannot be parsed\<close>

record outside =
  ou_base_host :: string
  ou_now :: int
  ou_txt :: "string \<Rightarrow> string list"
  ou_parse :: "string \<Rightarrow> parsed_url option"
  ou_print :: "parsed_url \<Rightarrow> string"
  ou_scrub :: "string \<Rightarrow> string"  \<comment> \<open>the URL without user, query and fragment, empty when it cannot be parsed\<close>
  ou_is_ip :: "string \<Rightarrow> bool"
  ou_event_id :: string
  ou_password_ok :: "string \<Rightarrow> string \<Rightarrow> bool"
  ou_token_ok :: bool
  ou_publisher :: "bool option"
  ou_statements :: "bool list"
  ou_domain_saved :: bool

record redirect_state =
  rw_domains :: "tenant_domain list"
  rw_cache :: "(redis \<times> cache_metrics) option"
  rw_recorder :: recorder
  rw_limiter :: limiter

datatype response =
    Not_found
  | Found_at int string
  | Password_page bool        \<comment> \<open>with or without \<open>Incorrect password.\<close>\<close>
  | Too_many_attempts
  | Access_granted string     \<comment> \<open>the cookie, and 303 to the same address\<close>
  | Expired_page
  | Failed string

section \<open>Reading the request\<close>

definition strip_slashes :: "string \<Rightarrow> string" where
  "strip_slashes s = rev (dropWhile (\<lambda>c. c = CHR ''/'') (rev (dropWhile (\<lambda>c. c = CHR ''/'') s)))"

definition isReservedRootPath :: "string \<Rightarrow> bool" where
  "isReservedRootPath path =
     (let clean = strip_slashes path in
      clean = [] \<or> CHR ''/'' \<in> set clean \<or>
      clean \<in> {''app.js'', ''style.css'', ''docs.html'', ''favicon.ico'', ''robots.txt''} \<or> CHR ''.'' \<in> set clean)"

definition request_host :: "redirect_request \<Rightarrow> string" where
  "request_host req =
     (let host = strip_dots (lower (rr_host req)) in case splitHostPort host of Some h \<Rightarrow> h | None \<Rightarrow> host)"

definition countryFromRequest :: "redirect_request \<Rightarrow> string" where
  "countryFromRequest req = (let c = upper (trim (rr_country req)) in if length c = 2 then c else [])"

definition visitorIP :: "outside \<Rightarrow> redirect_request \<Rightarrow> string" where
  "visitorIP ou req =
     (let ip = trim (rr_connecting_ip req) in
      if ou_is_ip ou ip then ip
      else case splitHostPort (rr_remote_addr req) of Some h \<Rightarrow> h | None \<Rightarrow> rr_remote_addr req)"

definition any_in :: "string list \<Rightarrow> string \<Rightarrow> bool" where
  "any_in words text = list_ex (\<lambda>w. sublist w text) words"

definition clientTraits :: "string \<Rightarrow> string \<times> string \<times> string \<times> bool" where
  "clientTraits ua =
     (let l = lower ua; crawler = any_in [''bot'', ''crawler'', ''spider'', ''slurp''] l in
      (if any_in [''edg/''] l then ''Edge'' else if any_in [''chrome/'', ''crios/''] l then ''Chrome''
       else if any_in [''firefox/''] l then ''Firefox'' else if any_in [''safari/''] l then ''Safari'' else ''Other'',
       if any_in [''android''] l then ''Android'' else if any_in [''iphone'', ''ipad''] l then ''iOS''
       else if any_in [''windows''] l then ''Windows'' else if any_in [''mac os''] l then ''macOS''
       else if any_in [''linux''] l then ''Linux'' else ''Other'',
       if crawler then ''bot'' else if any_in [''ipad'', ''tablet''] l then ''tablet''
       else if any_in [''mobile'', ''iphone'', ''android''] l then ''mobile'' else ''desktop'',
       crawler))"

section \<open>The destination\<close>

definition resolveTarget :: "link \<Rightarrow> string \<Rightarrow> string \<Rightarrow> string \<times> string" where
  "resolveTarget l country userAgent =
     (case find (\<lambda>g. lower (gt_country_code g) = lower country) (l_geo_targets l) of
        Some g \<Rightarrow> (gt_target_url g, ''country'')
      | None \<Rightarrow>
          let ua = lower userAgent in
          if any_in [''iphone'', ''ipad'', ''ipod''] ua \<and> l_ios_url l \<noteq> [] then (l_ios_url l, ''ios'')
          else if any_in [''android''] ua \<and> l_android_url l \<noteq> [] then (l_android_url l, ''android'')
          else (l_target_url l, ''default''))"

definition utm_params :: "link \<Rightarrow> (string \<times> string) list" where
  "utm_params l = [(''utm_source'', l_utm_source l), (''utm_medium'', l_utm_medium l),
     (''utm_campaign'', l_utm_campaign l), (''utm_term'', l_utm_term l), (''utm_content'', l_utm_content l)]"

definition merged_query :: "link \<Rightarrow> (string \<times> string list) list \<Rightarrow> (string \<Rightarrow> string list) \<Rightarrow> string \<Rightarrow> string list" where
  "merged_query l inbound q =
     (let q1 = fold (\<lambda>(k, v) q. if v \<noteq> [] then q(k := [v]) else q) (utm_params l) q in
      if l_forward_query l then fold (\<lambda>(k, vs) q. q(k := vs)) inbound q1 else q1)"

definition mergeTargetQuery :: "outside \<Rightarrow> string \<Rightarrow> link \<Rightarrow> (string \<times> string list) list \<Rightarrow> string" where
  "mergeTargetQuery ou raw l inbound =
     (case ou_parse ou raw of None \<Rightarrow> raw
      | Some u \<Rightarrow> ou_print ou (u\<lparr>pu_query := merged_query l inbound (pu_query u)\<rparr>))"

definition linkExpired :: "int \<Rightarrow> link \<Rightarrow> bool" where
  "linkExpired now l \<longleftrightarrow>
     (case l_expires_at l of None \<Rightarrow> False | Some t \<Rightarrow> t \<le> now) \<or>
     (case l_max_clicks l of None \<Rightarrow> False | Some m \<Rightarrow> m \<le> l_clicks l)"

definition expiredResponse :: "link \<Rightarrow> response" where
  "expiredResponse l = (if l_expired_url l \<noteq> [] then Found_at 302 (l_expired_url l) else Expired_page)"

section \<open>The event\<close>

definition first_value :: "string list \<Rightarrow> string" where
  "first_value vs = (case vs of [] \<Rightarrow> [] | v # _ \<Rightarrow> v)"

definition redirectEvent :: "outside \<Rightarrow> redirect_request \<Rightarrow> link \<Rightarrow> string \<Rightarrow> string \<Rightarrow> int \<Rightarrow> event" where
  "redirectEvent ou req l target route status =
     (case clientTraits (rr_user_agent req) of (browser, os, device, crawler) \<Rightarrow>
      let values = (case ou_parse ou target of None \<Rightarrow> (\<lambda>_. []) | Some u \<Rightarrow> pu_query u) in
      \<lparr>c_id = 0, c_link_id = l_id l, c_slug = l_slug l, c_country_code = countryFromRequest req,
       c_status_code = status, c_route_type = route, c_browser = browser, c_os = os, c_device = device,
       c_is_bot = crawler, c_referrer_host = (case ou_parse ou (rr_referer req) of None \<Rightarrow> [] | Some u \<Rightarrow> pu_host u),
       c_utm_campaign = first_value (values ''utm_campaign''), c_created_at = 0, e_event_id = ou_event_id ou,
       e_ip = visitorIP ou req, e_method = rr_method req, e_user_agent = rr_user_agent req,
       e_resolved_url = ou_scrub ou target, e_referrer = rr_referer req,
       e_utm_source = first_value (values ''utm_source''), e_utm_medium = first_value (values ''utm_medium''),
       e_occurred_at = Some (ou_now ou), e_increment = False\<rparr>)"

definition record_click :: "outside \<Rightarrow> event \<Rightarrow> bool \<Rightarrow> int option \<Rightarrow> redirect_state \<Rightarrow> (store_error + bool) \<times> redirect_state" where
  \<comment> \<open>\<open>recordClick\<close> of the handler, through its recorder\<close>
  "record_click ou ev increment maxClicks w =
     (case recorder_Record (ou_scrub ou) (ou_publisher ou) (ou_now ou, ou_now ou) (ou_statements ou) ev increment
        maxClicks (rw_recorder w) of (r, rc) \<Rightarrow> (r, w\<lparr>rw_recorder := rc\<rparr>))"

section \<open>The password gate\<close>

definition passwordGate :: "outside \<Rightarrow> redirect_request \<Rightarrow> link \<Rightarrow> redirect_state \<Rightarrow> response \<times> redirect_state" where
  "passwordGate ou req l w =
     (if rr_method req = ''POST'' then
        (let key = int_text (l_id l) @ '':'' @ visitorIP ou req in
         case tooManyAttempts (ou_now ou) key (rw_limiter w) of (refused, lm) \<Rightarrow>
           if refused then (Too_many_attempts, w\<lparr>rw_limiter := lm\<rparr>)
           else if (case rr_password req of None \<Rightarrow> False | Some p \<Rightarrow> ou_password_ok ou (l_password_hash l) p) then
             (if ou_token_ok ou then Access_granted (rr_uri req) else Failed ''access token failed'',
              w\<lparr>rw_limiter := clearAttempts key lm\<rparr>)
           else (Password_page True, w\<lparr>rw_limiter := addAttempt (ou_now ou) key lm\<rparr>))
      else (Password_page False, w))"

section \<open>The domain\<close>

definition cleanDomain :: "string \<Rightarrow> string" where
  "cleanDomain domain =
     (let d = lower (trim domain);
          d1 = (if has_prefix ''http://'' d then drop 7 d else d);
          d2 = (if has_prefix ''https://'' d1 then drop 8 d1 else d1)
      in strip_dots (hd (split_on (CHR ''/'') d2)))"

definition verifyDomain_dns :: "outside \<Rightarrow> tenant_domain \<Rightarrow> bool" where
  "verifyDomain_dns ou d \<longleftrightarrow> ou_base_host ou \<noteq> [] \<and>
     ''shortq-verify='' @ d_verification_token d \<in> set (ou_txt ou (''_shortq.'' @ d_domain d))"

definition setTenantDomainVerified :: "int \<Rightarrow> int \<Rightarrow> bool \<Rightarrow> tenant_domain list \<Rightarrow> tenant_domain list" where
  "setTenantDomainVerified now i verified =
     map (\<lambda>d. if d_id d = i then d\<lparr>d_status := (if verified then ''active'' else ''pending''),
       d_verified_at := (if verified then Some now else None)\<rparr> else d)"

definition activeLinkSlugs :: "int \<Rightarrow> click_db \<Rightarrow> string list" where
  "activeLinkSlugs tenant db =
     map l_slug (sort_key l_id (filter (\<lambda>l. l_tenant_id l = Some tenant \<and> l_deleted_at l = None) (cd_links db)))"

definition invalidateDomainRedirects :: "tenant_domain \<Rightarrow> redirect_state \<Rightarrow> redirect_state" where
  "invalidateDomainRedirects d w = w\<lparr>rw_cache := map_option
     (fold (\<lambda>slug cm. snd (invalidate redisDelete {} [d_domain d] slug cm))
       (activeLinkSlugs (d_tenant_id d) (rc_db (rw_recorder w)))) (rw_cache w)\<rparr>"

definition check_domain :: "outside \<Rightarrow> string \<Rightarrow> redirect_state \<Rightarrow> tenant_domain option option \<times> redirect_state" where
  \<comment> \<open>\<open>None\<close> is 404; else the domain of the host, none for the base host\<close>
  "check_domain ou host w =
     (if host = [] \<or> host = ou_base_host ou then (Some None, w)
      else case find (\<lambda>d. d_domain d = cleanDomain host) (rw_domains w) of None \<Rightarrow> (None, w)
        | Some d \<Rightarrow>
            if d_status d \<noteq> ''active'' then (None, w)
            else if (case d_verified_at d of None \<Rightarrow> True | Some t \<Rightarrow> 24 * 60 * 60 * 1000 \<le> ou_now ou - t) then
              let saved = (\<lambda>v. w\<lparr>rw_domains := setTenantDomainVerified (ou_now ou) (d_id d) v (rw_domains w)\<rparr>) in
              if \<not> verifyDomain_dns ou d then
                (None, if ou_domain_saved ou then invalidateDomainRedirects d (saved False) else w)
              else if ou_domain_saved ou then (Some (Some d), saved True) else (None, w)
            else (Some (Some d), w))"

section \<open>The redirect\<close>

definition linkBySlug :: "click_db \<Rightarrow> string \<Rightarrow> store_error + link" where
  "linkBySlug db slug =
     (case find (\<lambda>l. l_slug l = slug \<and> l_deleted_at l = None) (cd_links db) of None \<Rightarrow> Inl NoRows | Some l \<Rightarrow> Inr l)"

definition load_link :: "string \<Rightarrow> string \<Rightarrow> redirect_state \<Rightarrow> (store_error + link) \<times> redirect_state" where
  "load_link host slug w =
     (let loaded = linkBySlug (rc_db (rw_recorder w)) slug in
      case rw_cache w of None \<Rightarrow> (loaded, w)
      | Some cm \<Rightarrow> (case resolve redisGet redisPut host slug loaded cm of (r, cm') \<Rightarrow> (r, w\<lparr>rw_cache := Some cm'\<rparr>)))"

definition say_expired :: "outside \<Rightarrow> redirect_request \<Rightarrow> link \<Rightarrow> redirect_state \<Rightarrow> response \<times> redirect_state" where
  \<comment> \<open>an event that does not count, whatever becomes of it, and the answer for an expired link\<close>
  "say_expired ou req l w =
     (case record_click ou (redirectEvent ou req l (l_expired_url l) ''expired'' 410) False (l_max_clicks l) w of
        (_, w') \<Rightarrow> (expiredResponse l, w'))"

definition follow_link :: "outside \<Rightarrow> redirect_request \<Rightarrow> link \<Rightarrow> redirect_state \<Rightarrow> response \<times> redirect_state" where
  "follow_link ou req l w =
     (case resolveTarget l (countryFromRequest req) (rr_user_agent req) of (base, route) \<Rightarrow>
      let target = mergeTargetQuery ou base l (rr_query req) in
      case record_click ou (redirectEvent ou req l target route (l_redirect_code l)) True (l_max_clicks l) w of
        (r, w') \<Rightarrow>
          (case r of Inl e \<Rightarrow> Failed ''redirect tracking failed''
           | Inr ok \<Rightarrow> if ok then Found_at (l_redirect_code l) target else expiredResponse l, w'))"

definition serve_link ::
    "outside \<Rightarrow> redirect_request \<Rightarrow> tenant_domain option \<Rightarrow> link \<Rightarrow> redirect_state \<Rightarrow> response \<times> redirect_state" where
  "serve_link ou req domain l w =
     (if (case domain of None \<Rightarrow> False | Some d \<Rightarrow> l_tenant_id l \<noteq> Some (d_tenant_id d)) then (Not_found, w)
      else if l_password_protected l \<and> \<not> rr_access req (l_id l) then passwordGate ou req l w
      else if linkExpired (ou_now ou) l then say_expired ou req l w
      else follow_link ou req l w)"

text \<open>What happens once the domain is known.\<close>

definition serve_slug ::
    "outside \<Rightarrow> redirect_request \<Rightarrow> string \<Rightarrow> string \<Rightarrow> tenant_domain option \<Rightarrow> redirect_state \<Rightarrow> response \<times> redirect_state" where
  "serve_slug ou req host slug domain w1 =
     (case load_link host slug w1 of
        (Inl e, w2) \<Rightarrow>
          ((case domain of Some d \<Rightarrow> if d_not_found_url d \<noteq> [] then Found_at 302 (d_not_found_url d) else Not_found
            | None \<Rightarrow> Not_found), w2)
      | (Inr l, w2) \<Rightarrow> serve_link ou req domain l w2)"

definition redirectSlug :: "outside \<Rightarrow> redirect_request \<Rightarrow> string \<Rightarrow> redirect_state \<Rightarrow> response \<times> redirect_state" where
  "redirectSlug ou req slug w =
     (if slug = [] \<or> CHR ''/'' \<in> set slug \<or> isReservedRootPath (CHR ''/'' # slug) then (Not_found, w)
      else case check_domain ou (request_host req) w of
          (None, w1) \<Rightarrow> (Not_found, w1)
        | (Some domain, w1) \<Rightarrow> serve_slug ou req (request_host req) slug domain w1)"

section \<open>Links that redirect the same way\<close>

lemma same_redirectE:
  assumes "same_redirect l l'"
  obtains "l = l'" | v where "fromLink l = Some v" "fromLink l' = Some v"
  using assms unfolding same_redirect_def by (metis option.exhaust_sel)

lemma fromLink_fields:
  assumes "fromLink l = Some v" and "fromLink l' = Some v"
  shows "l_id l = l_id l'" "l_tenant_id l = l_tenant_id l'" "l_slug l = l_slug l'" "l_target_url l = l_target_url l'"
    "l_redirect_code l = l_redirect_code l'" "l_expires_at l = l_expires_at l'" "l_expired_url l = l_expired_url l'"
    "l_ios_url l = l_ios_url l'" "l_android_url l = l_android_url l'" "l_forward_query l = l_forward_query l'"
    "utm_params l = utm_params l'" "l_geo_targets l = l_geo_targets l'" "l_max_clicks l = None" "l_max_clicks l' = None"
    "\<not> l_password_protected l" "\<not> l_password_protected l'"
  using assms by (auto simp: fromLink_def utm_params_def split: if_splits)

lemma serve_link_same:
  assumes "same_redirect l l'"
  shows "serve_link ou req domain l w = serve_link ou req domain l' w"
  using assms
proof (cases rule: same_redirectE)
  case (2 v)
  note f = fromLink_fields [OF 2]
  have merged: "merged_query l = merged_query l'" unfolding merged_query_def f by (rule refl)
  then have same: "linkExpired now l = linkExpired now l'" "expiredResponse l = expiredResponse l'"
    "resolveTarget l c u = resolveTarget l' c u" "mergeTargetQuery ou raw l = mergeTargetQuery ou raw l'"
    "redirectEvent ou req l t r s = redirectEvent ou req l' t r s" for now c u raw t r s
    unfolding linkExpired_def expiredResponse_def resolveTarget_def mergeTargetQuery_def redirectEvent_def merged f
    by simp_all
  then have "follow_link ou req l w = follow_link ou req l' w" "say_expired ou req l w = say_expired ou req l' w"
    by (simp_all only: follow_link_def say_expired_def f)
  then show ?thesis using f(1,2,15,16) same(1) unfolding serve_link_def by (cases domain) simp_all
qed simp

section \<open>What recording a click does to the links\<close>

lemma linkBySlug_plain:
  assumes "map plain (cd_links db') = map plain (cd_links db)" and "linkBySlug db slug = Inr l"
  shows "\<exists>l'. linkBySlug db' slug = Inr l' \<and> fromLink l' = fromLink l"
proof -
  have key: "fromLink (plain x) = fromLink x" "l_slug (plain x) = l_slug x" "l_deleted_at (plain x) = l_deleted_at x" for x
    by (simp_all add: fromLink_def plain_def)
  have find: "find (\<lambda>l. l_slug l = slug \<and> l_deleted_at l = None) (map plain xs) =
      map_option plain (find (\<lambda>l. l_slug l = slug \<and> l_deleted_at l = None) xs)" for xs
    by (induction xs) (simp_all add: key)
  have "map_option plain (find (\<lambda>l. l_slug l = slug \<and> l_deleted_at l = None) (cd_links db')) =
      map_option plain (find (\<lambda>l. l_slug l = slug \<and> l_deleted_at l = None) (cd_links db))"
    using find [of "cd_links db'"] find [of "cd_links db"] assms(1) by simp
  moreover have "find (\<lambda>l. l_slug l = slug \<and> l_deleted_at l = None) (cd_links db) = Some l"
    using assms(2) by (simp add: linkBySlug_def split: option.splits)
  ultimately obtain l' where l': "find (\<lambda>l. l_slug l = slug \<and> l_deleted_at l = None) (cd_links db') = Some l'"
      "plain l' = plain l"
    by (auto simp: map_option_eq_Some)
  have "fromLink l' = fromLink l" using l'(2) key(1) by metis
  then show ?thesis using l'(1) by (simp add: linkBySlug_def)
qed

lemma coherent_cong:
  assumes "coherent load entries" and "\<And>s l. load s = Inr l \<Longrightarrow> \<exists>l'. load' s = Inr l' \<and> fromLink l' = fromLink l"
  shows "coherent load' entries"
  using assms unfolding coherent_def by metis

lemma coherent_shrinks: "coherent load e \<Longrightarrow> (\<And>k. e' k \<in> {e k, None}) \<Longrightarrow> coherent load e'"
  unfolding coherent_def by (metis empty_iff insertE option.distinct(1))

lemma to_tables_plain:
  "to_tables now net ev inc mc rc = (r, rc') \<Longrightarrow> map plain (cd_links (rc_db rc')) = map plain (cd_links (rc_db rc))"
  by (auto simp: to_tables_def book_plain dest!: recordClick_cases split: prod.splits)

lemma recorder_plain:
  "recorder_Record scrub p now net ev inc mc rc = (r, rc') \<Longrightarrow>
     map plain (cd_links (rc_db rc')) = map plain (cd_links (rc_db rc))"
  by (auto simp: recorder_Record_def Let_def dest!: to_tables_plain split: if_splits)

lemma record_click_state:
  assumes "record_click ou ev inc mc w = (r, w')"
  shows "map plain (cd_links (rc_db (rw_recorder w'))) = map plain (cd_links (rc_db (rw_recorder w)))"
    and "rw_cache w' = rw_cache w" and "rw_domains w' = rw_domains w" and "rw_limiter w' = rw_limiter w"
  using assms by (auto simp: record_click_def dest!: recorder_plain split: prod.splits)

lemma record_click_cache:
  "record_click ou ev inc mc (w\<lparr>rw_cache := x\<rparr>) =
     (case record_click ou ev inc mc w of (r, w') \<Rightarrow> (r, w'\<lparr>rw_cache := x\<rparr>))"
  by (simp add: record_click_def split: prod.split)

lemma passwordGate_cache:
  "passwordGate ou req l (w\<lparr>rw_cache := x\<rparr>) = (case passwordGate ou req l w of (r, w') \<Rightarrow> (r, w'\<lparr>rw_cache := x\<rparr>))"
  by (simp add: passwordGate_def Let_def split: prod.split option.split)

text \<open>Serving a link neither looks at the cache nor changes it, and leaves of a link all but its counter.\<close>

definition keeps_links :: "redirect_state \<Rightarrow> redirect_state \<Rightarrow> bool" where
  "keeps_links w w' \<longleftrightarrow> rw_cache w' = rw_cache w \<and>
     map plain (cd_links (rc_db (rw_recorder w'))) = map plain (cd_links (rc_db (rw_recorder w)))"

lemma keeps_links_parts:
  "keeps_links w (snd (passwordGate ou req l w))" "keeps_links w (snd (say_expired ou req l w))"
  "keeps_links w (snd (follow_link ou req l w))"
proof -
  show "keeps_links w (snd (passwordGate ou req l w))"
    by (simp add: keeps_links_def passwordGate_def Let_def split: prod.split)
  show "keeps_links w (snd (say_expired ou req l w))"
    by (auto simp: keeps_links_def say_expired_def dest: record_click_state(1,2) split: prod.split)
  show "keeps_links w (snd (follow_link ou req l w))"
    by (auto simp: keeps_links_def follow_link_def Let_def dest: record_click_state(1,2) split: prod.split)
qed

lemma keeps_links_serve: "keeps_links w (snd (serve_link ou req d l w))"
  using keeps_links_parts by (simp add: serve_link_def keeps_links_def [of w w])

definition with_cache :: "(redis \<times> cache_metrics) option \<Rightarrow> 'r \<times> redirect_state \<Rightarrow> 'r \<times> redirect_state" where
  "with_cache x = (\<lambda>(r, w). (r, w\<lparr>rw_cache := x\<rparr>))"

lemma serve_link_cache: "serve_link ou req d l (w\<lparr>rw_cache := x\<rparr>) = with_cache x (serve_link ou req d l w)"
proof -
  have "say_expired ou req l (w\<lparr>rw_cache := x\<rparr>) = with_cache x (say_expired ou req l w)"
    "follow_link ou req l (w\<lparr>rw_cache := x\<rparr>) = with_cache x (follow_link ou req l w)"
    "passwordGate ou req l (w\<lparr>rw_cache := x\<rparr>) = with_cache x (passwordGate ou req l w)"
    by (simp_all add: say_expired_def follow_link_def Let_def with_cache_def record_click_cache passwordGate_cache
        split: prod.split)
  then show ?thesis by (simp add: serve_link_def with_cache_def)
qed

section \<open>The cache beside the database\<close>

definition cache_coherent :: "redirect_state \<Rightarrow> bool" where
  "cache_coherent w \<longleftrightarrow> (case rw_cache w of None \<Rightarrow> True
     | Some cm \<Rightarrow> coherent (linkBySlug (rc_db (rw_recorder w))) (redis_live (fst cm)))"

lemma cache_coherent_keeps: "keeps_links w w' \<Longrightarrow> cache_coherent w \<Longrightarrow> cache_coherent w'"
  using linkBySlug_plain by (fastforce simp: cache_coherent_def keeps_links_def intro: coherent_cong split: option.splits)

lemma invalidate_all_shrinks:
  "redis_live (fst (fold (\<lambda>s cm. snd (invalidate redisDelete {} hs s cm)) slugs cm)) k \<in> {redis_live (fst cm) k, None}"
proof (induction slugs arbitrary: cm)
  case (Cons s slugs)
  show ?case using Cons [of "snd (invalidate redisDelete {} hs s cm)"] redis.invalidate_shrinks [of "{}" hs s cm k]
    by (auto simp del: invalidate.simps)
qed simp

lemma check_domain_cache: "check_domain ou host (w\<lparr>rw_cache := None\<rparr>) = with_cache None (check_domain ou host w)"
  by (simp add: check_domain_def with_cache_def Let_def invalidateDomainRedirects_def split: option.split)

lemma check_domain_coherent:
  assumes "cache_coherent w" and "check_domain ou host w = (d, w')"
  shows "cache_coherent w'"
proof -
  have "rw_cache w' = rw_cache w \<and> rw_recorder w' = rw_recorder w \<or>
      (\<exists>d v. w' = invalidateDomainRedirects d (w\<lparr>rw_domains := v\<rparr>))"
    using assms(2) by (auto simp: check_domain_def Let_def split: if_splits option.splits)
  then show ?thesis
  proof
    assume "\<exists>d v. w' = invalidateDomainRedirects d (w\<lparr>rw_domains := v\<rparr>)"
    then obtain d v where w': "w' = invalidateDomainRedirects d (w\<lparr>rw_domains := v\<rparr>)" by blast
    show ?thesis
    proof (cases "rw_cache w")
      case (Some cm)
      then have "coherent (linkBySlug (rc_db (rw_recorder w))) (redis_live (fst cm))"
        using assms(1) by (simp add: cache_coherent_def)
      from coherent_shrinks [OF this invalidate_all_shrinks]
      show ?thesis using Some by (simp add: w' cache_coherent_def invalidateDomainRedirects_def del: invalidate.simps)
    qed (simp add: w' cache_coherent_def invalidateDomainRedirects_def)
  qed (use assms(1) in \<open>auto simp: cache_coherent_def split: option.splits\<close>)
qed

lemma load_link_coherent:
  assumes "cache_coherent w" and "CHR '':'' \<notin> set slug" and "load_link host slug w = (r, w')"
  shows "agrees r (linkBySlug (rc_db (rw_recorder w)) slug) \<and> cache_coherent w' \<and> (\<exists>x. w' = w\<lparr>rw_cache := x\<rparr>)"
proof (cases "rw_cache w")
  case None
  then have "w' = w" "r = linkBySlug (rc_db (rw_recorder w)) slug" using assms(3) by (auto simp: load_link_def Let_def)
  then show ?thesis using assms(1) None by (auto intro!: exI [of _ None])
next
  case (Some cm)
  obtain q cm' where q: "resolve redisGet redisPut host slug (linkBySlug (rc_db (rw_recorder w)) slug) cm = (q, cm')"
    by (meson surj_pair)
  have "coherent (linkBySlug (rc_db (rw_recorder w))) (redis_live (fst cm))" using assms(1) Some by (simp add: cache_coherent_def)
  then have "agrees q (linkBySlug (rc_db (rw_recorder w)) slug)" "coherent (linkBySlug (rc_db (rw_recorder w))) (redis_live (fst cm'))"
    using redis.resolve_correct [of "linkBySlug (rc_db (rw_recorder w))" cm slug host] assms(2) q by simp_all
  then show ?thesis using assms(3) Some q by (auto simp: load_link_def cache_coherent_def)
qed

lemma load_link_none: "load_link host slug (w\<lparr>rw_cache := None\<rparr>) = (linkBySlug (rc_db (rw_recorder w)) slug, w\<lparr>rw_cache := None\<rparr>)"
  by (simp add: load_link_def Let_def)

lemma serve_slug_cache:
  assumes "cache_coherent w" and "CHR '':'' \<notin> set slug"
  shows "with_cache None (serve_slug ou req host slug d w) = serve_slug ou req host slug d (w\<lparr>rw_cache := None\<rparr>) \<and>
    cache_coherent (snd (serve_slug ou req host slug d w))"
proof -
  obtain r w' where r: "load_link host slug w = (r, w')" by fastforce
  obtain x where x: "agrees r (linkBySlug (rc_db (rw_recorder w)) slug)" "cache_coherent w'" "w' = w\<lparr>rw_cache := x\<rparr>"
    using load_link_coherent [OF assms r] by blast
  show ?thesis
  proof (cases r)
    case (Inl e)
    then show ?thesis using r x
      by (auto simp: serve_slug_def load_link_none agrees_def with_cache_def split: sum.splits)
  next
    case (Inr l)
    then obtain l' where l': "linkBySlug (rc_db (rw_recorder w)) slug = Inr l'" "same_redirect l l'"
      using x(1) by (auto simp: agrees_def split: sum.splits)
    have "serve_slug ou req host slug d w = serve_link ou req d l' w'"
      using r Inr serve_link_same [OF l'(2)] by (simp add: serve_slug_def)
    moreover have "serve_slug ou req host slug d (w\<lparr>rw_cache := None\<rparr>) = with_cache None (serve_link ou req d l' w)"
      using l'(1) serve_link_cache by (simp add: serve_slug_def load_link_none)
    moreover have "serve_link ou req d l' w' = with_cache x (serve_link ou req d l' w)"
      using x(3) serve_link_cache by simp
    moreover have "cache_coherent (snd (serve_link ou req d l' w'))"
      using cache_coherent_keeps [OF keeps_links_serve x(2)] .
    ultimately show ?thesis by (simp add: with_cache_def split: prod.split)
  qed
qed

section \<open>Properties\<close>

text \<open>C39: The cache cannot be noticed in a redirect. With a coherent cache, in front of any Redis that loses calls,
  every request gets the answer it would get without a cache and leaves the tables, the queue, the domains and
  the password attempts as it would without one; and the cache stays coherent, with the click counted.\<close>

theorem cache_is_transparent:
  assumes "cache_coherent w" and "CHR '':'' \<notin> set slug"
  shows "with_cache None (redirectSlug ou req slug w) = redirectSlug ou req slug (w\<lparr>rw_cache := None\<rparr>) \<and>
    cache_coherent (snd (redirectSlug ou req slug w))"
proof (cases "slug = [] \<or> CHR ''/'' \<in> set slug \<or> isReservedRootPath (CHR ''/'' # slug)")
  case True
  then show ?thesis using assms(1) by (auto simp: redirectSlug_def with_cache_def)
next
  case False
  obtain d w1 where d: "check_domain ou (request_host req) w = (d, w1)" by fastforce
  have w1: "cache_coherent w1" by (rule check_domain_coherent [OF assms(1) d])
  have "check_domain ou (request_host req) (w\<lparr>rw_cache := None\<rparr>) = (d, w1\<lparr>rw_cache := None\<rparr>)"
    using d by (simp add: check_domain_cache with_cache_def)
  then show ?thesis using False d w1 serve_slug_cache [OF w1 assms(2)]
    by (cases d) (simp_all add: redirectSlug_def with_cache_def)
qed


lemma protected_serve:
  assumes "linkBySlug (rc_db (rw_recorder w)) slug = Inr l" and "l_password_protected l" and "\<not> rr_access req (l_id l)"
    and "rw_cache w = None" and "serve_slug ou req host slug d w = (r, w')"
  shows "(r = Not_found \<and> w' = w) \<or> passwordGate ou req l w = (r, w')"
  using assms by (auto simp: serve_slug_def load_link_def serve_link_def split: if_splits)

lemma gate_answers:
  assumes "passwordGate ou req l w = (r, w')"
  shows "rw_recorder w' = rw_recorder w \<and> (r = Password_page False \<or> r = Password_page True \<or> r = Too_many_attempts \<or>
    (rr_method req = ''POST'' \<and> (\<exists>p. rr_password req = Some p \<and> ou_password_ok ou (l_password_hash l) p) \<and>
      (r = Access_granted (rr_uri req) \<or> r = Failed ''access token failed'')))"
  using assms by (auto simp: passwordGate_def Let_def split: if_splits prod.splits option.splits)

lemma check_domain_recorder: "check_domain ou host w = (d, w') \<Longrightarrow> rw_recorder w' = rw_recorder w"
  by (auto simp: check_domain_def Let_def invalidateDomainRedirects_def split: if_splits option.splits)


section \<open>A sample\<close>

definition sample_outside :: outside where
  "sample_outside = \<lparr>ou_base_host = ''s.example.com'', ou_now = 1000, ou_txt = (\<lambda>_. []), ou_parse = (\<lambda>_. None),
     ou_print = (\<lambda>_. []), ou_scrub = (\<lambda>u. u), ou_is_ip = (\<lambda>_. False),
     ou_event_id = ''0b1e5a4c-0000-4000-8000-000000000009'', ou_password_ok = (\<lambda>_ p. p = ''secret''), ou_token_ok = True,
     ou_publisher = None, ou_statements = [], ou_domain_saved = True\<rparr>"

definition sample_visit :: redirect_request where
  "sample_visit = \<lparr>rr_method = ''GET'', rr_host = ''S.example.com:443'', rr_uri = ''/s/promo'', rr_query = [],
     rr_country = ''de'', rr_connecting_ip = [], rr_remote_addr = ''192.0.2.1:5000'', rr_user_agent = ''Firefox/1'',
     rr_referer = [], rr_access = (\<lambda>_. False), rr_password = Some ''guess''\<rparr>"

definition sample_closed :: link where
  "sample_closed = sample_link\<lparr>l_id := 11, l_slug := ''closed'', l_password_protected := True, l_password_hash := ''hash''\<rparr>"

definition sample_world :: redirect_state where
  "sample_world = \<lparr>rw_domains = [], rw_cache = Some (empty_redis, no_metrics),
     rw_recorder = \<lparr>rc_db = sample_db\<lparr>cd_links := cd_links sample_db @ [sample_closed]\<rparr>, rc_queue = [], rc_fallbacks = 0\<rparr>,
     rw_limiter = no_attempts\<rparr>"

lemma sample_world_coherent: "cache_coherent sample_world"
  by (simp add: cache_coherent_def sample_world_def coherent_def redis_live_def empty_redis_def)

theorem cache_is_transparent_witness:
  "with_cache None (redirectSlug sample_outside sample_visit ''promo'' sample_world) =
     redirectSlug sample_outside sample_visit ''promo'' (sample_world\<lparr>rw_cache := None\<rparr>) \<and>
   fst (redirectSlug sample_outside sample_visit ''promo'' sample_world) = Found_at 302 ''https://example.com/''"
proof -
  have "fst (redirectSlug sample_outside sample_visit ''promo'' sample_world) = Found_at 302 ''https://example.com/''"
    by code_simp
  then show ?thesis using cache_is_transparent [OF sample_world_coherent, of "''promo''"] by simp
qed


end
