(* ===== verification/LinkStore.thy ===== *)
theory LinkStore
  imports Database
begin

text \<open>
  The queries on the links table (\<open>internal/store/store.go\<close>): listing, paging, lookup by id and by
  a list of ids, deletion of one link and of many, each under the caller's scope. The listing
  meets the contract \<open>probe_listing\<close>, the chunked lookup is shown to be a plain one, and a bulk
  deletion is shown to be all or nothing.
\<close>

section \<open>Listing links\<close>

definition hydrateLinkCreators :: "user list \<Rightarrow> link list \<Rightarrow> link list" where
  "hydrateLinkCreators users links =
     map (\<lambda>l. case find (\<lambda>u. u_id u = l_user_id l) users of None \<Rightarrow> l
              | Some u \<Rightarrow> l\<lparr>l_creator_name := u_name u, l_creator_email := u_email u\<rparr>) links"

definition listLinks :: "store \<Rightarrow> user \<Rightarrow> nat \<Rightarrow> int \<Rightarrow> store_error + link list" where
  "listLinks s u limit cursor =
     (case view_scope u False of None \<Rightarrow> Inl Panicked
      | Some in_scope \<Rightarrow>
          (let selected = order_desc l_id (filter (\<lambda>l. l_deleted_at l = None \<and> in_scope l \<and>
                                                  (cursor > 0 \<longrightarrow> l_id l < cursor)) (s_links s));
               out = (if limit > 0 then take limit selected else selected)
           in Inr (if u_role u = ''superadmin'' \<or> u_role u = ''tenant''
                   then hydrateLinkCreators (s_users s) out else out)))"

definition listLinksPage :: "store \<Rightarrow> user \<Rightarrow> int \<Rightarrow> int \<Rightarrow> store_error + link page" where
  "listLinksPage s u limit cursor =
     (let lim = nat (if limit < 1 \<or> limit > 500 then 100 else limit)
      in case listLinks s u (lim + 1) cursor of Inl e \<Rightarrow> Inl e
         | Inr links \<Rightarrow> Inr (probe_page l_id lim links))"

text \<open>The handler \<open>linksPage\<close>, without the addition of the short URLs: the status and the page.\<close>

definition linksPage :: "string \<Rightarrow> store \<Rightarrow> user \<Rightarrow> query \<Rightarrow> int \<times> link page option" where
  "linksPage http_method s u q =
     (if http_method \<noteq> ''GET'' then (405, None)
      else case limit_param 100 500 q of None \<Rightarrow> (400, None)
      | Some limit \<Rightarrow>
        (case cursor_param q of None \<Rightarrow> (400, None)
         | Some cursor \<Rightarrow>
           (case listLinksPage s u limit cursor of Inl _ \<Rightarrow> (500, None)
            | Inr page \<Rightarrow> (200, Some page))))"

section \<open>The listing meets the contract\<close>

type_synonym link_request = "store \<times> user \<times> query"

definition link_request_ok :: "link_request \<Rightarrow> bool" where
  "link_request_ok = (\<lambda>(s, u, q).
     wf_store s \<and> view_scope u False \<noteq> None \<and> limit_param 100 500 q \<noteq> None)"

definition link_rows :: "link_request \<Rightarrow> link list" where
  \<comment> \<open>everything the user may see: \<open>ListLinks\<close>, the unpaginated listing\<close>
  "link_rows = (\<lambda>(s, u, q). case listLinks s u 0 0 of Inl _ \<Rightarrow> [] | Inr ls \<Rightarrow> ls)"

definition link_fetch :: "link_request \<Rightarrow> int \<Rightarrow> link page" where
  "link_fetch = (\<lambda>(s, u, q) c. case snd (linksPage ''GET'' s u (with_cursor c q)) of
     None \<Rightarrow> \<lparr>items = [], next_cursor = 0\<rparr> | Some p \<Rightarrow> p)"

definition link_limit :: "link_request \<Rightarrow> nat" where
  "link_limit = (\<lambda>(s, u, q). nat (the (limit_param 100 500 q)))"

lemma hydrate_row_id [simp]:
  "l_id (case w of None \<Rightarrow> l | Some u \<Rightarrow> l\<lparr>l_creator_name := n u, l_creator_email := e u\<rparr>) = l_id l"
  by (simp split: option.split)

lemma hydrate_id [simp]: "map l_id (hydrateLinkCreators us ls) = map l_id ls"
  by (simp add: hydrateLinkCreators_def)

lemma take_hydrate: "take n (hydrateLinkCreators us ls) = hydrateLinkCreators us (take n ls)"
  by (simp add: hydrateLinkCreators_def take_map)

lemma after_cursor_hydrate:
  "after_cursor l_id c (hydrateLinkCreators us ls) = hydrateLinkCreators us (after_cursor l_id c ls)"
  by (simp add: after_cursor_def hydrateLinkCreators_def filter_map o_def)

text \<open>A page below a cursor is the full listing, cut to the rows below the cursor and to the limit.\<close>

lemma listLinks_cut:
  assumes "listLinks s u 0 0 = Inr all" and "0 \<le> c" and "0 < n"
  shows "listLinks s u n c = Inr (take n (after_cursor l_id c all))"
proof -
  obtain f where f: "view_scope u False = Some f"
    using assms(1) by (auto simp: listLinks_def split: option.splits)
  let ?base = "filter (\<lambda>l. l_deleted_at l = None \<and> f l) (s_links s)"
  have sel: "order_desc l_id (filter (\<lambda>l. l_deleted_at l = None \<and> f l \<and> (c > 0 \<longrightarrow> l_id l < c)) (s_links s)) =
             after_cursor l_id c (order_desc l_id ?base)"
    using assms(2) unfolding after_cursor_def filter_order_desc filter_filter
    by (intro arg_cong [of _ _ "order_desc l_id"] filter_cong) auto
  show ?thesis
    using assms f
    by (auto simp: listLinks_def Let_def sel after_cursor_hydrate take_hydrate)
qed

lemma link_rows_listing:
  "link_request_ok (s, u, q) \<Longrightarrow> listLinks s u 0 0 = Inr (link_rows (s, u, q))"
  by (auto simp: link_rows_def link_request_ok_def listLinks_def Let_def)

lemma link_rows_ids:
  assumes "view_scope u False = Some f"
  shows "map l_id (link_rows (s, u, q)) =
    map l_id (order_desc l_id (filter (\<lambda>l. l_deleted_at l = None \<and> f l) (s_links s)))"
  using assms by (simp add: link_rows_def listLinks_def Let_def)

interpretation link_pages: probe_listing link_request_ok link_rows l_id link_fetch link_limit
proof
  fix k :: link_request and c :: int
  assume k: "link_request_ok k"
  obtain s u q where kk: "k = (s, u, q)" by (cases k) auto
  obtain f where f: "view_scope u False = Some f" using k by (auto simp: kk link_request_ok_def)
  have wf: "wf_ids l_id (filter (\<lambda>l. l_deleted_at l = None \<and> f l) (s_links s))"
    using k by (auto simp: kk link_request_ok_def intro: wf_ids_filter)
  note ids = link_rows_ids [OF f, of s q, folded kk]
  have "sorted_wrt (\<lambda>i j. j < i) (map l_id (link_rows k))"
    using wf_ids_sorted [OF wf] by (simp add: ids sorted_wrt_map)
  then show "sorted_wrt (\<lambda>x y. l_id y < l_id x) (link_rows k)" by (simp add: sorted_wrt_map)
  show "0 < l_id x \<and> l_id x < 2 ^ 53" if x: "x \<in> set (link_rows k)" for x
  proof -
    have "l_id x \<in> set (map l_id (link_rows k))" using x by simp
    then obtain y where y: "y \<in> set (filter (\<lambda>l. l_deleted_at l = None \<and> f l) (s_links s))" "l_id y = l_id x"
      unfolding ids by auto
    from wf_ids_range [OF wf this(1)] show ?thesis unfolding y(2) .
  qed
  obtain lim where lim: "limit_param 100 500 q = Some lim" "1 \<le> lim" "lim \<le> 500"
    using k limit_param_range [of 100 500 q] by (auto simp: link_request_ok_def kk)
  then show "0 < link_limit k" by (simp add: link_limit_def kk)
  assume c: "cursor_ok c"
  have "listLinks s u (Suc (nat lim)) c = Inr (take (Suc (nat lim)) (after_cursor l_id c (link_rows k)))"
    using listLinks_cut [OF link_rows_listing] k c by (simp add: kk cursor_ok_def)
  then show "link_fetch k c = probe_page l_id (link_limit k)
      (take (Suc (link_limit k)) (after_cursor l_id c (link_rows k)))"
    using lim c
    by (simp add: link_fetch_def link_limit_def kk linksPage_def listLinksPage_def with_cursor_param Let_def)
qed

section \<open>Lookup\<close>

definition linkByID :: "store \<Rightarrow> user \<Rightarrow> int \<Rightarrow> store_error + link" where
  "linkByID s u i =
     (case view_scope u False of None \<Rightarrow> Inl Panicked
      | Some in_scope \<Rightarrow>
          (case find (\<lambda>l. l_id l = i \<and> l_deleted_at l = None \<and> in_scope l) (s_links s) of
             None \<Rightarrow> Inl NoRows | Some l \<Rightarrow> Inr l))"

text \<open>\<open>LinksByIDs\<close> asks for the ids in chunks of 500, collects the rows in a map, and reads the map
  in the order of the ids. \<open>chunk\<close> is positive in the code.\<close>

function chunks :: "nat \<Rightarrow> 'a list \<Rightarrow> 'a list list" where
  "chunks n xs = (if xs = [] \<or> n = 0 then [] else take n xs # chunks n (drop n xs))"
  by pat_completeness auto

termination by (relation "measure (\<lambda>(n, xs). length xs)") auto

declare chunks.simps [simp del]

definition collect_chunk :: "link list \<Rightarrow> (link \<Rightarrow> bool) \<Rightarrow> int list \<Rightarrow> (int \<rightharpoonup> link) \<Rightarrow> (int \<rightharpoonup> link)" where
  "collect_chunk table in_scope ids byID =
     foldl (\<lambda>m l. m(l_id l \<mapsto> l)) byID
       (filter (\<lambda>l. l_deleted_at l = None \<and> l_id l \<in> set ids \<and> in_scope l) table)"

fun read_in_order :: "(int \<rightharpoonup> link) \<Rightarrow> int list \<Rightarrow> store_error + link list" where
  "read_in_order byID [] = Inr []"
| "read_in_order byID (i # ids) =
     (case byID i of None \<Rightarrow> Inl NoRows
      | Some l \<Rightarrow> (case read_in_order byID ids of Inl e \<Rightarrow> Inl e | Inr ls \<Rightarrow> Inr (l # ls)))"

definition linksByIDs :: "store \<Rightarrow> user \<Rightarrow> int list \<Rightarrow> store_error + link list" where
  "linksByIDs s u ids =
     (if ids = [] then Inr []
      else case view_scope u False of None \<Rightarrow> Inl Panicked
      | Some in_scope \<Rightarrow>
          read_in_order (foldl (\<lambda>m c. collect_chunk (s_links s) in_scope c m) Map.empty (chunks 500 ids)) ids)"

section \<open>Deletion\<close>

definition deleteLink :: "int \<Rightarrow> store \<Rightarrow> user \<Rightarrow> int \<Rightarrow> store_error + store" where
  "deleteLink now s u i =
     (case manage_scope u of None \<Rightarrow> Inl Panicked
      | Some managed \<Rightarrow>
          (let hit = (\<lambda>l. l_id l = i \<and> l_deleted_at l = None \<and> managed l) in
           if filter hit (s_links s) = [] then Inl NoRows
           else Inr (s\<lparr>s_links := map (\<lambda>l. if hit l then l\<lparr>l_deleted_at := Some now\<rparr> else l) (s_links s)\<rparr>)))"

definition deleteLinksBulk :: "int \<Rightarrow> store \<Rightarrow> user \<Rightarrow> int list \<Rightarrow> store_error + store" where
  "deleteLinksBulk now s u ids =
     (if ids = [] then Inr s
      else case manage_scope u of None \<Rightarrow> Inl Panicked
      | Some managed \<Rightarrow>
          (let hit = (\<lambda>l. l_deleted_at l = None \<and> l_id l \<in> set ids \<and> managed l) in
           if length (filter hit (s_links s)) \<noteq> length ids then Inl NoRows
           else Inr (s\<lparr>s_links := map (\<lambda>l. if hit l then l\<lparr>l_deleted_at := Some now\<rparr> else l) (s_links s)\<rparr>)))"


section \<open>Lookup by a list of ids\<close>

text \<open>The reference: look every id up on its own, stop at the first that is missing.\<close>

fun lookup_all :: "store \<Rightarrow> user \<Rightarrow> int list \<Rightarrow> store_error + link list" where
  "lookup_all s u [] = Inr []"
| "lookup_all s u (i # ids) =
     (case linkByID s u i of Inl e \<Rightarrow> Inl e
      | Inr l \<Rightarrow> (case lookup_all s u ids of Inl e \<Rightarrow> Inl e | Inr ls \<Rightarrow> Inr (l # ls)))"

lemma concat_chunks: "0 < n \<Longrightarrow> concat (chunks n xs) = xs"
  by (induction n xs rule: chunks.induct) (subst chunks.simps, auto)

lemma collect_rows_lookup:
  "wf_ids l_id xs \<Longrightarrow>
   foldl (\<lambda>m l. m(l_id l \<mapsto> l)) m xs i = (case find (\<lambda>l. l_id l = i) xs of None \<Rightarrow> m i | Some l \<Rightarrow> Some l)"
proof (induction xs arbitrary: m)
  case Nil
  then show ?case by simp
next
  case (Cons x xs)
  have "find (\<lambda>l. l_id l = i) xs = None" if "l_id x = i"
    using Cons.prems that unfolding find_None_iff wf_ids_def by (auto simp: image_iff)
  with Cons show ?case by (auto simp: wf_ids_def)
qed

lemma find_filter: "find P (filter Q xs) = find (\<lambda>x. Q x \<and> P x) xs"
  by (induction xs) auto

definition visible :: "(link \<Rightarrow> bool) \<Rightarrow> int \<Rightarrow> link \<Rightarrow> bool" where
  "visible in_scope i l \<longleftrightarrow> l_id l = i \<and> l_deleted_at l = None \<and> in_scope l"

lemma collect_chunk_lookup:
  assumes "wf_ids l_id table"
  shows "collect_chunk table f ids m i =
    (if i \<in> set ids then (case find (visible f i) table of None \<Rightarrow> m i | Some l \<Rightarrow> Some l) else m i)"
proof -
  have eq: "find (\<lambda>l. l_deleted_at l = None \<and> l_id l \<in> set ids \<and> f l \<and> l_id l = i) table =
      (if i \<in> set ids then find (visible f i) table else None)"
    by (auto simp: visible_def find_None_iff intro!: find_cong)
  show ?thesis
    using collect_rows_lookup [OF wf_ids_filter [OF assms]]
    by (simp add: collect_chunk_def find_filter eq)
qed

lemma collect_chunks_lookup:
  assumes "wf_ids l_id table"
  shows "foldl (\<lambda>m c. collect_chunk table f c m) m cs i =
    (if i \<in> set (concat cs) then (case find (visible f i) table of None \<Rightarrow> m i | Some l \<Rightarrow> Some l) else m i)"
  by (induction cs arbitrary: m) (auto simp: collect_chunk_lookup [OF assms] split: option.split)

lemma linkByID_visible:
  "view_scope u False = Some f \<Longrightarrow>
   linkByID s u i = (case find (visible f i) (s_links s) of None \<Rightarrow> Inl NoRows | Some l \<Rightarrow> Inr l)"
  by (simp add: linkByID_def visible_def [abs_def])

lemma read_in_order_lookup:
  assumes "view_scope u False = Some f" and "\<forall>i \<in> set ids. byID i = find (visible f i) (s_links s)"
  shows "read_in_order byID ids = lookup_all s u ids"
  using assms(2)
  by (induction ids) (auto simp: linkByID_visible [OF assms(1)] split: option.split)

lemma linksByIDs_lookup:
  assumes "wf_ids l_id (s_links s)"
  shows "linksByIDs s u ids = lookup_all s u ids"
proof (cases "ids = [] \<or> view_scope u False = None")
  case True
  then show ?thesis by (cases ids) (auto simp: linksByIDs_def linkByID_def)
next
  case False
  then obtain f where f: "view_scope u False = Some f" by auto
  have "\<forall>i \<in> set ids. foldl (\<lambda>m c. collect_chunk (s_links s) f c m) Map.empty (chunks 500 ids) i =
      find (visible f i) (s_links s)"
    using assms by (auto simp: collect_chunks_lookup concat_chunks split: option.split)
  from read_in_order_lookup [OF f this] False f show ?thesis by (simp add: linksByIDs_def)
qed

section \<open>What a deletion does\<close>

definition mark_deleted :: "int \<Rightarrow> int set \<Rightarrow> store \<Rightarrow> store" where
  "mark_deleted now ids s =
     s\<lparr>s_links := map (\<lambda>l. if l_id l \<in> ids \<and> l_deleted_at l = None then l\<lparr>l_deleted_at := Some now\<rparr> else l)
                     (s_links s)\<rparr>"

definition deletable :: "store \<Rightarrow> user \<Rightarrow> int \<Rightarrow> bool" where
  "deletable s u i \<longleftrightarrow>
     (\<exists>l \<in> set (s_links s). l_id l = i \<and> l_deleted_at l = None \<and>
        (case manage_scope u of None \<Rightarrow> False | Some managed \<Rightarrow> managed l))"

lemma mark_deleted_ids [simp]: "map l_id (s_links (mark_deleted now ids s)) = map l_id (s_links s)"
  "map l_slug (s_links (mark_deleted now ids s)) = map l_slug (s_links s)"
  by (simp_all add: mark_deleted_def)

lemma wf_ids_map: "map ident ys = map ident xs \<Longrightarrow> wf_ids ident xs \<Longrightarrow> wf_ids ident ys"
  unfolding wf_ids_def by (metis (no_types, lifting) imageE image_eqI list.set_map)

lemma mark_deleted_wf: "wf_store s \<Longrightarrow> wf_store (mark_deleted now ids s)"
  using wf_ids_map [OF mark_deleted_ids(1)] mark_deleted_ids(2)
  by (auto simp: wf_store_def) (simp_all add: mark_deleted_def)

text \<open>Under \<open>wf_store\<close> the scope condition adds nothing once every id is deletable.\<close>

lemma deletable_scope:
  assumes "wf_store s" and "manage_scope u = Some managed" and "\<forall>i \<in> ids. deletable s u i"
    and "l \<in> set (s_links s)" and "l_id l \<in> ids" and "l_deleted_at l = None"
  shows "managed l"
proof -
  obtain l' where "l' \<in> set (s_links s)" "l_id l' = l_id l" "managed l'"
    using assms by (auto simp: deletable_def)
  moreover have "l' = l"
    using calculation wf_ids_inj [OF wf_store_ids(2) [OF assms(1)]] assms(4) by simp
  ultimately show ?thesis by simp
qed

lemma mark_deleted_scoped:
  assumes "wf_store s" and "manage_scope u = Some managed" and "\<forall>i \<in> ids. deletable s u i"
    and "\<And>l. hit l \<longleftrightarrow> l_deleted_at l = None \<and> l_id l \<in> ids \<and> managed l"
  shows "s\<lparr>s_links := map (\<lambda>l. if hit l then l\<lparr>l_deleted_at := Some now\<rparr> else l) (s_links s)\<rparr> =
         mark_deleted now ids s"
proof -
  have "hit l \<longleftrightarrow> l_id l \<in> ids \<and> l_deleted_at l = None" if "l \<in> set (s_links s)" for l
    unfolding assms(4) using deletable_scope [OF assms(1-3) that] by blast
  then have "map (\<lambda>l. if hit l then l\<lparr>l_deleted_at := Some now\<rparr> else l) (s_links s) =
      s_links (mark_deleted now ids s)"
    unfolding mark_deleted_def by (simp cong: map_cong)
  then show ?thesis by (simp add: mark_deleted_def)
qed

lemma deleteLink_ok:
  assumes wf: "wf_store s"
  shows "deleteLink now s u i = Inr s' \<longleftrightarrow> deletable s u i \<and> s' = mark_deleted now {i} s"
proof (cases "manage_scope u")
  case None
  then show ?thesis by (simp add: deleteLink_def deletable_def)
next
  case (Some managed)
  define hit where "hit = (\<lambda>l. l_id l = i \<and> l_deleted_at l = None \<and> managed l)"
  have e: "deletable s u i \<longleftrightarrow> filter hit (s_links s) \<noteq> []"
    using Some unfolding deletable_def hit_def filter_empty_conv by auto
  have d: "deleteLink now s u i = (if filter hit (s_links s) = [] then Inl NoRows
      else Inr (s\<lparr>s_links := map (\<lambda>l. if hit l then l\<lparr>l_deleted_at := Some now\<rparr> else l) (s_links s)\<rparr>))"
    by (simp add: deleteLink_def Some Let_def hit_def)
  show ?thesis
  proof (cases "deletable s u i")
    case True
    have "s\<lparr>s_links := map (\<lambda>l. if hit l then l\<lparr>l_deleted_at := Some now\<rparr> else l) (s_links s)\<rparr> =
        mark_deleted now {i} s"
      using True by (intro mark_deleted_scoped [OF wf Some]) (auto simp: hit_def)
    with True e show ?thesis unfolding d by auto
  next
    case False
    then show ?thesis using e unfolding d by simp
  qed
qed

lemma deletable_hits:
  assumes "wf_ids l_id (s_links s)" and "manage_scope u = Some managed"
  shows "length (filter (\<lambda>l. l_deleted_at l = None \<and> l_id l \<in> set ids \<and> managed l) (s_links s)) =
         card {i \<in> set ids. deletable s u i}"
proof -
  let ?hits = "filter (\<lambda>l. l_deleted_at l = None \<and> l_id l \<in> set ids \<and> managed l) (s_links s)"
  have "distinct (map l_id ?hits)"
    using wf_ids_filter [OF assms(1)] by (simp add: wf_ids_def)
  from distinct_card [OF this] have "length ?hits = card (set (map l_id ?hits))"
    by (simp only: length_map)
  also have "set (map l_id ?hits) = {i \<in> set ids. deletable s u i}"
    unfolding deletable_def assms(2) option.case set_map set_filter by blast
  finally show ?thesis .
qed

lemma card_all:
  assumes "card {i \<in> set ids. P i} = length ids"
  shows "distinct ids" and "\<forall>i \<in> set ids. P i"
proof -
  have "card {i \<in> set ids. P i} \<le> card (set ids)" by (intro card_mono) auto
  with assms card_length [of ids] have "card (set ids) = length ids" by linarith
  then show d: "distinct ids" by (rule card_distinct)
  have "{i \<in> set ids. P i} = set ids"
    using assms d by (intro card_subset_eq) (auto simp: distinct_card)
  then show "\<forall>i \<in> set ids. P i" by blast
qed

lemma deleteLinksBulk_ok:
  assumes wf: "wf_store s"
  shows "deleteLinksBulk now s u ids = Inr s' \<longleftrightarrow>
    distinct ids \<and> (\<forall>i \<in> set ids. deletable s u i) \<and> s' = mark_deleted now (set ids) s"
proof -
  consider "ids = []" | i js where "ids = i # js" "manage_scope u = None"
    | managed where "ids \<noteq> []" "manage_scope u = Some managed"
    by (cases ids; cases "manage_scope u") auto
  then show ?thesis
  proof cases
    case 1
    then show ?thesis by (auto simp: deleteLinksBulk_def mark_deleted_def)
  next
    case 2
    then show ?thesis by (auto simp: deleteLinksBulk_def deletable_def)
  next
    case 3
    define hit where "hit = (\<lambda>l. l_deleted_at l = None \<and> l_id l \<in> set ids \<and> managed l)"
    have d: "deleteLinksBulk now s u ids = (if length (filter hit (s_links s)) \<noteq> length ids then Inl NoRows
        else Inr (s\<lparr>s_links := map (\<lambda>l. if hit l then l\<lparr>l_deleted_at := Some now\<rparr> else l) (s_links s)\<rparr>))"
      by (simp add: deleteLinksBulk_def 3 Let_def hit_def)
    have cnt: "length (filter hit (s_links s)) = card {i \<in> set ids. deletable s u i}"
      unfolding hit_def by (rule deletable_hits [OF wf_store_ids(2) [OF wf] 3(2)])
    show ?thesis
    proof (cases "distinct ids \<and> (\<forall>i \<in> set ids. deletable s u i)")
      case True
      then have "{i \<in> set ids. deletable s u i} = set ids" by blast
      with True have "length (filter hit (s_links s)) = length ids" by (simp add: cnt distinct_card)
      moreover have "s\<lparr>s_links := map (\<lambda>l. if hit l then l\<lparr>l_deleted_at := Some now\<rparr> else l) (s_links s)\<rparr> =
          mark_deleted now (set ids) s"
        using True by (intro mark_deleted_scoped [OF wf 3(2)]) (auto simp: hit_def)
      ultimately show ?thesis using True unfolding d by auto
    next
      case False
      then have "length (filter hit (s_links s)) \<noteq> length ids"
        using card_all [of ids "deletable s u"] unfolding cnt by blast
      with False show ?thesis unfolding d by auto
    qed
  qed
qed

text \<open>Deleting one after the other, giving up at the first failure.\<close>

fun delete_each :: "int \<Rightarrow> store \<Rightarrow> user \<Rightarrow> int list \<Rightarrow> store_error + store" where
  "delete_each now s u [] = Inr s"
| "delete_each now s u (i # ids) =
     (case deleteLink now s u i of Inl e \<Rightarrow> Inl e | Inr s' \<Rightarrow> delete_each now s' u ids)"

lemma mark_deleted_empty [simp]: "mark_deleted now {} s = s"
  by (simp add: mark_deleted_def)

lemma mark_deleted_again:
  "mark_deleted now js (mark_deleted now is s) = mark_deleted now (is \<union> js) s"
  by (auto simp: mark_deleted_def)

lemma mark_deleted_row:
  "l \<in> set (s_links (mark_deleted now is s)) \<longleftrightarrow>
   (\<exists>l0 \<in> set (s_links s). l = (if l_id l0 \<in> is \<and> l_deleted_at l0 = None then l0\<lparr>l_deleted_at := Some now\<rparr> else l0))"
proof -
  have "s_links (mark_deleted now is s) = map (\<lambda>l0. if l_id l0 \<in> is \<and> l_deleted_at l0 = None
      then l0\<lparr>l_deleted_at := Some now\<rparr> else l0) (s_links s)"
    by (simp add: mark_deleted_def)
  then show ?thesis by (simp only: set_map image_iff)
qed

lemma active_after_mark:
  "(l \<in> set (s_links (mark_deleted now is s)) \<and> l_deleted_at l = None) \<longleftrightarrow>
   l \<in> set (s_links s) \<and> l_deleted_at l = None \<and> l_id l \<notin> is"
  unfolding mark_deleted_row
  by (auto split: if_splits dest: arg_cong [of _ _ l_deleted_at] intro!: bexI [of _ l])

lemma deletable_after_mark: "deletable (mark_deleted now is s) u j \<longleftrightarrow> j \<notin> is \<and> deletable s u j"
  unfolding deletable_def using active_after_mark [of _ now "is" s] by metis

lemma deleteLink_error: "deleteLink now s u i = Inl e \<Longrightarrow> e = (if manage_scope u = None then Panicked else NoRows)"
  by (auto simp: deleteLink_def Let_def split: option.splits if_splits)

lemma deleteLinksBulk_error:
  "deleteLinksBulk now s u ids = Inl e \<Longrightarrow> e = (if manage_scope u = None then Panicked else NoRows)"
  by (auto simp: deleteLinksBulk_def Let_def split: option.splits if_splits)

lemma deletable_managed: "deletable s u i \<Longrightarrow> manage_scope u \<noteq> None"
  by (cases "manage_scope u") (simp_all add: deletable_def)

lemma deleteLink_cases:
  assumes "wf_store s"
  shows "deleteLink now s u i =
    (if manage_scope u = None then Inl Panicked
     else if deletable s u i then Inr (mark_deleted now {i} s) else Inl NoRows)"
proof (cases "deleteLink now s u i")
  case (Inl e)
  then have "\<not> deletable s u i"
    using deleteLink_ok [OF assms, of now u i "mark_deleted now {i} s"] by simp
  with Inl deleteLink_error [OF Inl] show ?thesis by simp
next
  case (Inr s')
  then show ?thesis using deleteLink_ok [OF assms, of now u i s'] deletable_managed [of s u i] by simp
qed

lemma delete_each_cases:
  "wf_store s \<Longrightarrow> delete_each now s u ids =
    (if ids = [] then Inr s else if manage_scope u = None then Inl Panicked
     else if distinct ids \<and> (\<forall>i \<in> set ids. deletable s u i) then Inr (mark_deleted now (set ids) s)
     else Inl NoRows)"
proof (induction ids arbitrary: s)
  case Nil
  then show ?case by simp
next
  case (Cons i ids)
  have IH: "delete_each now (mark_deleted now {i} s) u ids =
    (if ids = [] then Inr (mark_deleted now {i} s) else if manage_scope u = None then Inl Panicked
     else if distinct ids \<and> (\<forall>j \<in> set ids. deletable (mark_deleted now {i} s) u j)
          then Inr (mark_deleted now (set ids) (mark_deleted now {i} s)) else Inl NoRows)"
    using Cons.IH mark_deleted_wf [OF Cons.prems] by blast
  show ?case
    by (cases "ids = []") (auto simp: deleteLink_cases [OF Cons.prems] IH deletable_after_mark mark_deleted_again)
qed

lemma deleteLinksBulk_cases:
  assumes "wf_store s"
  shows "deleteLinksBulk now s u ids =
    (if ids = [] then Inr s else if manage_scope u = None then Inl Panicked
     else if distinct ids \<and> (\<forall>i \<in> set ids. deletable s u i) then Inr (mark_deleted now (set ids) s)
     else Inl NoRows)"
proof (cases "deleteLinksBulk now s u ids")
  case (Inl e)
  then have "\<not> (distinct ids \<and> (\<forall>i \<in> set ids. deletable s u i))" "ids \<noteq> []"
    using deleteLinksBulk_ok [OF assms, of now u ids "mark_deleted now (set ids) s"]
    by (auto simp: deleteLinksBulk_def)
  with Inl deleteLinksBulk_error [OF Inl] show ?thesis by auto
next
  case (Inr s')
  then show ?thesis
    using deleteLinksBulk_ok [OF assms, of now u ids s'] deletable_managed [of s u "hd ids"]
    by (cases ids) auto
qed

lemma linkByID_ok:
  assumes "wf_store s" and "view_scope u False = Some f"
  shows "linkByID s u i = Inr l \<longleftrightarrow> l \<in> set (s_links s) \<and> visible f i l"
proof -
  have "find (visible f i) (s_links s) = Some l" if l: "l \<in> set (s_links s)" "visible f i l"
  proof (rule find_unique [of l])
    show "y = l" if "y \<in> set (s_links s)" "visible f i y" for y
      using wf_ids_inj [OF wf_store_ids(2) [OF assms(1)] that(1) l(1)] that(2) l(2)
      by (simp add: visible_def)
  qed (use l in simp_all)
  moreover have "l \<in> set (s_links s) \<and> visible f i l" if "find (visible f i) (s_links s) = Some l"
    using that by (rule find_SomeD)
  ultimately have "find (visible f i) (s_links s) = Some l \<longleftrightarrow> l \<in> set (s_links s) \<and> visible f i l"
    by blast
  then show ?thesis
    unfolding linkByID_visible [OF assms(2)] by (cases "find (visible f i) (s_links s)") simp_all
qed

section \<open>Properties\<close>

definition sample_store :: store where
  "sample_store =
     \<lparr>s_users = [sample_admin],
      s_links = [sample_link, sample_link\<lparr>l_id := 9, l_slug := ''sale''\<rparr>,
                 sample_link\<lparr>l_id := 8, l_slug := ''old'', l_deleted_at := Some 5\<rparr>],
      s_clicks = [], s_audit = [], s_audit_seq = 1\<rparr>"

lemma sample_store_wf [simp]: "wf_store sample_store"
  by (simp add: wf_store_def wf_ids_def sample_store_def sample_link_def sample_admin_def)

text \<open>C12: Paging through the links loses nothing and repeats nothing. For every user with a scope and
  every accepted page size, the pages shown by pressing Next until it is disabled are, put
  together, exactly the unpaginated listing, and none of them is empty unless the listing is.\<close>

theorem link_paging_complete:
  assumes "wf_store s" and "view_scope u False \<noteq> None" and "limit_param 100 500 q = Some limit"
  shows "\<exists>ls. listLinks s u 0 0 = Inr ls \<and>
    (\<forall>n > length ls. concat (visit (link_fetch (s, u, q)) n reset_pager) = ls) \<and>
    (ls \<noteq> [] \<longrightarrow> (\<forall>n. [] \<notin> set (visit (link_fetch (s, u, q)) n reset_pager)))"
proof -
  have ok: "link_request_ok (s, u, q)" using assms by (simp add: link_request_ok_def)
  show ?thesis
    using link_rows_listing [OF ok] link_pages.visit_complete [OF ok]
      link_pages.visit_no_empty [OF ok _ link_pages.limit_positive [OF ok]]
    by blast
qed

theorem link_paging_complete_witness:
  "\<exists>ls. listLinks sample_store sample_admin 0 0 = Inr ls \<and>
    (\<forall>n > length ls. concat (visit (link_fetch (sample_store, sample_admin, (\<lambda>_. [])(''limit'' := ''1'')))
       n reset_pager) = ls) \<and>
    (ls \<noteq> [] \<longrightarrow> (\<forall>n. [] \<notin> set (visit (link_fetch
       (sample_store, sample_admin, (\<lambda>_. [])(''limit'' := ''1''))) n reset_pager)))"
  by (rule link_paging_complete [where limit = 1])
    (simp_all add: view_scope_def sample_admin_def limit_param_def parse_int64_def parse_nat_def
      digit_val_def)

text \<open>The chunked lookup is a plain one. \<open>LinksByIDs\<close>, which asks in chunks of 500 ids and
  reassembles the answers, returns for every list of ids what looking the ids up one by one
  returns, in the order of the ids and with duplicates, and fails exactly when one of them does.\<close>

theorem links_by_ids_equiv:
  assumes "wf_store s"
  shows "linksByIDs s u ids = lookup_all s u ids"
  by (rule linksByIDs_lookup [OF wf_store_ids(2) [OF assms]])

theorem links_by_ids_equiv_witness:
  "linksByIDs sample_store sample_admin [9, 7, 9] = lookup_all sample_store sample_admin [9, 7, 9]"
  by (rule links_by_ids_equiv) simp

text \<open>C15: A bulk deletion is all or nothing, and does what deleting the links one after the other
  does: it succeeds exactly when every single deletion in the sequence does, with the same
  tables, and otherwise reports the same error and leaves the tables as they were.\<close>

theorem bulk_delete_equiv:
  assumes "wf_store s"
  shows "deleteLinksBulk now s u ids = delete_each now s u ids"
  by (simp add: deleteLinksBulk_cases [OF assms] delete_each_cases [OF assms])

theorem bulk_delete_equiv_witness:
  "deleteLinksBulk 100 sample_store sample_admin [9, 7] = delete_each 100 sample_store sample_admin [9, 7]"
  by (rule bulk_delete_equiv) simp

text \<open>A deletion hides one link and nothing else. After \<open>DeleteLink\<close> succeeds the link cannot be
  looked up by anyone, every other lookup of every user gives what it gave before, and the
  tables stay well formed.\<close>

theorem delete_hides_one_link:
  assumes "wf_store s" and "deleteLink now s u i = Inr s'"
  shows "wf_store s' \<and>
    (\<forall>v j. linkByID s' v j = (if j = i \<and> view_scope v False \<noteq> None then Inl NoRows else linkByID s v j))"
proof -
  have s': "s' = mark_deleted now {i} s" using assms deleteLink_ok by blast
  have wf': "wf_store s'" unfolding s' using assms(1) by (rule mark_deleted_wf)
  have "linkByID s' v j = (if j = i \<and> view_scope v False \<noteq> None then Inl NoRows else linkByID s v j)" for v j
  proof (cases "view_scope v False")
    case None
    then show ?thesis by (simp add: linkByID_def)
  next
    case (Some f)
    have act: "l \<in> set (s_links s') \<and> visible f j l \<longleftrightarrow> l \<in> set (s_links s) \<and> visible f j l \<and> j \<noteq> i" for l
      using active_after_mark [of l now "{i}" s] by (auto simp: visible_def s')
    have iff: "linkByID s' v j = Inr l \<longleftrightarrow> linkByID s v j = Inr l \<and> j \<noteq> i" for l
      using act linkByID_ok [OF wf' Some] linkByID_ok [OF assms(1) Some] by blast
    have err: "linkByID t v j = Inl NoRows \<or> (\<exists>l. linkByID t v j = Inr l)" for t
      by (auto simp: linkByID_visible [OF Some] split: option.split)
    from iff err [of s] err [of s'] Some show ?thesis by (metis option.distinct(1) sum.distinct(1))
  qed
  with wf' show ?thesis by blast
qed

theorem delete_hides_one_link_witness:
  "wf_store (mark_deleted 100 {9} sample_store) \<and>
   (\<forall>v j. linkByID (mark_deleted 100 {9} sample_store) v j =
      (if j = 9 \<and> view_scope v False \<noteq> None then Inl NoRows else linkByID sample_store v j))"
proof (rule delete_hides_one_link [OF sample_store_wf])
  show "deleteLink 100 sample_store sample_admin 9 = Inr (mark_deleted 100 {9} sample_store)"
    by (simp add: deleteLink_def manage_scope_def sample_admin_def sample_store_def sample_link_def
        mark_deleted_def)
qed

end
