(* ===== verification/Rows.thy ===== *)
theory Rows
  imports Models
begin

text \<open>
  The HTML templates of the dashboard's lists (\<open>web/app.js\<close>), one definition per template
  literal, character for character. \<open>loc\<close> is \<open>Date.prototype.toLocaleString\<close> of the browser's
  locale, a parameter; the theorems assume it prints no markup.

  The lemmas \<open>..._markup\<close> show that the structure the browser sees in a row depends on flags the
  code computes, never on a title, a slug, an address or any other text a user typed.
\<close>

definition mid_dot :: string where
  "mid_dot = [CHR 0xC2, CHR 0xB7]"

definition right_arrow :: string where
  "right_arrow = [CHR 0xE2, CHR 0x86, CHR 0x92]"

definition newline :: "nat \<Rightarrow> string" where
  \<comment> \<open>a line break of a template literal and the indentation after it\<close>
  "newline k = CHR 0x0A # replicate k (CHR '' '')"

lemma inert_mid_dot [simp, html_safe]: "inert mid_dot"
  by (simp add: mid_dot_def)

lemma inert_right_arrow [simp, html_safe]: "inert right_arrow"
  by (simp add: right_arrow_def)

lemma inert_newline [simp, html_safe]: "inert (newline k)"
  by (auto simp: newline_def inert_def)

text \<open>\<open>canManageLink\<close> (\<open>web/reports.js\<close>).\<close>

definition canManageLink :: "me option \<Rightarrow> link \<Rightarrow> bool" where
  "canManageLink current l =
     (case current of None \<Rightarrow> False
      | Some u \<Rightarrow> me_role u = ''superadmin'' \<or> me_role u = ''tenant'' \<or> l_user_id l = me_id u)"

definition can_delete_now :: "me option \<Rightarrow> bool" where
  \<comment> \<open>\<open>currentUser && currentUser.can_delete\<close>\<close>
  "can_delete_now current = (case current of None \<Rightarrow> False | Some u \<Rightarrow> me_can_delete u)"

definition visibility_label :: "link \<Rightarrow> string" where
  "visibility_label l = (if l_visibility l = ''department'' then ''shared with ALVA'' else ''private'')"

section \<open>Links\<close>

definition home_link_row :: "link \<Rightarrow> piece list" where
  \<open>home_link_row x =
    [Lit (newline 4 @ ''<div class="row link-row home-link-row">'' @ newline 6 @ ''<div><b>''),
     Expr (esc_text (str_or (l_title x) (l_slug x))),
     Lit ''</b><a href="'', Expr (esc_text (l_short_url x)),
     Lit ''" target="_blank" rel="noopener">'', Expr (esc_text (l_short_url x)),
     Lit ''</a><div class="tiny">'', Expr (int_text (l_clicks x)),
     Lit ('' clicks '' @ mid_dot @ '' ''), Expr (esc_text (visibility_label x)),
     Lit (''</div></div>'' @ newline 6 @ ''<button class="secondary" onclick="openLinkReport(''),
     Expr (int_text (l_id x)),
     Lit ('')">Report</button>'' @ newline 6 @ ''<button class="secondary" onclick="qrForLink(''),
     Expr (int_text (l_id x)),
     Lit ('')">QR</button>'' @ newline 4 @ ''</div>'')]\<close>

definition home_links_html :: "link list \<Rightarrow> string" where
  \<open>home_links_html xs =
     str_or (concat (map (\<lambda>x. render (home_link_row x)) xs))
       ''<div class="empty">No links yet. Create first link above.</div>''\<close>

definition link_row :: "(int \<Rightarrow> string) \<Rightarrow> me option \<Rightarrow> link \<Rightarrow> piece list" where
  \<open>link_row loc current x =
    [Lit (newline 4 @ ''<div class="row link-row">'' @ newline 6 @ ''<div>'' @ newline 8 @ ''<b>''),
     Expr (esc_text (str_or (l_title x) (l_slug x))),
     Lit (''</b>'' @ newline 8 @ ''<a href="''), Expr (esc_text (l_short_url x)),
     Lit ''" target="_blank" rel="noopener">'', Expr (esc_text (l_short_url x)),
     Lit (''</a>'' @ newline 8 @ ''<div class="tiny">''), Expr (int_text (l_clicks x)),
     Lit ('' clicks '' @ mid_dot @ '' ''), Expr (esc_text (visibility_label x)),
     Lit (''</div>'' @ newline 8 @ ''<div class="tiny">Created ''), Expr (loc (l_created_at x)),
     Lit (''</div>'' @ newline 8 @ ''<div class="tiny original-url">''), Expr (esc_text (l_target_url x)),
     Lit (''</div>'' @ newline 8 @
       ''<button type="button" class="url-toggle" aria-expanded="false" onclick="toggleTargetURL(this)">Show full URL</button>'' @
       newline 8)] @
    (if l_creator_name x \<noteq> [] then
      [Lit ''<div class="tiny">Created by '', Expr (esc_text (l_creator_name x)),
       Lit '' &middot; '', Expr (esc_text (l_creator_email x)), Lit ''</div>''] else []) @
    [Lit (newline 6 @ ''</div>'' @ newline 6 @ ''<button class="secondary" onclick="openLinkReport(''),
     Expr (int_text (l_id x)), Lit ('')">Report</button>'' @ newline 6)] @
    (if canManageLink current x then
      [Lit ''<button class="secondary" onclick="editLink('', Expr (int_text (l_id x)),
       Lit '')">Edit</button>''] else []) @
    [Lit (newline 6 @ ''<button class="secondary" onclick="qrForLink(''), Expr (int_text (l_id x)),
     Lit ('')">QR</button>'' @ newline 6)] @
    (if canManageLink current x then
      (if can_delete_now current then
        [Lit ''<button class="danger" onclick="delLink('', Expr (int_text (l_id x)),
         Lit '')">Delete</button>'']
       else
        [Lit ''<button class="danger" disabled title="Deletion access must be activated by a superadmin">Delete locked</button>''])
     else []) @
    [Lit (newline 4 @ ''</div>'')]\<close>

definition links_html :: "(int \<Rightarrow> string) \<Rightarrow> me option \<Rightarrow> link list \<Rightarrow> string" where
  \<open>links_html loc current xs =
     str_or (concat (map (\<lambda>x. render (link_row loc current x)) xs))
       ''<div class="empty">No links yet. Create first link above.</div>''\<close>

section \<open>Keys, departments, domains\<close>

definition key_row :: "(int \<Rightarrow> string) \<Rightarrow> me option \<Rightarrow> api_key \<Rightarrow> piece list" where
  \<open>key_row loc current k =
    [Lit (newline 4 @ ''<div class="row one-action">'' @ newline 6 @ ''<div><b>''),
     Expr (esc_text (k_name k)), Lit ''</b><div class="tiny">'', Expr (esc_text (k_prefix k)),
     Lit ('' '' @ mid_dot @ '' ''), Expr (esc_text (k_scope k)), Lit ('' scope '' @ mid_dot @ '' ''),
     Expr (loc (k_created_at k)), Lit (''</div></div>'' @ newline 6)] @
    (if can_delete_now current then
      [Lit ''<button class="danger" onclick="delKey('', Expr (int_text (k_id k)), Lit '')">Revoke</button>'']
     else [Lit ''<button class="danger" disabled title="Deletion access required">Revoke locked</button>'']) @
    [Lit (newline 4 @ ''</div>'')]\<close>

definition keys_html :: "(int \<Rightarrow> string) \<Rightarrow> me option \<Rightarrow> api_key list \<Rightarrow> string" where
  \<open>keys_html loc current xs =
     str_or (concat (map (\<lambda>k. render (key_row loc current k)) xs)) ''<div class="empty">No API keys.</div>''\<close>

definition tenant_row :: "tenant \<Rightarrow> piece list" where
  \<open>tenant_row t =
    [Lit ''<div class="row no-actions"><div><b>'', Expr (esc_text (t_name t)),
     Lit ''</b><div class="tiny">id '', Expr (int_text (t_id t)), Lit ('' '' @ mid_dot @ '' ''),
     Expr (esc_text (t_slug t)), Lit ''</div></div></div>'']\<close>

definition tenants_html :: "tenant list \<Rightarrow> string" where
  \<open>tenants_html xs =
     str_or (concat (map (\<lambda>t. render (tenant_row t)) xs)) ''<div class="empty">No departments.</div>''\<close>

definition domain_row :: "me option \<Rightarrow> tenant_domain \<Rightarrow> piece list" where
  \<open>domain_row current d =
    [Lit (newline 4 @ ''<div class="row">'' @ newline 6 @ ''<div><b>''), Expr (esc_text (d_domain d)),
     Lit ''</b><div class="tiny">'', Expr (esc_text (d_status d)),
     Lit ('' '' @ mid_dot @ '' department ''), Expr (int_text (d_tenant_id d)),
     Lit ''<br>TXT _shortq.'', Expr (esc_text (d_domain d)), Lit '' = shortq-verify='',
     Expr (esc_text (d_verification_token d)), Lit (''</div></div>'' @ newline 6 @
       ''<button class="secondary" onclick="verifyDomain(''),
     Expr (int_text (d_id d)), Lit ('')">Verify</button>'' @ newline 6)] @
    (if can_delete_now current then
      [Lit ''<button class="danger" onclick="delDomain('', Expr (int_text (d_id d)), Lit '')">Delete</button>'']
     else [Lit ''<button class="danger" disabled title="Deletion access required">Delete locked</button>'']) @
    [Lit (newline 4 @ ''</div>'')]\<close>

definition domains_html :: "me option \<Rightarrow> tenant_domain list \<Rightarrow> string" where
  \<open>domains_html current xs =
     str_or (concat (map (\<lambda>d. render (domain_row current d)) xs)) ''<div class="empty">No custom domains.</div>''\<close>

section \<open>Users, audit events, clicks, statistics\<close>

definition id_or :: "int option \<Rightarrow> string \<Rightarrow> string" where
  \<comment> \<open>\<open>x.tenant_id || d\<close>: null and 0 are falsy\<close>
  "id_or t d = (case t of None \<Rightarrow> d | Some n \<Rightarrow> if n = 0 then d else int_text n)"

definition customer_row :: "me \<Rightarrow> user \<Rightarrow> piece list" where
  \<open>customer_row current u =
    [Lit ''<div class="row"><div><b>'', Expr (esc_text (u_name u)), Lit ''</b><div class="tiny">'',
     Expr (esc_text (u_email u)), Lit ('' '' @ mid_dot @ '' ''), Expr (esc_text (roleLabel (u_role u))),
     Lit ('' '' @ mid_dot @ '' department ''), Expr (id_or (u_tenant_id u) ''-''),
     Lit ('' '' @ mid_dot @ '' ''), Expr (if u_active u then ''active'' else ''inactive''),
     Lit ('' '' @ mid_dot @ '' deletion ''),
     Expr (if u_role u = ''superadmin'' then ''always allowed''
           else if u_deletion_access u then ''enabled'' else ''locked''),
     Lit ''</div></div><button class="secondary" onclick="openUserReport('', Expr (int_text (u_id u)),
     Lit '')">Report</button>''] @
    (if me_role current = ''superadmin'' \<and> u_role u \<noteq> ''superadmin'' then
      [Lit ''<button class="'', Expr (if u_deletion_access u then ''danger'' else ''secondary''),
       Lit ''" onclick="setDeletionAccess('', Expr (int_text (u_id u)), Lit '', '',
       Expr (if u_deletion_access u then ''false'' else ''true''), Lit '')">'',
       Expr (if u_deletion_access u then ''Disable deletion'' else ''Enable deletion''),
       Lit ''</button>''] else []) @
    [Lit ''</div>'']\<close>

definition customers_html :: "me \<Rightarrow> user list \<Rightarrow> string" where
  \<open>customers_html current xs =
     str_or (concat (map (\<lambda>u. render (customer_row current u)) xs)) ''<div class="empty">No matching users.</div>''\<close>

definition audit_row :: "(int \<Rightarrow> string) \<Rightarrow> audit_event \<Rightarrow> piece list" where
  \<open>audit_row loc e =
    [Lit ''<div class="row no-actions"><div><b>'', Expr (esc_text (a_action e)),
     Lit ('' '' @ mid_dot @ '' ''), Expr (esc_text (a_outcome e)), Lit ''</b><div class="tiny">'',
     Expr (loc (a_created_at e)), Lit ('' '' @ mid_dot @ '' ''), Expr (esc_text (a_actor_email e)),
     Lit '' via '', Expr (esc_text (a_auth_type e)), Lit ('' '' @ mid_dot @ '' ''),
     Expr (esc_text (a_target_type e)), Lit '' '', Expr (esc_text (a_target_id e)),
     Lit ('' '' @ mid_dot @ '' ''), Expr (esc_text (str_or (a_ip_address e) ''-'')),
     Lit ''</div></div></div>'']\<close>

definition audit_html :: "(int \<Rightarrow> string) \<Rightarrow> audit_event list \<Rightarrow> string" where
  \<open>audit_html loc xs =
     str_or (concat (map (\<lambda>e. render (audit_row loc e)) xs)) ''<div class="empty">No matching audit events.</div>''\<close>

definition click_row :: "(int \<Rightarrow> string) \<Rightarrow> click_event \<Rightarrow> piece list" where
  \<open>click_row loc x =
    [Lit ''<div class="row no-actions"><div><b>/'', Expr (esc_text (c_slug x)),
     Lit ''</b><div class="tiny">'', Expr (loc (c_created_at x)), Lit ('' '' @ mid_dot @ '' ''),
     Expr (esc_text (str_or (c_country_code x) ''unknown'')), Lit ('' '' @ mid_dot @ '' ''),
     Expr (esc_text (c_device x)), Lit ('' '' @ mid_dot @ '' ''), Expr (esc_text (c_browser x)),
     Lit ('' '' @ mid_dot @ '' ''), Expr (esc_text (c_route_type x)),
     Lit ('' '' @ right_arrow @ '' ''), Expr (int_text (c_status_code x)),
     Lit ''</div></div></div>'']\<close>

definition clicks_html :: "(int \<Rightarrow> string) \<Rightarrow> click_event list \<Rightarrow> string" where
  \<open>clicks_html loc xs =
     str_or (concat (map (\<lambda>x. render (click_row loc x)) xs)) ''<div class="empty">No click events yet.</div>''\<close>

definition breakdown_card :: "point \<Rightarrow> piece list" where
  \<open>breakdown_card x =
    [Lit ''<div><b>'', Expr (int_text (p_clicks x)), Lit ''</b><span>'',
     Expr (esc_text (str_or (p_key x) ''unknown'')), Lit ''</span></div>'']\<close>

definition breakdown_html :: "point list \<Rightarrow> string" where
  "breakdown_html xs = concat (map (\<lambda>x. render (breakdown_card x)) (take 6 xs))"

text \<open>\<open>loadStats\<close> prints the counters of \<open>/api/v1/analytics\<close> that are not 0; it escapes neither
  the key nor the value, so the row is safe only because the server chooses the keys.\<close>

definition stat_card :: "string \<times> int \<Rightarrow> piece list" where
  \<open>stat_card kv =
    [Lit ''<div><b>'', Expr (int_text (snd kv)), Lit ''</b><span>'',
     Expr (map (\<lambda>c. if c = CHR ''_'' then CHR '' '' else c) (fst kv)), Lit ''</span></div>'']\<close>

definition stats_html :: "(string \<times> int) list \<Rightarrow> string" where
  \<open>stats_html a =
     str_or (concat (map (\<lambda>kv. render (stat_card kv)) (filter (\<lambda>kv. snd kv \<noteq> 0) a)))
       ''<div><b>0</b><span>No activity yet</span></div>''\<close>

section \<open>The structure of a row\<close>

lemma inert_id_or [simp, html_safe]: "inert d \<Longrightarrow> inert (id_or t d)"
  by (simp add: id_or_def split: option.split)

lemma home_link_row_safe: "safe_template InText (home_link_row l) = Some InText"
  by (simp add: home_link_row_def html_after_append)

lemma link_row_safe:
  "\<forall>t. inert (loc t) \<Longrightarrow> safe_template InText (link_row loc current l) = Some InText"
  by (simp add: link_row_def html_after_append)

lemma key_row_safe:
  "\<forall>t. inert (loc t) \<Longrightarrow> safe_template InText (key_row loc current k) = Some InText"
  by (simp add: key_row_def html_after_append)

lemma tenant_row_safe: "safe_template InText (tenant_row t) = Some InText"
  by (simp add: tenant_row_def html_after_append)

lemma domain_row_safe: "safe_template InText (domain_row current d) = Some InText"
  by (simp add: domain_row_def html_after_append)

lemma customer_row_safe: "safe_template InText (customer_row current u) = Some InText"
  by (simp add: customer_row_def html_after_append)

lemma audit_row_safe:
  "\<forall>t. inert (loc t) \<Longrightarrow> safe_template InText (audit_row loc e) = Some InText"
  by (simp add: audit_row_def html_after_append)

lemma click_row_safe:
  "\<forall>t. inert (loc t) \<Longrightarrow> safe_template InText (click_row loc x) = Some InText"
  by (simp add: click_row_def html_after_append)

lemma breakdown_card_safe: "safe_template InText (breakdown_card x) = Some InText"
  by (simp add: breakdown_card_def html_after_append)

lemmas row_safe = home_link_row_safe link_row_safe key_row_safe tenant_row_safe domain_row_safe
  customer_row_safe audit_row_safe click_row_safe breakdown_card_safe

text \<open>What decides the structure of a row of the links list: whether a creator is named, whether
  the user may manage the link, and whether the user may delete.\<close>

definition link_row_flags :: "me option \<Rightarrow> link \<Rightarrow> bool \<times> bool \<times> bool" where
  "link_row_flags current l =
     (l_creator_name l \<noteq> [], canManageLink current l, can_delete_now current)"

lemma link_row_shape:
  "link_row_flags current l = link_row_flags current' l' \<Longrightarrow>
   template_shape (link_row loc current l) = template_shape (link_row loc' current' l')"
  by (simp add: link_row_def link_row_flags_def)

lemma home_link_row_shape: "template_shape (home_link_row l) = template_shape (home_link_row l')"
  by (simp add: home_link_row_def)

lemma link_row_markup:
  assumes "\<forall>t. inert (loc t)" and "\<forall>t. inert (loc' t)"
    and "link_row_flags current l = link_row_flags current' l'"
  shows "same_markup InText (render (link_row loc current l)) (render (link_row loc' current' l')) InText"
  using assms by (intro same_markup_template [where st'' = InText] link_row_safe link_row_shape)

lemma concat_render_Nil:
  "(\<And>x. x \<in> set xs \<Longrightarrow> render (f x) \<noteq> []) \<Longrightarrow> concat (map (\<lambda>x. render (f x)) xs) = [] \<longleftrightarrow> xs = []"
  by (cases xs) auto

lemma link_row_not_Nil: "render (link_row loc current l) \<noteq> []"
  by (simp add: link_row_def newline_def)

section \<open>Properties\<close>

text \<open>Escaping is faithful and safe. What the browser shows for \<open>esc(s)\<close> is exactly \<open>s\<close>, and
  the escaped text contains no character that could open a tag or close a quoted attribute.\<close>

theorem esc_faithful_and_inert: "html_decode (esc (JStr s)) = s \<and> inert (esc (JStr s))"
  by (simp add: html_decode_esc_text)

text \<open>C14: No text of a link can inject markup into the links list. Two lists whose rows agree on
  the three flags the code computes (creator shown, manageable, deletable) make the browser read
  the same tags, whatever titles, slugs, URLs and creator names they hold.\<close>

theorem links_html_markup:
  assumes "\<forall>t. inert (loc t)" and "\<forall>t. inert (loc' t)"
    and flags: "map (link_row_flags current) xs = map (link_row_flags current') ys"
  shows "same_markup InText (links_html loc current xs) (links_html loc' current' ys) InText"
proof (cases "xs = []")
  case True
  with flags show ?thesis by (simp add: links_html_def str_or_def same_markup_def)
next
  case False
  with flags have "ys \<noteq> []" by auto
  have "list_all2 (\<lambda>x y. same_markup InText (render (link_row loc current x))
                           (render (link_row loc' current' y)) InText) xs ys"
    using flags
    by (auto simp: list_all2_conv_all_nth list_eq_iff_nth_eq intro!: link_row_markup assms(1,2))
  then have "same_markup InText (concat (map (\<lambda>x. render (link_row loc current x)) xs))
               (concat (map (\<lambda>y. render (link_row loc' current' y)) ys)) InText"
    by (rule same_markup_concat)
  with False \<open>ys \<noteq> []\<close> show ?thesis
    by (simp add: links_html_def str_or_def concat_render_Nil link_row_not_Nil)
qed

theorem links_html_markup_witness:
  \<open>same_markup InText
     (links_html (\<lambda>_. ''1/1/1970'') (Some sample_me)
        [sample_link\<lparr>l_title := ''<img src=x onerror="alert(1)">'', l_clicks := 0\<rparr>])
     (links_html (\<lambda>_. ''01.01.70'') (Some sample_me) [sample_link]) InText\<close>
  by (rule links_html_markup) (simp_all add: link_row_flags_def canManageLink_def sample_link_def)

text \<open>The links list offers Delete exactly when the signed-in user may manage that link and has
  deletion access; in every other case the row carries no call of \<open>delLink\<close> at all.\<close>

theorem link_row_delete_offered:
  \<open>Lit ''<button class="danger" onclick="delLink('' \<in> set (link_row loc current l) \<longleftrightarrow>
   canManageLink current l \<and> can_delete_now current\<close>
  by (simp add: link_row_def newline_def)

end
