(* ===== verification/LinkHandler.thy ===== *)
theory LinkHandler
  imports LinkStore Rows
begin

text \<open>
  The handlers that delete links (\<open>internal/handlers/handlers.go\<close>): \<open>requireDelete\<close>, the DELETE
  branch of \<open>linkByID\<close>, the Short.io compatible \<open>shortioLinkByID\<close> and \<open>shortioDeleteBulk\<close>, and
  the Short.io link ids. A handler maps a request and the server's state to the response and the
  new state; every call that changes state is a step of it, in the order of the code.

  \<open>sv_invalidated\<close> collects the links whose cached redirects were dropped (\<open>invalidateRedirect\<close>);
  \<open>rq_audit_up\<close> says whether the audit insert of this request works. A handler that panics has no
  response (\<open>Aborted\<close>).
\<close>

record server =
  sv_store :: store
  sv_invalidated :: "link list"

record request =
  rq_principal :: principal
  rq_ip :: string
  rq_now :: int
  rq_audit_up :: bool

datatype response = Status int | Aborted

definition audit :: "request \<Rightarrow> string \<Rightarrow> string \<Rightarrow> string \<Rightarrow> string \<Rightarrow> server \<Rightarrow> server option" where
  "audit rq action target_type target_id outcome sv =
     map_option (\<lambda>s. sv\<lparr>sv_store := s\<rparr>)
       (recordAudit (rq_audit_up rq) (rq_now rq)
         \<lparr>a_id = 0, a_actor_email = u_email (pr_actual (rq_principal rq)),
          a_auth_type = pr_auth_type (rq_principal rq), a_action = action,
          a_target_type = target_type, a_target_id = target_id, a_outcome = outcome,
          a_ip_address = rq_ip rq, a_created_at = 0\<rparr> (sv_store sv))"

text \<open>\<open>None\<close> as the response lets the handler go on.\<close>

definition requireDelete ::
    "request \<Rightarrow> string \<Rightarrow> string \<Rightarrow> string \<Rightarrow> server \<Rightarrow> response option \<times> server" where
  "requireDelete rq action target_type target_id sv =
     (if canDelete (rq_principal rq) then (None, sv)
      else case audit rq action target_type target_id ''denied'' sv of
             None \<Rightarrow> (Some (Status 500), sv)
           | Some sv' \<Rightarrow> (Some (Status 403), sv'))"

text \<open>The part the two single-link handlers share, with the action they audit and the status of
  success: the DELETE branch of \<open>linkByID\<close> and the body of \<open>shortioLinkByID\<close>.\<close>

definition delete_one :: "string \<Rightarrow> int \<Rightarrow> request \<Rightarrow> int \<Rightarrow> server \<Rightarrow> response \<times> server" where
  "delete_one action success rq i sv =
     (case requireDelete rq action ''link'' (int_text i) sv of
        (Some r, sv') \<Rightarrow> (r, sv')
      | (None, sv1) \<Rightarrow>
          (let u = pr_effective (rq_principal rq) in
           case linkByID (sv_store sv1) u i of
             Inl e \<Rightarrow> (if e = Panicked then Aborted else Status 404, sv1)
           | Inr before \<Rightarrow>
               (case deleteLink (rq_now rq) (sv_store sv1) u i of
                  Inl e \<Rightarrow> (if e = Panicked then Aborted else Status 404, sv1)
                | Inr s \<Rightarrow>
                    (let sv2 = sv1\<lparr>sv_store := s, sv_invalidated := sv_invalidated sv1 @ [before]\<rparr> in
                     case audit rq action ''link'' (int_text i) ''success'' sv2 of
                       None \<Rightarrow> (Status 500, sv2)
                     | Some sv3 \<Rightarrow> (Status success, sv3)))))"

definition linkByID_DELETE :: "request \<Rightarrow> int \<Rightarrow> server \<Rightarrow> response \<times> server" where
  "linkByID_DELETE = delete_one ''link.deleted'' 204"

section \<open>Short.io link ids\<close>

definition shortio_prefix :: string where
  "shortio_prefix = ''lnk_shortq_''"

definition shortioLinkID :: "int \<Rightarrow> string" where
  "shortioLinkID i = shortio_prefix @ int_text i"

definition strip_char :: "char \<Rightarrow> string \<Rightarrow> string" where
  \<comment> \<open>\<open>strings.Trim(s, "c")\<close>\<close>
  "strip_char c s = rev (dropWhile (\<lambda>x. x = c) (rev (dropWhile (\<lambda>x. x = c) s)))"

definition parseShortioLinkID :: "string \<Rightarrow> int option" where
  "parseShortioLinkID raw0 =
     (let raw = trim (strip_char (CHR ''/'') raw0) in
      if raw = [] \<or> CHR ''/'' \<in> set raw then None
      else let digits =
             (if has_prefix shortio_prefix raw then Some (drop (length shortio_prefix) raw)
              else if has_prefix ''lnk_'' raw then
                (let last_part = last (split_on (CHR ''_'') raw)
                 in if last_part = [] then None else Some last_part)
              else Some raw)
           in case digits of None \<Rightarrow> None
              | Some ds \<Rightarrow> (case parse_int64 ds of None \<Rightarrow> None
                            | Some i \<Rightarrow> if i < 1 then None else Some i))"

fun parse_unique_ids :: "int set \<Rightarrow> string list \<Rightarrow> int list option" where
  "parse_unique_ids seen [] = Some []"
| "parse_unique_ids seen (r # rs) =
     (case parseShortioLinkID r of None \<Rightarrow> None
      | Some i \<Rightarrow> if i \<in> seen then None
                  else map_option ((#) i) (parse_unique_ids (insert i seen) rs))"

definition parseShortioLinkIDs :: "string list \<Rightarrow> int list option" where
  "parseShortioLinkIDs raw = parse_unique_ids {} raw"

section \<open>The Short.io handlers\<close>

definition path_after :: "string \<Rightarrow> string \<Rightarrow> string" where
  \<comment> \<open>\<open>strings.TrimPrefix\<close>\<close>
  "path_after p s = (if has_prefix p s then drop (length p) s else s)"

definition shortioLinkByID :: "string \<Rightarrow> string \<Rightarrow> request \<Rightarrow> server \<Rightarrow> response \<times> server" where
  "shortioLinkByID http_method path rq sv =
     (if http_method \<noteq> ''DELETE'' then (Status 405, sv)
      else case parseShortioLinkID (path_after ''/links/'' path) of
             None \<Rightarrow> (Status 400, sv)
           | Some i \<Rightarrow> delete_one ''shortio.link.deleted'' 200 rq i sv)"

definition shortioDeleteBulk ::
    "string \<Rightarrow> string list decoded \<Rightarrow> request \<Rightarrow> server \<Rightarrow> response \<times> server" where
  "shortioDeleteBulk http_method body rq sv =
     (if http_method \<noteq> ''DELETE'' then (Status 405, sv)
      else case body of TooLarge \<Rightarrow> (Status 413, sv) | BadJson \<Rightarrow> (Status 400, sv)
      | Decoded raw \<Rightarrow>
        (if length raw < 1 \<or> length raw > 150 then (Status 400, sv)
         else case parseShortioLinkIDs raw of None \<Rightarrow> (Status 400, sv)
         | Some ids \<Rightarrow>
             (let target = join_with '','' (map shortioLinkID ids);
                  action = ''shortio.link.bulk_deleted'';
                  u = pr_effective (rq_principal rq)
              in case requireDelete rq action ''link'' target sv of
                   (Some r, sv') \<Rightarrow> (r, sv')
                 | (None, sv1) \<Rightarrow>
                   (case linksByIDs (sv_store sv1) u ids of
                      Inl e \<Rightarrow> (if e = Panicked then Aborted else Status 404, sv1)
                    | Inr before \<Rightarrow>
                      (case deleteLinksBulk (rq_now rq) (sv_store sv1) u ids of
                         Inl e \<Rightarrow> (if e = Panicked then Aborted else Status 404, sv1)
                       | Inr s \<Rightarrow>
                         (let sv2 = sv1\<lparr>sv_store := s, sv_invalidated := sv_invalidated sv1 @ before\<rparr>
                          in case audit rq action ''link'' target ''success'' sv2 of
                               None \<Rightarrow> (Status 500, sv2)
                             | Some sv3 \<Rightarrow> (Status 200, sv3)))))))"


section \<open>What a deletion request does, case by case\<close>

definition audited :: "request \<Rightarrow> string \<Rightarrow> string \<Rightarrow> string \<Rightarrow> string \<Rightarrow> server \<Rightarrow> server" where
  \<comment> \<open>the server after an audit insert that worked\<close>
  "audited rq action target_type target_id outcome sv =
     the (audit (rq\<lparr>rq_audit_up := True\<rparr>) action target_type target_id outcome sv)"

lemma audit_cases:
  "audit rq a t i out sv = (if rq_audit_up rq then Some (audited rq a t i out sv) else None)"
  by (simp add: audit_def audited_def recordAudit_def)

lemma audited_keeps [simp]:
  "s_links (sv_store (audited rq a t i out sv)) = s_links (sv_store sv)"
  "s_users (sv_store (audited rq a t i out sv)) = s_users (sv_store sv)"
  "sv_invalidated (audited rq a t i out sv) = sv_invalidated sv"
  by (simp_all add: audit_def audited_def recordAudit_def)

lemma audited_row:
  "s_audit (sv_store (audited rq a t i out sv)) \<noteq> [] \<and>
   butlast (s_audit (sv_store (audited rq a t i out sv))) = s_audit (sv_store sv) \<and>
   a_outcome (last (s_audit (sv_store (audited rq a t i out sv)))) = out"
  by (simp add: audit_def audited_def recordAudit_def)

lemma linkByID_deletable:
  assumes "wf_store s" and "deletable s u i"
  shows "\<exists>l. linkByID s u i = Inr l \<and> l \<in> set (s_links s) \<and> l_id l = i"
proof -
  obtain m l where m: "manage_scope u = Some m" and l: "l \<in> set (s_links s)" "l_id l = i"
      "l_deleted_at l = None" "m l"
    using assms(2) by (cases "manage_scope u") (auto simp: deletable_def)
  obtain f where f: "view_scope u False = Some f"
    using m manage_scope_defined [of u False] by (cases "view_scope u False") auto
  have "visible f i l" using manage_within_view [OF m f l(4)] l by (simp add: visible_def)
  then show ?thesis using linkByID_ok [OF assms(1) f] l by blast
qed

lemma delete_one_cases:
  assumes wf: "wf_store (sv_store sv)"
  shows "delete_one action success rq i sv =
    (let s = sv_store sv; u = pr_effective (rq_principal rq); up = rq_audit_up rq in
     if \<not> canDelete (rq_principal rq)
     then (if up then (Status 403, audited rq action ''link'' (int_text i) ''denied'' sv) else (Status 500, sv))
     else if manage_scope u = None then (Aborted, sv)
     else if \<not> deletable s u i then (Status 404, sv)
     else (let sv2 = sv\<lparr>sv_store := mark_deleted (rq_now rq) {i} s,
                        sv_invalidated := sv_invalidated sv @ [projr (linkByID s u i)]\<rparr>
           in if up then (Status success, audited rq action ''link'' (int_text i) ''success'' sv2)
              else (Status 500, sv2)))"
proof -
  let ?u = "pr_effective (rq_principal rq)"
  consider "\<not> canDelete (rq_principal rq)"
    | "canDelete (rq_principal rq)" "manage_scope ?u = None"
    | "canDelete (rq_principal rq)" "manage_scope ?u \<noteq> None" "\<not> deletable (sv_store sv) ?u i"
    | "canDelete (rq_principal rq)" "deletable (sv_store sv) ?u i" by blast
  then show ?thesis
  proof cases
    case 1
    then show ?thesis by (simp add: delete_one_def requireDelete_def audit_cases Let_def)
  next
    case 2
    then have "linkByID (sv_store sv) ?u i = Inl Panicked"
      using manage_scope_defined [of ?u False] by (simp add: linkByID_def)
    with 2 show ?thesis by (simp add: delete_one_def requireDelete_def)
  next
    case 3
    then have d: "deleteLink (rq_now rq) (sv_store sv) ?u i = Inl NoRows"
      by (simp add: deleteLink_cases [OF wf])
    obtain f where f: "view_scope ?u False = Some f"
      using 3(2) manage_scope_defined [of ?u False] by (cases "view_scope ?u False") auto
    have "linkByID (sv_store sv) ?u i \<noteq> Inl Panicked"
      by (simp add: linkByID_visible [OF f] split: option.split)
    then show ?thesis using 3 d
      by (cases "linkByID (sv_store sv) ?u i") (auto simp: delete_one_def requireDelete_def Let_def)
  next
    case 4
    obtain l where l: "linkByID (sv_store sv) ?u i = Inr l" using linkByID_deletable [OF wf 4(2)] by blast
    have d: "deleteLink (rq_now rq) (sv_store sv) ?u i = Inr (mark_deleted (rq_now rq) {i} (sv_store sv))"
      using deleteLink_ok [OF wf] 4(2) by blast
    show ?thesis using 4 l d deletable_managed [OF 4(2)]
      by (simp add: delete_one_def requireDelete_def audit_cases Let_def)
  qed
qed

section \<open>What the list shows and what the server allows\<close>

lemma hydrated_row:
  assumes "l \<in> set (hydrateLinkCreators us ls)"
  shows "\<exists>l0 \<in> set ls. l_id l = l_id l0 \<and> l_user_id l = l_user_id l0 \<and> l_tenant_id l = l_tenant_id l0 \<and>
    l_visibility l = l_visibility l0 \<and> l_deleted_at l = l_deleted_at l0"
proof -
  obtain l0 where "l0 \<in> set ls"
    "l = (case find (\<lambda>u. u_id u = l_user_id l0) us of None \<Rightarrow> l0
          | Some u \<Rightarrow> l0\<lparr>l_creator_name := u_name u, l_creator_email := u_email u\<rparr>)"
    using assms by (auto simp: hydrateLinkCreators_def)
  then show ?thesis by (intro bexI [of _ l0]) (simp_all split: option.split)
qed

lemma listed_row:
  assumes "listLinks s u n c = Inr ls" and "l \<in> set ls"
  shows "\<exists>f. view_scope u False = Some f \<and> (\<exists>l0 \<in> set (s_links s). visible f (l_id l) l0 \<and>
    l_user_id l = l_user_id l0 \<and> l_tenant_id l = l_tenant_id l0)"
proof -
  obtain f where f: "view_scope u False = Some f"
    using assms(1) by (cases "view_scope u False") (auto simp: listLinks_def)
  let ?sel = "order_desc l_id (filter (\<lambda>l. l_deleted_at l = None \<and> f l \<and> (c > 0 \<longrightarrow> l_id l < c)) (s_links s))"
  define out where "out = (if n > 0 then take n ?sel else ?sel)"
  have sub: "set out \<subseteq> {l0 \<in> set (s_links s). l_deleted_at l0 = None \<and> f l0}"
    using set_take_subset [of n ?sel] by (auto simp: out_def)
  have "ls = hydrateLinkCreators (s_users s) out \<or> ls = out"
    using assms(1) by (auto simp: listLinks_def f Let_def out_def split: if_splits)
  then obtain l0 where "l0 \<in> set out" "l_id l = l_id l0" "l_user_id l = l_user_id l0"
    "l_tenant_id l = l_tenant_id l0"
    using hydrated_row [of l "s_users s" out] assms(2) by auto
  with sub f show ?thesis by (auto simp: visible_def)
qed

definition known_role :: "user \<Rightarrow> bool" where
  \<comment> \<open>the check constraint on \<open>users.role\<close>\<close>
  "known_role u \<longleftrightarrow> u_role u \<in> {''superadmin'', ''tenant'', ''customer''}"

lemma manage_agrees:
  assumes "known_role u" and "view_scope u False = Some f" and "f l0"
    and "l_user_id l = l_user_id l0" and "me_role me = u_role u" and "me_id me = u_id u"
  shows "canManageLink (Some me) l \<longleftrightarrow> (case manage_scope u of None \<Rightarrow> False | Some m \<Rightarrow> m l0)"
  using assms
  by (auto simp: known_role_def canManageLink_def manage_scope_def view_scope_def
      split: if_splits option.splits)

section \<open>Properties\<close>

text \<open>C1: Deletion over HTTP needs both rights and leaves a trace. A DELETE request changes the links
  only when the signed-in account has deletion access and the effective user manages the link;
  then exactly that link is marked, its cached redirect is dropped, and the answer is 204 exactly
  when the audit row of the deletion could be written. Without deletion access nothing but a row
  with the outcome ''denied'' is written, and the answer is 403.\<close>

theorem delete_request_authorized:
  assumes "wf_store (sv_store sv)"
  shows "case linkByID_DELETE rq i sv of (r, sv') \<Rightarrow>
    (s_links (sv_store sv') \<noteq> s_links (sv_store sv) \<longrightarrow>
       canDelete (rq_principal rq) \<and> deletable (sv_store sv) (pr_effective (rq_principal rq)) i) \<and>
    (r = Status 204 \<longleftrightarrow> canDelete (rq_principal rq) \<and> rq_audit_up rq \<and>
       deletable (sv_store sv) (pr_effective (rq_principal rq)) i) \<and>
    (r = Status 204 \<longrightarrow>
       s_links (sv_store sv') = s_links (mark_deleted (rq_now rq) {i} (sv_store sv)) \<and>
       map l_id (sv_invalidated sv') = map l_id (sv_invalidated sv) @ [i] \<and>
       butlast (s_audit (sv_store sv')) = s_audit (sv_store sv) \<and>
       a_outcome (last (s_audit (sv_store sv'))) = ''success'') \<and>
    (\<not> canDelete (rq_principal rq) \<and> rq_audit_up rq \<longrightarrow>
       r = Status 403 \<and> butlast (s_audit (sv_store sv')) = s_audit (sv_store sv) \<and>
       a_outcome (last (s_audit (sv_store sv'))) = ''denied'')"
proof -
  let ?s = "sv_store sv" and ?u = "pr_effective (rq_principal rq)"
  have inv: "l_id (projr (linkByID ?s ?u i)) = i" if "deletable ?s ?u i"
    using linkByID_deletable [OF assms that] by auto
  have keep: "s_audit (mark_deleted n ids t) = s_audit t" for n ids t
    by (simp add: mark_deleted_def)
  consider "\<not> canDelete (rq_principal rq)"
    | "canDelete (rq_principal rq)" "manage_scope ?u = None \<or> \<not> deletable ?s ?u i"
    | "canDelete (rq_principal rq)" "manage_scope ?u \<noteq> None" "deletable ?s ?u i" by blast
  then show ?thesis
  proof cases
    case 1
    then show ?thesis
      by (simp add: linkByID_DELETE_def delete_one_cases [OF assms] Let_def audited_row)
  next
    case 2
    then have "\<not> deletable ?s ?u i" using deletable_managed by blast
    with 2 show ?thesis
      by (simp add: linkByID_DELETE_def delete_one_cases [OF assms] Let_def)
  next
    case 3
    then show ?thesis
      using audited_row [of rq "''link.deleted''" "''link''" "int_text i" "''success''"
          "sv\<lparr>sv_store := mark_deleted (rq_now rq) {i} ?s,
              sv_invalidated := sv_invalidated sv @ [projr (linkByID ?s ?u i)]\<rparr>"]
      by (simp add: linkByID_DELETE_def delete_one_cases [OF assms] Let_def inv keep)
  qed
qed

definition sample_request :: request where
  "sample_request =
     \<lparr>rq_principal = effectivePrincipal (sample_admin\<lparr>u_deletion_access := True\<rparr>) ''admin'' ''session'',
      rq_ip = ''10.0.0.1'', rq_now = 100, rq_audit_up = True\<rparr>"

definition sample_server :: server where
  "sample_server = \<lparr>sv_store = sample_store, sv_invalidated = []\<rparr>"

lemma sample_server_wf [simp]: "wf_store (sv_store sample_server)"
  by (simp add: sample_server_def)

theorem delete_request_authorized_witness:
  "case linkByID_DELETE sample_request 9 sample_server of (r, sv') \<Rightarrow>
    (s_links (sv_store sv') \<noteq> s_links (sv_store sample_server) \<longrightarrow>
       canDelete (rq_principal sample_request) \<and>
       deletable (sv_store sample_server) (pr_effective (rq_principal sample_request)) 9) \<and>
    (r = Status 204 \<longleftrightarrow> canDelete (rq_principal sample_request) \<and> rq_audit_up sample_request \<and>
       deletable (sv_store sample_server) (pr_effective (rq_principal sample_request)) 9) \<and>
    (r = Status 204 \<longrightarrow>
       s_links (sv_store sv') =
         s_links (mark_deleted (rq_now sample_request) {9} (sv_store sample_server)) \<and>
       map l_id (sv_invalidated sv') = map l_id (sv_invalidated sample_server) @ [9] \<and>
       butlast (s_audit (sv_store sv')) = s_audit (sv_store sample_server) \<and>
       a_outcome (last (s_audit (sv_store sv'))) = ''success'') \<and>
    (\<not> canDelete (rq_principal sample_request) \<and> rq_audit_up sample_request \<longrightarrow>
       r = Status 403 \<and> butlast (s_audit (sv_store sv')) = s_audit (sv_store sample_server) \<and>
       a_outcome (last (s_audit (sv_store sv'))) = ''denied'')"
  using delete_request_authorized [OF sample_server_wf] .

text \<open>C2: The Delete button tells the truth. For every link the server lists to a user, and whatever
  mode the user acts in, the dashboard offers Delete exactly when the server would carry the
  deletion out: \<open>canManageLink\<close> and \<open>can_delete\<close> of \<open>/api/v1/me\<close> together are equivalent to the
  answer 204 of the DELETE request.\<close>

theorem delete_offered_iff_accepted:
  assumes "wf_store (sv_store sv)" and "known_role actual"
    and "rq_principal rq = effectivePrincipal actual mode auth" and "rq_audit_up rq"
    and "listLinks (sv_store sv) (pr_effective (rq_principal rq)) n c = Inr ls" and "l \<in> set ls"
  shows "canManageLink (Some (mePayload (rq_principal rq))) l \<and>
         can_delete_now (Some (mePayload (rq_principal rq))) \<longleftrightarrow>
         fst (linkByID_DELETE rq (l_id l) sv) = Status 204"
proof -
  let ?u = "pr_effective (rq_principal rq)" and ?s = "sv_store sv"
  obtain f l0 where f: "view_scope ?u False = Some f" and l0: "l0 \<in> set (s_links ?s)"
      "visible f (l_id l) l0" "l_user_id l = l_user_id l0"
    using listed_row [OF assms(5,6)] by blast
  have role: "known_role ?u"
    using assms(2) unfolding assms(3) known_role_def effective_role by simp
  have "canManageLink (Some (mePayload (rq_principal rq))) l \<longleftrightarrow>
      (case manage_scope ?u of None \<Rightarrow> False | Some m \<Rightarrow> m l0)"
    using l0(2) by (intro manage_agrees [OF role f _ l0(3)]) (simp_all add: mePayload_def visible_def)
  also have "\<dots> \<longleftrightarrow> deletable ?s ?u (l_id l)"
  proof
    assume "case manage_scope ?u of None \<Rightarrow> False | Some m \<Rightarrow> m l0"
    then show "deletable ?s ?u (l_id l)"
      using l0 by (auto simp: deletable_def visible_def)
  next
    assume "deletable ?s ?u (l_id l)"
    then obtain l1 where l1: "l1 \<in> set (s_links ?s)" "l_id l1 = l_id l0"
        "case manage_scope ?u of None \<Rightarrow> False | Some m \<Rightarrow> m l1"
      using l0(2) by (auto simp: deletable_def visible_def)
    have "l1 = l0" using wf_ids_inj [OF wf_store_ids(2) [OF assms(1)] l1(1) l0(1) l1(2)] .
    with l1(3) show "case manage_scope ?u of None \<Rightarrow> False | Some m \<Rightarrow> m l0" by (simp only:)
  qed
  finally have m: "canManageLink (Some (mePayload (rq_principal rq))) l \<longleftrightarrow> deletable ?s ?u (l_id l)" .
  have d: "can_delete_now (Some (mePayload (rq_principal rq))) \<longleftrightarrow> canDelete (rq_principal rq)"
    by (simp add: can_delete_now_def mePayload_def)
  show ?thesis
    using assms(4) deletable_managed [of ?s ?u "l_id l"] unfolding m d linkByID_DELETE_def
    by (auto simp: delete_one_cases [OF assms(1)] Let_def)
qed

theorem delete_offered_iff_accepted_witness:
  "canManageLink (Some (mePayload (rq_principal sample_request))) sample_link \<and>
   can_delete_now (Some (mePayload (rq_principal sample_request))) \<longleftrightarrow>
   fst (linkByID_DELETE sample_request (l_id sample_link) sample_server) = Status 204"
proof (rule delete_offered_iff_accepted [OF sample_server_wf])
  show "known_role (sample_admin\<lparr>u_deletion_access := True\<rparr>)"
    by (simp add: known_role_def sample_admin_def)
  show "rq_principal sample_request =
      effectivePrincipal (sample_admin\<lparr>u_deletion_access := True\<rparr>) ''admin'' ''session''"
    by (simp add: sample_request_def)
  show "rq_audit_up sample_request" by (simp add: sample_request_def)
  show "listLinks (sv_store sample_server) (pr_effective (rq_principal sample_request)) 0 8 =
      Inr [sample_link\<lparr>l_creator_name := [], l_creator_email := []\<rparr>]"
    by (simp add: listLinks_def view_scope_def sample_server_def sample_store_def sample_request_def
        effectivePrincipal_def canSwitchMode_def sample_admin_def sample_link_def order_desc_def
        hydrateLinkCreators_def)
  show "sample_link \<in> set [sample_link\<lparr>l_creator_name := [], l_creator_email := []\<rparr>]"
    by (simp add: sample_link_def)
qed

text \<open>Printing and parsing a link id.\<close>

lemma strip_char_absent: "c \<notin> set s \<Longrightarrow> strip_char c s = s"
proof -
  assume c: "c \<notin> set s"
  have "dropWhile (\<lambda>x. x = c) t = t" if "c \<notin> set t" for t
    using that by (cases t) auto
  with c show ?thesis by (simp add: strip_char_def)
qed

lemma parse_shortio_own:
  assumes "0 < i" and "i < 2 ^ 63"
  shows "parseShortioLinkID (shortioLinkID i) = Some i"
proof -
  have no: "CHR ''/'' \<notin> set (shortioLinkID i)"
    by (simp add: shortioLinkID_def shortio_prefix_def not_in_int_text)
  have sp: "\<not> is_space (last (shortioLinkID i))"
  proof -
    have "last (shortioLinkID i) \<in> set (int_text i)"
      by (simp add: shortioLinkID_def)
    then show ?thesis by (rule no_space_in_int_text)
  qed
  have "trim (shortioLinkID i) = shortioLinkID i"
    using sp by (intro trim_no_space) (simp add: shortioLinkID_def shortio_prefix_def is_space_def)
  then show ?thesis
    using assms no
    by (simp add: parseShortioLinkID_def strip_char_absent parse_int64_int_text)
      (simp add: shortioLinkID_def has_prefix_def parse_int64_int_text shortio_prefix_def)
qed

text \<open>The Short.io ids round trip, in bulk. The list of ids the server printed, sent back in a bulk
  request, is read as exactly the ids it stands for; a list with a repeated id, however it is
  spelled, is refused.\<close>

theorem shortio_ids_roundtrip:
  "(\<forall>i \<in> set ids. 0 < i \<and> i < 2 ^ 63) \<Longrightarrow>
   parseShortioLinkIDs (map shortioLinkID ids) = (if distinct ids then Some ids else None) \<and>
   (parseShortioLinkIDs raw = Some js \<longrightarrow> distinct js \<and> length js = length raw \<and> (\<forall>j \<in> set js. 0 < j))"
proof
  assume ids: "\<forall>i \<in> set ids. 0 < i \<and> i < 2 ^ 63"
  have "parse_unique_ids seen (map shortioLinkID ids) =
      (if distinct ids \<and> set ids \<inter> seen = {} then Some ids else None)" for seen
    using ids by (induction ids arbitrary: seen) (auto simp: parse_shortio_own)
  then show "parseShortioLinkIDs (map shortioLinkID ids) = (if distinct ids then Some ids else None)"
    by (simp add: parseShortioLinkIDs_def)
  have "parse_unique_ids seen raw = Some js \<Longrightarrow>
      distinct js \<and> set js \<inter> seen = {} \<and> length js = length raw \<and> (\<forall>j \<in> set js. 0 < j)" for seen
  proof (induction raw arbitrary: seen js)
    case Nil
    then show ?case by simp
  next
    case (Cons r rs)
    then obtain i ks where i: "parseShortioLinkID r = Some i" "i \<notin> seen"
      and ks: "parse_unique_ids (insert i seen) rs = Some ks" "js = i # ks"
      by (auto split: option.splits if_splits)
    have "0 < i" using i(1) by (auto simp: parseShortioLinkID_def Let_def split: if_splits option.splits)
    with Cons.IH [OF ks(1)] i ks(2) show ?case by auto
  qed
  then show "parseShortioLinkIDs raw = Some js \<longrightarrow> distinct js \<and> length js = length raw \<and> (\<forall>j \<in> set js. 0 < j)"
    by (auto simp: parseShortioLinkIDs_def)
qed

theorem shortio_ids_roundtrip_witness:
  "parseShortioLinkIDs (map shortioLinkID [9, 7]) = Some [9, 7] \<and>
   parseShortioLinkIDs (map shortioLinkID [9, 7, 9]) = None"
proof
  have "\<forall>i \<in> set [9, 7 :: int]. 0 < i \<and> i < 2 ^ 63" by simp
  from shortio_ids_roundtrip [OF this]
  have "parseShortioLinkIDs (map shortioLinkID [9, 7]) = (if distinct [9, 7 :: int] then Some [9, 7] else None)"
    by blast
  moreover have "distinct [9, 7 :: int]" by simp
  ultimately show "parseShortioLinkIDs (map shortioLinkID [9, 7]) = Some [9, 7]" by (simp only: if_True)
next
  have "\<forall>i \<in> set [9, 7, 9 :: int]. 0 < i \<and> i < 2 ^ 63" by simp
  from shortio_ids_roundtrip [OF this]
  have "parseShortioLinkIDs (map shortioLinkID [9, 7, 9]) = (if distinct [9, 7, 9 :: int] then Some [9, 7, 9] else None)"
    by blast
  moreover have "\<not> distinct [9, 7, 9 :: int]" by simp
  ultimately show "parseShortioLinkIDs (map shortioLinkID [9, 7, 9]) = None" by (simp only: if_False)
qed

end
