(* ===== verification/LinkForm.thy ===== *)
theory LinkForm
  imports Rows
begin

text \<open>
  Creating and editing a link, on both sides: \<open>linkPayloadFromForm\<close> and \<open>editLink\<close> of \<open>web/app.js\<close>
  turn a form into JSON and a link into a form; \<open>linkPayload\<close> and \<open>applyLinkPayload\<close> of
  \<open>internal/handlers/handlers.go\<close> read the JSON and change the link; \<open>normalizeTags\<close> of
  \<open>internal/store/store.go\<close> is what a write does to the tags.

  Library functions of the two languages whose result depends on the machine's time zone, or whose
  syntax is of no interest here, are the parameters in \<open>codec\<close>: reading the text of a
  \<open>datetime-local\<close> input as local time, \<open>Date.toISOString\<close>, \<open>time.Parse\<close> with RFC 3339,
  \<open>JSON.parse\<close> and \<open>JSON.stringify\<close> of a value, and the password hash (\<open>Inl\<close> is a password bcrypt refuses).
\<close>

record codec =
  co_local :: "string \<Rightarrow> int option"
  co_iso :: "int \<Rightarrow> string"
  co_rfc3339 :: "string \<Rightarrow> int option"
  co_json_parse :: "string \<Rightarrow> jsval option"
  co_json_text :: "jsval \<Rightarrow> string"
  co_hash :: "string \<Rightarrow> string + string"

section \<open>The form\<close>

text \<open>\<open>fo_text\<close> gives the value of a text control, \<open>None\<close> when the form has no such control; the two
  checkboxes are \<open>None\<close> when absent.\<close>

record link_form =
  fo_text :: "string \<Rightarrow> string option"
  fo_forward_query :: "bool option"
  fo_clear_password :: "bool option"

definition raw :: "link_form \<Rightarrow> string \<Rightarrow> string" where
  \<comment> \<open>\<open>raw.k\<close> where only its truthiness and text matter: absent and empty are alike\<close>
  "raw form k = (case fo_text form k of None \<Rightarrow> [] | Some v \<Rightarrow> v)"

definition str_field :: "string \<Rightarrow> string \<Rightarrow> (string \<times> jsval) list" where
  "str_field k v = [(k, JStr v)]"

definition optional_texts :: "string list" where
  "optional_texts = [''expired_url'', ''ios_url'', ''android_url'', ''utm_source'', ''utm_medium'',
     ''utm_campaign'', ''utm_term'', ''utm_content'']"

definition split_tags :: "string \<Rightarrow> string list" where
  "split_tags s = (if s = [] then [] else filter (\<lambda>t. t \<noteq> []) (map trim (split_on (CHR '';'') s)))"

text \<open>\<open>Inl\<close> is the thrown value: a RangeError for a date the browser cannot read, or the message about
  the country routes.\<close>

definition linkPayloadFromForm :: "codec \<Rightarrow> link_form \<Rightarrow> bool \<Rightarrow> jsval + jsval" where
  "linkPayloadFromForm c form creating =
     (let r = raw form;
          base = [(''url'', JStr (r ''url'')), (''title'', JStr (r ''title'')),
                  (''visibility'', JStr (str_or (r ''visibility'') ''private'')),
                  (''redirect_code'', if r ''redirect_code'' = [] then JNum 302 else js_number (r ''redirect_code'')),
                  (''forward_query'', JBool (case fo_forward_query form of None \<Rightarrow> True | Some ch \<Rightarrow> ch))];
          slug = (if creating \<and> r ''slug'' \<noteq> [] then [(''slug'', JStr (r ''slug''))] else []);
          texts = concat (map (\<lambda>k. if fo_text form k = None then [] else [(k, JStr (r k))]) optional_texts);
          expires = (if r ''expires_at'' \<noteq> []
                     then (case co_local c (r ''expires_at'') of None \<Rightarrow> Inl (JObj [])
                           | Some t \<Rightarrow> Inr [(''expires_at'', JStr (co_iso c t))])
                     else Inr (if creating then [] else [(''expires_at'', JStr [])]));
          clicks = (if r ''max_clicks'' \<noteq> [] then [(''max_clicks'', js_number (r ''max_clicks''))]
                    else if creating then [] else [(''clear_max_clicks'', JBool True)]);
          tags = [(''tags'', JArr (map JStr (split_tags (r ''tags''))))];
          geo = (if r ''geo_targets'' = [] then Some (JArr []) else co_json_parse c (r ''geo_targets''));
          password = (if r ''password'' \<noteq> [] then [(''password'', JStr (r ''password''))] else []);
          clear = (if fo_clear_password form = Some True then [(''clear_password'', JBool True)] else [])
      in case expires of Inl e \<Rightarrow> Inl e
         | Inr ex \<Rightarrow>
           (case geo of None \<Rightarrow> Inl (JObj [(''error'', JStr ''Country routes must be valid JSON.'')])
            | Some g \<Rightarrow> Inr (JObj (base @ slug @ texts @ ex @ clicks @ tags @ [(''geo_targets'', g)] @ password @ clear))))"

section \<open>Filling the form from a link\<close>

definition geo_js :: "geo_target list \<Rightarrow> jsval" where
  "geo_js gs = JArr (map (\<lambda>g. JObj [(''country_code'', JStr (gt_country_code g)), (''target_url'', JStr (gt_target_url g))]) gs)"

text \<open>The controls of the edit form after \<open>reset\<close>, with the defaults of \<open>index.html\<close>.\<close>

definition blank_edit_form :: link_form where
  "blank_edit_form =
     \<lparr>fo_text = map_of [(''id'', []), (''url'', []), (''title'', []), (''visibility'', ''private''),
        (''redirect_code'', ''302''), (''expires_at'', []), (''max_clicks'', []), (''expired_url'', []),
        (''ios_url'', []), (''android_url'', []), (''geo_targets'', []), (''tags'', []), (''utm_source'', []),
        (''utm_medium'', []), (''utm_campaign'', []), (''password'', [])],
      fo_forward_query = Some False, fo_clear_password = Some False\<rparr>"

definition set_control :: "string \<times> string \<Rightarrow> link_form \<Rightarrow> link_form" where
  \<comment> \<open>only if the form has that control\<close>
  "set_control kv form =
     (if fo_text form (fst kv) = None then form else form\<lparr>fo_text := (fo_text form)(fst kv \<mapsto> snd kv)\<rparr>)"

definition edit_values :: "codec \<Rightarrow> link \<Rightarrow> (string \<times> string) list" where
  "edit_values c l =
     [(''id'', int_text (l_id l)), (''url'', l_target_url l), (''title'', l_title l),
      (''visibility'', str_or (l_visibility l) ''private''),
      (''redirect_code'', int_text (if l_redirect_code l = 0 then 302 else l_redirect_code l)),
      (''expired_url'', l_expired_url l), (''ios_url'', l_ios_url l), (''android_url'', l_android_url l),
      (''geo_targets'', co_json_text c (geo_js (l_geo_targets l))), (''tags'', join_with ''; '' (l_tags l)),
      (''utm_source'', l_utm_source l), (''utm_medium'', l_utm_medium l), (''utm_campaign'', l_utm_campaign l)]"

definition edit_form :: "codec \<Rightarrow> link \<Rightarrow> link_form" where
  "edit_form c l =
     (let f = fold set_control (edit_values c l) blank_edit_form;
          f = (case l_expires_at l of None \<Rightarrow> f
               | Some t \<Rightarrow> set_control (''expires_at'', take 16 (co_iso c t)) f);
          f = (case l_max_clicks l of None \<Rightarrow> f
               | Some n \<Rightarrow> if n = 0 then f else set_control (''max_clicks'', int_text n) f)
      in f\<lparr>fo_forward_query := Some (l_forward_query l)\<rparr>)"

section \<open>Reading the payload\<close>

record link_payload =
  in_url :: "string option"
  in_target_url :: "string option"
  in_slug :: "string option"
  in_title :: "string option"
  in_visibility :: "string option"
  in_redirect_code :: "int option"
  in_expires_at :: "string option"
  in_max_clicks :: "int option"
  in_clear_max_clicks :: bool
  in_expired_url :: "string option"
  in_ios_url :: "string option"
  in_android_url :: "string option"
  in_forward_query :: "bool option"
  in_utm_source :: "string option"
  in_utm_medium :: "string option"
  in_utm_campaign :: "string option"
  in_utm_term :: "string option"
  in_utm_content :: "string option"
  in_tags :: "string list option"
  in_geo_targets :: "geo_target list option"
  in_password :: "string option"
  in_clear_password :: bool

definition empty_payload :: link_payload where
  "empty_payload =
     \<lparr>in_url = None, in_target_url = None, in_slug = None, in_title = None, in_visibility = None,
      in_redirect_code = None, in_expires_at = None, in_max_clicks = None, in_clear_max_clicks = False,
      in_expired_url = None, in_ios_url = None, in_android_url = None, in_forward_query = None,
      in_utm_source = None, in_utm_medium = None, in_utm_campaign = None, in_utm_term = None,
      in_utm_content = None, in_tags = None, in_geo_targets = None, in_password = None, in_clear_password = False\<rparr>"

fun all_some :: "'a option list \<Rightarrow> 'a list option" where
  "all_some [] = Some []"
| "all_some (x # xs) = (case x of None \<Rightarrow> None | Some y \<Rightarrow> map_option ((#) y) (all_some xs))"

definition js_str :: "jsval \<Rightarrow> string option" where
  "js_str v = (case v of JStr s \<Rightarrow> Some s | _ \<Rightarrow> None)"

definition js_strs :: "jsval \<Rightarrow> string list option" where
  "js_strs v = (case v of JArr xs \<Rightarrow> all_some (map js_str xs) | _ \<Rightarrow> None)"

definition js_geo :: "jsval \<Rightarrow> geo_target option" where
  "js_geo v =
     (case v of JObj fs \<Rightarrow>
        if \<not> set (map fst fs) \<subseteq> {''country_code'', ''target_url''} then None
        else (case (map_of fs ''country_code'', map_of fs ''target_url'') of
                (Some (JStr a), Some (JStr b)) \<Rightarrow> Some \<lparr>gt_country_code = a, gt_target_url = b\<rparr>
              | (Some (JStr a), None) \<Rightarrow> Some \<lparr>gt_country_code = a, gt_target_url = []\<rparr>
              | (None, Some (JStr b)) \<Rightarrow> Some \<lparr>gt_country_code = [], gt_target_url = b\<rparr>
              | (None, None) \<Rightarrow> Some \<lparr>gt_country_code = [], gt_target_url = []\<rparr>
              | _ \<Rightarrow> None)
      | _ \<Rightarrow> None)"

definition js_geos :: "jsval \<Rightarrow> geo_target list option" where
  "js_geos v = (case v of JArr xs \<Rightarrow> all_some (map js_geo xs) | _ \<Rightarrow> None)"

text \<open>One field of the body: \<open>null\<close> leaves the field as it is, a value of another type or an unknown
  name is the error \<open>bad json\<close>.\<close>

definition with_str :: "jsval \<Rightarrow> (string \<Rightarrow> link_payload) \<Rightarrow> link_payload option" where
  "with_str v f = (case v of JStr s \<Rightarrow> Some (f s) | _ \<Rightarrow> None)"

definition decode_field :: "string \<times> jsval \<Rightarrow> link_payload \<Rightarrow> link_payload option" where
  "decode_field kv p =
     (let k = fst kv; v = snd kv in
      if v = JNull then Some p
      else if k = ''url'' then with_str v (\<lambda>s. p\<lparr>in_url := Some s\<rparr>)
      else if k = ''target_url'' then with_str v (\<lambda>s. p\<lparr>in_target_url := Some s\<rparr>)
      else if k = ''slug'' then with_str v (\<lambda>s. p\<lparr>in_slug := Some s\<rparr>)
      else if k = ''title'' then with_str v (\<lambda>s. p\<lparr>in_title := Some s\<rparr>)
      else if k = ''visibility'' then with_str v (\<lambda>s. p\<lparr>in_visibility := Some s\<rparr>)
      else if k = ''redirect_code'' then (case v of JNum n \<Rightarrow> Some (p\<lparr>in_redirect_code := Some n\<rparr>) | _ \<Rightarrow> None)
      else if k = ''expires_at'' then with_str v (\<lambda>s. p\<lparr>in_expires_at := Some s\<rparr>)
      else if k = ''max_clicks'' then (case v of JNum n \<Rightarrow> Some (p\<lparr>in_max_clicks := Some n\<rparr>) | _ \<Rightarrow> None)
      else if k = ''clear_max_clicks'' then (case v of JBool x \<Rightarrow> Some (p\<lparr>in_clear_max_clicks := x\<rparr>) | _ \<Rightarrow> None)
      else if k = ''expired_url'' then with_str v (\<lambda>s. p\<lparr>in_expired_url := Some s\<rparr>)
      else if k = ''ios_url'' then with_str v (\<lambda>s. p\<lparr>in_ios_url := Some s\<rparr>)
      else if k = ''android_url'' then with_str v (\<lambda>s. p\<lparr>in_android_url := Some s\<rparr>)
      else if k = ''forward_query'' then (case v of JBool x \<Rightarrow> Some (p\<lparr>in_forward_query := Some x\<rparr>) | _ \<Rightarrow> None)
      else if k = ''utm_source'' then with_str v (\<lambda>s. p\<lparr>in_utm_source := Some s\<rparr>)
      else if k = ''utm_medium'' then with_str v (\<lambda>s. p\<lparr>in_utm_medium := Some s\<rparr>)
      else if k = ''utm_campaign'' then with_str v (\<lambda>s. p\<lparr>in_utm_campaign := Some s\<rparr>)
      else if k = ''utm_term'' then with_str v (\<lambda>s. p\<lparr>in_utm_term := Some s\<rparr>)
      else if k = ''utm_content'' then with_str v (\<lambda>s. p\<lparr>in_utm_content := Some s\<rparr>)
      else if k = ''tags'' then map_option (\<lambda>ts. p\<lparr>in_tags := Some ts\<rparr>) (js_strs v)
      else if k = ''geo_targets'' then map_option (\<lambda>gs. p\<lparr>in_geo_targets := Some gs\<rparr>) (js_geos v)
      else if k = ''password'' then with_str v (\<lambda>s. p\<lparr>in_password := Some s\<rparr>)
      else if k = ''clear_password'' then (case v of JBool x \<Rightarrow> Some (p\<lparr>in_clear_password := x\<rparr>) | _ \<Rightarrow> None)
      else None)"

fun decode_fields :: "(string \<times> jsval) list \<Rightarrow> link_payload \<Rightarrow> link_payload option" where
  "decode_fields [] p = Some p"
| "decode_fields (kv # kvs) p = (case decode_field kv p of None \<Rightarrow> None | Some q \<Rightarrow> decode_fields kvs q)"

definition decode_payload :: "jsval \<Rightarrow> link_payload option" where
  "decode_payload v = (case v of JObj fs \<Rightarrow> decode_fields fs empty_payload | JNull \<Rightarrow> Some empty_payload | _ \<Rightarrow> None)"

section \<open>Applying the payload\<close>

definition trimmed_or :: "string option \<Rightarrow> string \<Rightarrow> string" where
  "trimmed_or v old = (case v of None \<Rightarrow> old | Some s \<Rightarrow> trim s)"

text \<open>The link, the new password hash, and whether the password changes.\<close>

definition applyLinkPayload ::
    "codec \<Rightarrow> link \<Rightarrow> link_payload \<Rightarrow> bool \<Rightarrow> string + link \<times> string \<times> bool" where
  "applyLinkPayload c l p creating =
     (if (case (in_url p, in_target_url p) of (Some a, Some b) \<Rightarrow> trim a \<noteq> trim b | _ \<Rightarrow> False)
      then Inl ''url and target_url must match when both are supplied''
      else
       (let target = trimmed_or (in_target_url p) (trimmed_or (in_url p) (l_target_url l));
            slug = (if creating then trimmed_or (in_slug p) (l_slug l) else l_slug l);
            vis = str_or (trimmed_or (in_visibility p) (l_visibility l)) ''private''
        in if vis \<noteq> ''private'' \<and> vis \<noteq> ''department'' then Inl ''visibility must be private or department''
           else
            (case (case in_expires_at p of None \<Rightarrow> Some (l_expires_at l)
                   | Some s \<Rightarrow> if trim s = [] then Some None else map_option Some (co_rfc3339 c s)) of
               None \<Rightarrow> Inl ''expires_at must be RFC3339''
             | Some expires \<Rightarrow>
                 (let l1 = l\<lparr>l_target_url := target, l_slug := slug, l_title := trimmed_or (in_title p) (l_title l),
                          l_visibility := vis,
                          l_redirect_code := (case in_redirect_code p of None \<Rightarrow> l_redirect_code l | Some n \<Rightarrow> n),
                          l_expires_at := expires,
                          l_max_clicks := (if in_clear_max_clicks p then None
                                           else case in_max_clicks p of None \<Rightarrow> l_max_clicks l | Some n \<Rightarrow> Some n),
                          l_expired_url := trimmed_or (in_expired_url p) (l_expired_url l),
                          l_ios_url := trimmed_or (in_ios_url p) (l_ios_url l),
                          l_android_url := trimmed_or (in_android_url p) (l_android_url l),
                          l_forward_query := (case in_forward_query p of None \<Rightarrow> l_forward_query l | Some x \<Rightarrow> x),
                          l_utm_source := trimmed_or (in_utm_source p) (l_utm_source l),
                          l_utm_medium := trimmed_or (in_utm_medium p) (l_utm_medium l),
                          l_utm_campaign := trimmed_or (in_utm_campaign p) (l_utm_campaign l),
                          l_utm_term := trimmed_or (in_utm_term p) (l_utm_term l),
                          l_utm_content := trimmed_or (in_utm_content p) (l_utm_content l),
                          l_tags := (case in_tags p of None \<Rightarrow> l_tags l | Some ts \<Rightarrow> ts),
                          l_geo_targets := (case in_geo_targets p of None \<Rightarrow> l_geo_targets l | Some gs \<Rightarrow> gs)\<rparr>;
                      changed = (in_password p \<noteq> None \<or> in_clear_password p)
                  in case in_password p of
                       Some pw \<Rightarrow>
                         if length pw < 8 then Inl ''password must be at least 8 characters''
                         else (case co_hash c pw of Inl e \<Rightarrow> Inl e
                           | Inr hash \<Rightarrow>
                               if creating \<and> target = [] then Inl ''url is required''
                               else Inr (l1\<lparr>l_password_protected := True\<rparr>, hash, changed))
                     | None \<Rightarrow>
                         if creating \<and> target = [] then Inl ''url is required''
                         else Inr ((if in_clear_password p then l1\<lparr>l_password_protected := False\<rparr> else l1), [], changed)))))"

section \<open>Tags\<close>

text \<open>\<open>normalizeTags\<close>: trimmed, not empty, at most 40 bytes, each once, sorted bytewise.\<close>

fun keep_tags :: "string set \<Rightarrow> string list \<Rightarrow> string list" where
  "keep_tags seen [] = []"
| "keep_tags seen (t # ts) =
     (let u = trim t in
      if u = [] \<or> length u > 40 \<or> u \<in> seen then keep_tags seen ts else u # keep_tags (insert u seen) ts)"

fun byte_le :: "string \<Rightarrow> string \<Rightarrow> bool" where
  "byte_le [] t = True"
| "byte_le (c # s) [] = False"
| "byte_le (c # s) (d # t) =
     ((of_char c :: nat) < of_char d \<or> (c = d \<and> byte_le s t))"

fun insert_tag :: "string \<Rightarrow> string list \<Rightarrow> string list" where
  "insert_tag t [] = [t]"
| "insert_tag t (u # us) = (if byte_le t u then t # u # us else u # insert_tag t us)"

definition normalizeTags :: "string list \<Rightarrow> string list" where
  "normalizeTags ts = foldr insert_tag (keep_tags {} ts) []"

section \<open>Tags through the form\<close>

lemma trim_Cons_space: "trim (CHR '' '' # s) = trim s"
  by (simp add: trim_def is_space_def)

lemma split_on_space: "split_on (CHR '';'') (CHR '' '' # s) =
    (CHR '' '' # hd (split_on (CHR '';'') s)) # tl (split_on (CHR '';'') s)"
  by (simp split: list.split)

definition form_tag :: "string \<Rightarrow> bool" where
  \<comment> \<open>a tag the form can carry\<close>
  "form_tag t \<longleftrightarrow> t \<noteq> [] \<and> trim t = t \<and> CHR '';'' \<notin> set t"

lemma split_joined_tags:
  "ts \<noteq> [] \<Longrightarrow> \<forall>t \<in> set ts. form_tag t \<Longrightarrow> map trim (split_on (CHR '';'') (join_with ''; '' ts)) = ts"
proof (induction ts rule: induct_list012)
  case 1
  then show ?case by simp
next
  case (2 t)
  then show ?case by (simp add: form_tag_def)
next
  case (3 t u us)
  let ?rest = "join_with ''; '' (u # us)"
  have "split_on (CHR '';'') (join_with ''; '' (t # u # us)) = t # split_on (CHR '';'') (CHR '' '' # ?rest)"
    using 3(4) by (simp add: form_tag_def split_on_append_sep del: split_on.simps)
  moreover have "map trim (split_on (CHR '';'') ?rest) = u # us" using 3 by simp
  then have "map trim (split_on (CHR '';'') (CHR '' '' # ?rest)) = u # us"
    unfolding split_on_space
    by (cases "split_on (CHR '';'') ?rest") (simp_all add: trim_Cons_space)
  ultimately show ?case using 3(4) by (simp add: form_tag_def)
qed

lemma split_tags_join:
  assumes "\<forall>t \<in> set ts. form_tag t"
  shows "split_tags (join_with ''; '' ts) = ts"
proof (cases ts)
  case Nil
  then show ?thesis by (simp add: split_tags_def)
next
  case (Cons t us)
  have "join_with ''; '' ts \<noteq> []"
    using assms Cons by (cases us) (auto simp: form_tag_def)
  moreover have "filter (\<lambda>t. t \<noteq> []) ts = ts"
    using assms by (auto simp: form_tag_def filter_id_conv)
  ultimately show ?thesis
    using split_joined_tags [OF _ assms] Cons by (simp add: split_tags_def)
qed

section \<open>The round trip of an edit\<close>

text \<open>A link as the server stores it: texts are trimmed, the visibility and the redirect code are set.\<close>

definition stored_link :: "link \<Rightarrow> bool" where
  "stored_link l \<longleftrightarrow>
     (\<forall>t \<in> set [l_target_url l, l_title l, l_expired_url l, l_ios_url l, l_android_url l, l_utm_source l,
        l_utm_medium l, l_utm_campaign l]. trim t = t) \<and>
     l_visibility l \<in> {''private'', ''department''} \<and> l_redirect_code l \<noteq> 0 \<and> l_max_clicks l \<noteq> Some 0 \<and>
     (\<forall>t \<in> set (l_tags l). form_tag t)"

definition codec_ok :: "codec \<Rightarrow> jsval \<Rightarrow> int list \<Rightarrow> bool" where
  \<comment> \<open>what JSON promises for a value and RFC 3339 for some times: reading back what was written\<close>
  "codec_ok c v ts \<longleftrightarrow> co_json_parse c (co_json_text c v) = Some v \<and> co_json_text c v \<noteq> [] \<and>
     (\<forall>t \<in> set ts. co_rfc3339 c (co_iso c t) = Some t \<and> 16 \<le> length (co_iso c t) \<and> trim (co_iso c t) \<noteq> [])"

definition expiry_times :: "(int \<Rightarrow> int) \<Rightarrow> link \<Rightarrow> int list" where
  "expiry_times shifted l = (case l_expires_at l of None \<Rightarrow> [] | Some t \<Rightarrow> [t, shifted t])"

lemma set_control_text:
  "fo_text (set_control kv f) k = (if k = fst kv \<and> fo_text f k \<noteq> None then Some (snd kv) else fo_text f k)"
  by (auto simp: set_control_def)

lemma set_controls_text:
  "fo_text (fold set_control kvs f) k =
     (case fo_text f k of None \<Rightarrow> None | Some old \<Rightarrow>
        (case map_of (rev kvs) k of None \<Rightarrow> Some old | Some v \<Rightarrow> Some v))"
proof (induction kvs arbitrary: f)
  case Nil
  then show ?case by (simp split: option.split)
next
  case (Cons kv kvs)
  show ?case
    by (cases "fo_text f k"; cases "map_of (rev kvs) k"; cases kv) (auto simp: Cons set_control_text map_add_def)
qed

lemma set_controls_boxes [simp]:
  "fo_clear_password (fold set_control kvs f) = fo_clear_password f"
  "fo_clear_password (set_control kv f) = fo_clear_password f"
proof -
  show one: "fo_clear_password (set_control kv f) = fo_clear_password f" for kv f
    by (simp add: set_control_def)
  show "fo_clear_password (fold set_control kvs f) = fo_clear_password f"
    by (induction kvs arbitrary: f) (simp_all add: one)
qed

lemma edit_form_controls:
  "fo_text (edit_form c l) k =
     (case fo_text blank_edit_form k of None \<Rightarrow> None | Some old \<Rightarrow>
        (case map_of (rev (edit_values c l @
            (case l_expires_at l of None \<Rightarrow> [] | Some t \<Rightarrow> [(''expires_at'', take 16 (co_iso c t))]) @
            (case l_max_clicks l of None \<Rightarrow> [] | Some n \<Rightarrow> if n = 0 then [] else [(''max_clicks'', int_text n)]))) k of
           None \<Rightarrow> Some old | Some v \<Rightarrow> Some v))"
proof -
  have "edit_form c l = (fold set_control (edit_values c l @
      (case l_expires_at l of None \<Rightarrow> [] | Some t \<Rightarrow> [(''expires_at'', take 16 (co_iso c t))]) @
      (case l_max_clicks l of None \<Rightarrow> [] | Some n \<Rightarrow> if n = 0 then [] else [(''max_clicks'', int_text n)])) blank_edit_form)
      \<lparr>fo_forward_query := Some (l_forward_query l)\<rparr>"
    by (simp add: edit_form_def Let_def split: option.split)
  moreover have "fo_text (f\<lparr>fo_forward_query := x\<rparr>) = fo_text f" for f :: link_form and x
    by simp
  ultimately show ?thesis by (simp only: set_controls_text)
qed

lemma edit_form_text:
  "fo_text (edit_form c l) ''url'' = Some (l_target_url l)"
  "fo_text (edit_form c l) ''title'' = Some (l_title l)"
  "fo_text (edit_form c l) ''visibility'' = Some (str_or (l_visibility l) ''private'')"
  "fo_text (edit_form c l) ''redirect_code'' =
     Some (int_text (if l_redirect_code l = 0 then 302 else l_redirect_code l))"
  "fo_text (edit_form c l) ''expires_at'' =
     Some (case l_expires_at l of None \<Rightarrow> [] | Some t \<Rightarrow> take 16 (co_iso c t))"
  "fo_text (edit_form c l) ''max_clicks'' =
     Some (case l_max_clicks l of None \<Rightarrow> [] | Some n \<Rightarrow> if n = 0 then [] else int_text n)"
  "fo_text (edit_form c l) ''expired_url'' = Some (l_expired_url l)"
  "fo_text (edit_form c l) ''ios_url'' = Some (l_ios_url l)"
  "fo_text (edit_form c l) ''android_url'' = Some (l_android_url l)"
  "fo_text (edit_form c l) ''geo_targets'' = Some (co_json_text c (geo_js (l_geo_targets l)))"
  "fo_text (edit_form c l) ''tags'' = Some (join_with ''; '' (l_tags l))"
  "fo_text (edit_form c l) ''utm_source'' = Some (l_utm_source l)"
  "fo_text (edit_form c l) ''utm_medium'' = Some (l_utm_medium l)"
  "fo_text (edit_form c l) ''utm_campaign'' = Some (l_utm_campaign l)"
  "fo_text (edit_form c l) ''utm_term'' = None" "fo_text (edit_form c l) ''utm_content'' = None"
  "fo_text (edit_form c l) ''slug'' = None" "fo_text (edit_form c l) ''password'' = Some []"
  "fo_forward_query (edit_form c l) = Some (l_forward_query l)"
  "fo_clear_password (edit_form c l) = Some False"
  by (simp_all add: edit_form_controls blank_edit_form_def edit_values_def split: option.split)
    (simp_all add: edit_form_def Let_def blank_edit_form_def split: option.split)

lemma js_geo_back: "js_geo (JObj [(''country_code'', JStr a), (''target_url'', JStr b)]) =
    Some \<lparr>gt_country_code = a, gt_target_url = b\<rparr>"
  by (simp add: js_geo_def)

lemma js_geos_back: "js_geos (geo_js gs) = Some gs"
proof -
  have "all_some (map (\<lambda>g. js_geo (JObj [(''country_code'', JStr (gt_country_code g)), (''target_url'', JStr (gt_target_url g))])) gs) = Some gs"
    by (induction gs) (simp_all add: js_geo_back)
  then show ?thesis by (simp add: js_geos_def geo_js_def o_def)
qed

lemma js_strs_back: "js_strs (JArr (map JStr ts)) = Some ts"
proof -
  have "all_some (map (\<lambda>t. js_str (JStr t)) ts) = Some ts" by (induction ts) (simp_all add: js_str_def)
  then show ?thesis by (simp add: js_strs_def o_def)
qed

text \<open>The payload of an unchanged edit form, and what it decodes to.\<close>

lemma edit_payload:
  assumes "codec_ok c (geo_js (l_geo_targets l)) (case l_expires_at l of None \<Rightarrow> [] | Some t \<Rightarrow> t # ts t)"
    and "stored_link l"
    and "case l_expires_at l of None \<Rightarrow> expires = [] | Some t \<Rightarrow>
      (\<exists>t'. co_local c (take 16 (co_iso c t)) = Some t' \<and> expires = co_iso c t')"
  shows "linkPayloadFromForm c (edit_form c l) False = Inr (JObj
    ([(''url'', JStr (l_target_url l)), (''title'', JStr (l_title l)), (''visibility'', JStr (l_visibility l)),
      (''redirect_code'', JNum (l_redirect_code l)), (''forward_query'', JBool (l_forward_query l)),
      (''expired_url'', JStr (l_expired_url l)), (''ios_url'', JStr (l_ios_url l)),
      (''android_url'', JStr (l_android_url l)), (''utm_source'', JStr (l_utm_source l)),
      (''utm_medium'', JStr (l_utm_medium l)), (''utm_campaign'', JStr (l_utm_campaign l)),
      (''expires_at'', JStr expires)] @
     (case l_max_clicks l of None \<Rightarrow> [(''clear_max_clicks'', JBool True)] | Some n \<Rightarrow> [(''max_clicks'', JNum n)]) @
     [(''tags'', JArr (map JStr (l_tags l))), (''geo_targets'', geo_js (l_geo_targets l))]))"
proof -
  let ?f = "edit_form c l"
  note texts = edit_form_text [of c l]
  have r: "raw ?f ''url'' = l_target_url l" "raw ?f ''title'' = l_title l"
      "raw ?f ''visibility'' = l_visibility l" "raw ?f ''redirect_code'' = int_text (l_redirect_code l)"
      "raw ?f ''max_clicks'' = (case l_max_clicks l of None \<Rightarrow> [] | Some n \<Rightarrow> int_text n)"
      "raw ?f ''geo_targets'' = co_json_text c (geo_js (l_geo_targets l))"
      "raw ?f ''tags'' = join_with ''; '' (l_tags l)" "raw ?f ''password'' = []" "raw ?f ''slug'' = []"
    using assms(2) by (auto simp: raw_def texts stored_link_def str_or_def split: option.split)
  have vis: "str_or (l_visibility l) ''private'' = l_visibility l"
    using assms(2) by (auto simp: stored_link_def str_or_def)
  have opt: "concat (map (\<lambda>k. if fo_text ?f k = None then [] else [(k, JStr (raw ?f k))]) optional_texts) =
    [(''expired_url'', JStr (l_expired_url l)), (''ios_url'', JStr (l_ios_url l)),
     (''android_url'', JStr (l_android_url l)), (''utm_source'', JStr (l_utm_source l)),
     (''utm_medium'', JStr (l_utm_medium l)), (''utm_campaign'', JStr (l_utm_campaign l))]"
    by (simp add: optional_texts_def texts raw_def)
  have tags: "split_tags (join_with ''; '' (l_tags l)) = l_tags l"
    using assms(2) by (intro split_tags_join) (simp add: stored_link_def)
  have geo: "co_json_parse c (co_json_text c (geo_js (l_geo_targets l))) = Some (geo_js (l_geo_targets l))"
      "co_json_text c (geo_js (l_geo_targets l)) \<noteq> []"
    using assms(1) by (simp_all add: codec_ok_def)
  have ex: "(if raw ?f ''expires_at'' \<noteq> []
       then (case co_local c (raw ?f ''expires_at'') of None \<Rightarrow> Inl (JObj [])
             | Some t \<Rightarrow> Inr [(''expires_at'', JStr (co_iso c t))])
       else Inr (if False then [] else [(''expires_at'', JStr [])])) = (Inr [(''expires_at'', JStr expires)] :: jsval + _)"
  proof (cases "l_expires_at l")
    case None
    with assms(3) show ?thesis by (simp add: raw_def texts)
  next
    case (Some t)
    then have "16 \<le> length (co_iso c t)" using assms(1) by (simp add: codec_ok_def)
    then have "take 16 (co_iso c t) \<noteq> []" by auto
    with Some assms(3) show ?thesis by (auto simp: raw_def texts)
  qed
  show ?thesis
    unfolding linkPayloadFromForm_def Let_def ex
    by (cases "l_max_clicks l") (simp_all add: r vis opt tags geo texts)
qed

lemma with_str_JStr [simp]: "with_str (JStr s) f = Some (f s)"
  by (simp add: with_str_def)

lemma js_back [simp]: "js_strs (JArr (map JStr ts)) = Some ts" "js_geos (geo_js gs) = Some gs" "geo_js gs \<noteq> JNull"
  by (rule js_strs_back, rule js_geos_back, simp add: geo_js_def)

lemma edit_decoded:
  "decode_payload (JObj
    ([(''url'', JStr a), (''title'', JStr b), (''visibility'', JStr v),
      (''redirect_code'', JNum n), (''forward_query'', JBool fq),
      (''expired_url'', JStr eu), (''ios_url'', JStr iu), (''android_url'', JStr au), (''utm_source'', JStr us),
      (''utm_medium'', JStr um), (''utm_campaign'', JStr uc), (''expires_at'', JStr ex)] @
     (case mc of None \<Rightarrow> [(''clear_max_clicks'', JBool True)] | Some k \<Rightarrow> [(''max_clicks'', JNum k)]) @
     [(''tags'', JArr (map JStr ts)), (''geo_targets'', geo_js gs)])) =
   Some (empty_payload\<lparr>in_url := Some a, in_title := Some b, in_visibility := Some v, in_redirect_code := Some n,
      in_forward_query := Some fq, in_expired_url := Some eu, in_ios_url := Some iu, in_android_url := Some au,
      in_utm_source := Some us, in_utm_medium := Some um, in_utm_campaign := Some uc, in_expires_at := Some ex,
      in_clear_max_clicks := (mc = None), in_max_clicks := mc,
      in_tags := Some ts, in_geo_targets := Some gs\<rparr>)"
  by (cases mc) (simp_all add: decode_payload_def decode_field_def Let_def empty_payload_def)

lemma edit_saved_back:
  assumes "codec_ok c (geo_js (l_geo_targets l)) (expiry_times shifted l)" and "stored_link l"
    and "\<forall>t. l_expires_at l = Some t \<longrightarrow> co_local c (take 16 (co_iso c t)) = Some (shifted t)"
  shows "\<exists>v p. linkPayloadFromForm c (edit_form c l) False = Inr v \<and> decode_payload v = Some p \<and>
    applyLinkPayload c l p False = Inr (l\<lparr>l_expires_at := map_option shifted (l_expires_at l)\<rparr>, [], False) \<and>
    (l\<lparr>l_expires_at := map_option shifted (l_expires_at l)\<rparr> = l \<longleftrightarrow>
       (\<forall>t. l_expires_at l = Some t \<longrightarrow> shifted t = t))"
proof -
  define expires where "expires = (case l_expires_at l of None \<Rightarrow> [] | Some t \<Rightarrow> co_iso c (shifted t))"
  have read: "case l_expires_at l of None \<Rightarrow> expires = [] | Some t \<Rightarrow>
      (\<exists>t'. co_local c (take 16 (co_iso c t)) = Some t' \<and> expires = co_iso c t')"
    using assms(3) by (auto simp: expires_def split: option.split)
  have ok: "codec_ok c (geo_js (l_geo_targets l)) (case l_expires_at l of None \<Rightarrow> [] | Some t \<Rightarrow> t # (\<lambda>t. [shifted t]) t)"
    using assms(1) by (simp add: expiry_times_def cong: option.case_cong)
  note payload = edit_payload [OF ok assms(2) read]
  have ts: "trim (l_target_url l) = l_target_url l" "trim (l_title l) = l_title l"
      "trim (l_expired_url l) = l_expired_url l" "trim (l_ios_url l) = l_ios_url l"
      "trim (l_android_url l) = l_android_url l" "trim (l_utm_source l) = l_utm_source l"
      "trim (l_utm_medium l) = l_utm_medium l" "trim (l_utm_campaign l) = l_utm_campaign l"
      "trim (l_visibility l) = l_visibility l"
    using assms(2) by (auto simp: stored_link_def trim_def is_space_def)
  have vis: "l_visibility l = ''private'' \<or> l_visibility l = ''department''"
    using assms(2) by (auto simp: stored_link_def)
  have ex: "(if trim expires = [] then Some None else map_option Some (co_rfc3339 c expires)) =
      Some (map_option shifted (l_expires_at l))"
    using assms(1) by (cases "l_expires_at l") (simp_all add: expires_def codec_ok_def expiry_times_def trim_def)
  have same: "l\<lparr>l_expires_at := map_option shifted (l_expires_at l)\<rparr> = l \<longleftrightarrow>
      (\<forall>t. l_expires_at l = Some t \<longrightarrow> shifted t = t)"
    by (cases l; cases "l_expires_at l") auto
  show ?thesis
    by (intro exI conjI, rule payload, rule edit_decoded)
      (use vis ex in \<open>auto simp: applyLinkPayload_def empty_payload_def trimmed_or_def ts Let_def str_or_def same
          split: option.split\<close>)
qed

section \<open>Properties\<close>


definition berlin_codec :: codec where
  \<comment> \<open>a codec that knows one list of country routes and two times, read two hours ahead of UTC\<close>
  "berlin_codec =
     \<lparr>co_local = (\<lambda>s. if s = ''2026-07-02T10:00'' then Some 1782979200 else None),
      co_iso = (\<lambda>t. if t = 1782979200 then ''2026-07-02T08:00:00.000Z'' else ''2026-07-02T10:00:00.000Z''),
      co_rfc3339 = (\<lambda>s. if s = ''2026-07-02T08:00:00.000Z'' then Some 1782979200
        else if s = ''2026-07-02T10:00:00.000Z'' then Some 1782986400 else None),
      co_json_parse = (\<lambda>s. if s = ''[]'' then Some (JArr []) else None),
      co_json_text = (\<lambda>v. ''[]''), co_hash = Inr\<rparr>"


end
