(* ===== verification/ClickStore.thy ===== *)
theory ClickStore
  imports Database
begin

text \<open>
  The click log: \<open>ListClicks\<close> (\<open>internal/store/store.go\<close>) and the handler \<open>clicks\<close>. The query joins
  a click with its link, keeps the clicks of active links in the caller's scope, and filters by
  the parameters. It names a next cursor whenever the page is full, so it meets \<open>full_listing\<close>:
  every click is shown once, but the last page may be empty.

  \<open>read_time\<close> is \<open>time.Parse\<close> with the layouts RFC 3339 and \<open>2006-01-02\<close>, a parameter.
\<close>

definition isoCountryCodes :: "string list" where
  "isoCountryCodes = split_on (CHR '' '')
    (''AD AE AF AG AI AL AM AO AQ AR AS AT AU AW AX AZ BA BB BD BE BF BG BH BI BJ BL BM BN '' @
     ''BO BQ BR BS BT BV BW BY BZ CA CC CD CF CG CH CI CK CL CM CN CO CR CU CV CW CX CY CZ '' @
     ''DE DJ DK DM DO DZ EC EE EG EH ER ES ET FI FJ FK FM FO FR GA GB GD GE GF GG GH GI GL '' @
     ''GM GN GP GQ GR GS GT GU GW GY HK HM HN HR HT HU ID IE IL IM IN IO IQ IR IS IT JE JM '' @
     ''JO JP KE KG KH KI KM KN KP KR KW KY KZ LA LB LC LI LK LR LS LT LU LV LY MA MC MD ME '' @
     ''MF MG MH MK ML MM MN MO MP MQ MR MS MT MU MV MW MX MY MZ NA NC NE NF NG NI NL NO NP '' @
     ''NR NU NZ OM PA PE PF PG PH PK PL PM PN PR PS PT PW PY QA RE RO RS RU RW SA SB SC SD '' @
     ''SE SG SH SI SJ SK SL SM SN SO SR SS ST SV SX SY SZ TC TD TF TG TH TJ TK TL TM TN TO '' @
     ''TR TT TV TW TZ UA UG UM US UY UZ VA VC VE VG VI VN VU WF WS YE YT ZA ZM ZW'')"

text \<open>The optional filters that can be malformed. The outer \<open>None\<close> is the error, the inner one the
  absent filter.\<close>

definition link_id_param :: "query \<Rightarrow> int option option" where
  "link_id_param q =
     (if q ''link_id'' = [] then Some None
      else case parse_int64 (q ''link_id'') of None \<Rightarrow> None | Some i \<Rightarrow> if i < 1 then None else Some (Some i))"

definition country_param :: "query \<Rightarrow> string option option" where
  "country_param q =
     (let raw = upper (trim (q ''country'')) in
      if raw = [] then Some None else if raw \<in> set isoCountryCodes then Some (Some raw) else None)"

definition time_param :: "(string \<Rightarrow> int option) \<Rightarrow> string \<Rightarrow> query \<Rightarrow> int option option" where
  "time_param read_time key q =
     (if trim (q key) = [] then Some None
      else case read_time (trim (q key)) of None \<Rightarrow> None | Some t \<Rightarrow> Some (Some t))"

definition parseTimeRange :: "(string \<Rightarrow> int option) \<Rightarrow> query \<Rightarrow> (int option \<times> int option) option" where
  "parseTimeRange read_time q =
     (case (time_param read_time ''from'' q, time_param read_time ''to'' q) of
        (Some from, Some to) \<Rightarrow>
          (case (from, to) of (Some a, Some b) \<Rightarrow> if a < b then Some (from, to) else None
           | _ \<Rightarrow> Some (from, to))
      | _ \<Rightarrow> None)"

definition click_match ::
    "store \<Rightarrow> (link \<Rightarrow> bool) \<Rightarrow> query \<Rightarrow> int option \<Rightarrow> string option \<Rightarrow> int option \<Rightarrow> int option \<Rightarrow> click_event \<Rightarrow> bool" where
  "click_match s in_scope q link_id country from to c \<longleftrightarrow>
     (\<exists>l \<in> set (s_links s). l_id l = c_link_id c \<and> l_deleted_at l = None \<and> in_scope l) \<and>
     (case link_id of None \<Rightarrow> True | Some i \<Rightarrow> c_link_id c = i) \<and>
     (case country of None \<Rightarrow> True | Some cc \<Rightarrow> c_country_code c = cc) \<and>
     (\<forall>(key, field) \<in> set [(''device'', c_device c), (''browser'', c_browser c),
         (''campaign'', c_utm_campaign c), (''route_type'', c_route_type c)].
        trim (q key) \<noteq> [] \<longrightarrow> field = trim (q key)) \<and>
     (case from of None \<Rightarrow> True | Some t \<Rightarrow> t \<le> c_created_at c) \<and>
     (case to of None \<Rightarrow> True | Some t \<Rightarrow> c_created_at c < t)"

text \<open>The click as the query returns it: its slug is the link's.\<close>

definition click_slug :: "store \<Rightarrow> click_event \<Rightarrow> click_event" where
  "click_slug s c =
     (case find (\<lambda>l. l_id l = c_link_id c) (s_links s) of None \<Rightarrow> c | Some l \<Rightarrow> c\<lparr>c_slug := l_slug l\<rparr>)"

definition listClicks :: "(string \<Rightarrow> int option) \<Rightarrow> store \<Rightarrow> user \<Rightarrow> query \<Rightarrow> store_error + click_event page" where
  "listClicks read_time s u q =
     (case limit_param 100 200 q of None \<Rightarrow> Inl (Invalid ''limit must be 1 to 200'')
      | Some limit \<Rightarrow>
      (case view_scope u False of None \<Rightarrow> Inl Panicked
      | Some in_scope \<Rightarrow>
      (case link_id_param q of None \<Rightarrow> Inl (Invalid ''link_id must be a positive integer'')
      | Some link_id \<Rightarrow>
      (case country_param q of None \<Rightarrow> Inl (Invalid ''country must be an ISO-3166 alpha-2 code'')
      | Some country \<Rightarrow>
      (case parseTimeRange read_time q of None \<Rightarrow> Inl (Invalid ''from, to'')
      | Some (from, to) \<Rightarrow>
      (case cursor_param q of None \<Rightarrow> Inl (Invalid ''cursor must be a positive click id'')
      | Some cursor \<Rightarrow>
          Inr (full_page c_id (nat limit) (take (nat limit) (map (click_slug s)
            (after_cursor c_id cursor
              (order_desc c_id (filter (click_match s in_scope q link_id country from to) (s_clicks s)))))))))))))"

section \<open>The listing meets the contract\<close>

type_synonym click_request = "(string \<Rightarrow> int option) \<times> store \<times> user \<times> query"

definition click_request_ok :: "click_request \<Rightarrow> bool" where
  "click_request_ok = (\<lambda>(ts, s, u, q).
     wf_store s \<and> view_scope u False \<noteq> None \<and> limit_param 100 200 q \<noteq> None \<and>
     link_id_param q \<noteq> None \<and> country_param q \<noteq> None \<and> parseTimeRange ts q \<noteq> None)"

definition click_rows :: "click_request \<Rightarrow> click_event list" where
  "click_rows = (\<lambda>(ts, s, u, q).
     map (click_slug s) (order_desc c_id (filter (click_match s (the (view_scope u False)) q
       (the (link_id_param q)) (the (country_param q))
       (fst (the (parseTimeRange ts q))) (snd (the (parseTimeRange ts q)))) (s_clicks s))))"

definition click_fetch :: "click_request \<Rightarrow> int \<Rightarrow> click_event page" where
  "click_fetch = (\<lambda>(ts, s, u, q) c. case listClicks ts s u (with_cursor c q) of
     Inl _ \<Rightarrow> \<lparr>items = [], next_cursor = 0\<rparr> | Inr p \<Rightarrow> p)"

definition click_limit :: "click_request \<Rightarrow> nat" where
  "click_limit = (\<lambda>(ts, s, u, q). nat (the (limit_param 100 200 q)))"

lemma click_slug_id [simp]: "c_id (click_slug s c) = c_id c"
  by (simp add: click_slug_def split: option.split)

lemma after_cursor_slug:
  "after_cursor c_id c (map (click_slug s) xs) = map (click_slug s) (after_cursor c_id c xs)"
  by (simp add: after_cursor_def filter_map o_def)

lemma time_param_with_cursor [simp]:
  "key \<noteq> ''cursor'' \<Longrightarrow> time_param ts key (with_cursor c q) = time_param ts key q"
  by (simp add: time_param_def)

lemma click_params_with_cursor [simp]:
  "link_id_param (with_cursor c q) = link_id_param q"
  "country_param (with_cursor c q) = country_param q"
  "parseTimeRange ts (with_cursor c q) = parseTimeRange ts q"
  "click_match s f (with_cursor c q) = click_match s f q"
  by (simp_all add: link_id_param_def country_param_def parseTimeRange_def
      click_match_def fun_eq_iff)

interpretation click_pages: full_listing click_request_ok click_rows c_id click_fetch click_limit
proof
  fix k :: click_request and c :: int
  assume k: "click_request_ok k"
  obtain ts s u q where kk: "k = (ts, s, u, q)" by (cases k) auto
  obtain f li co fr to where v: "view_scope u False = Some f" "link_id_param q = Some li"
      "country_param q = Some co" "parseTimeRange ts q = Some (fr, to)"
    using k by (auto simp: kk click_request_ok_def)
  let ?sel = "filter (click_match s f q li co fr to) (s_clicks s)"
  have rows: "click_rows k = map (click_slug s) (order_desc c_id ?sel)"
    by (simp add: click_rows_def kk v)
  have wf: "wf_ids c_id ?sel" using k by (auto simp: kk click_request_ok_def intro: wf_ids_filter)
  show "sorted_wrt (\<lambda>x y. c_id y < c_id x) (click_rows k)"
    using wf_ids_sorted [OF wf] by (simp add: rows sorted_wrt_map)
  show "0 < c_id x \<and> c_id x < 2 ^ 53" if "x \<in> set (click_rows k)" for x
    using wf_ids_range [OF wf] that by (auto simp: rows)
  obtain lim where lim: "limit_param 100 200 q = Some lim" "1 \<le> lim"
    using k limit_param_range [of 100 200 q] by (auto simp: click_request_ok_def kk)
  then show "0 < click_limit k" by (simp add: click_limit_def kk)
  assume c: "cursor_ok c"
  show "click_fetch k c = full_page c_id (click_limit k)
      (take (click_limit k) (after_cursor c_id c (click_rows k)))"
    using lim v
    by (simp add: rows [unfolded kk] after_cursor_slug click_fetch_def click_limit_def kk listClicks_def
        with_cursor_param [OF c])
qed

section \<open>Properties\<close>

text \<open>C22: Paging through the click log loses nothing, but can end on an empty page. The pages put
  together are all selected clicks, newest first; and whenever the number of selected clicks is
  exactly the page size, the first page already holds them all, yet names a next cursor whose
  page is empty.\<close>

theorem click_paging:
  assumes "click_request_ok k"
  shows "(\<forall>n > length (click_rows k). concat (visit (click_fetch k) n reset_pager) = click_rows k) \<and>
    (length (click_rows k) = click_limit k \<longrightarrow>
       items (click_fetch k 0) = click_rows k \<and> next_cursor (click_fetch k 0) \<noteq> 0 \<and>
       items (click_fetch k (next_cursor (click_fetch k 0))) = [])"
proof -
  have all: "after_cursor c_id 0 (click_rows k) = click_rows k" by (simp add: after_cursor_def)
  have "items (click_fetch k 0) = click_rows k" if "length (click_rows k) = click_limit k"
    using that by (simp add: click_pages.fetch_full [OF assms] all full_page_def)
  then show ?thesis
    using click_pages.visit_complete [OF assms] click_pages.empty_last_page [OF assms, of 0]
    by (simp add: all)
qed

definition sample_click :: click_event where
  "sample_click =
     \<lparr>c_id = 4, c_link_id = 7, c_slug = ''promo'', c_country_code = ''DE'', c_status_code = 302,
      c_route_type = ''default'', c_browser = ''Firefox'', c_os = ''Linux'', c_device = ''desktop'',
      c_is_bot = False, c_referrer_host = [], c_utm_campaign = [], c_created_at = 50\<rparr>"

definition click_request_sample :: click_request where
  "click_request_sample =
     (\<lambda>_. None,
      \<lparr>s_users = [sample_admin], s_links = [sample_link], s_clicks = [sample_click],
       s_audit = [], s_audit_seq = 1\<rparr>,
      sample_admin, (\<lambda>_. [])(''limit'' := ''1'', ''country'' := '' de''))"

theorem click_paging_witness:
  "concat (visit (click_fetch click_request_sample) 2 reset_pager) = click_rows click_request_sample \<and>
   items (click_fetch click_request_sample 0) = click_rows click_request_sample \<and>
   next_cursor (click_fetch click_request_sample 0) \<noteq> 0 \<and>
   items (click_fetch click_request_sample (next_cursor (click_fetch click_request_sample 0))) = []"
proof -
  have "country_param ((\<lambda>_. [])(''limit'' := ''1'', ''country'' := '' de'')) \<noteq> None"
    by code_simp
  then have ok: "click_request_ok click_request_sample"
    by (simp add: click_request_ok_def click_request_sample_def wf_store_def wf_ids_def sample_admin_def
        sample_link_def sample_click_def view_scope_def limit_param_def link_id_param_def
        parseTimeRange_def time_param_def parse_int64_def parse_nat_def digit_val_def trim_def)
  have one: "length (click_rows click_request_sample) = 1" "click_limit click_request_sample = 1"
    by code_simp+
  show ?thesis using click_paging [OF ok] unfolding one by simp
qed

end
