(* ===== verification/LinkWrite.thy ===== *)
theory LinkWrite
  imports LinkHandler LinkForm ClickStore ClickRecord "HOL-Library.Multiset"
begin

text \<open>
  Writing links (\<open>internal/store/store.go\<close>: \<open>validateLink\<close>, \<open>CreateLink\<close>, \<open>CreateLinksBulk\<close>,
  \<open>UpdateLink\<close>, \<open>UpdateLinksBulk\<close>, \<open>replaceGeoTargets\<close>) and the handlers that do it (\<open>handlers.go\<close>: the
  POST branch of \<open>links\<close>, the PATCH branches of \<open>linkByID\<close> and \<open>bulkLinks\<close>).

  A row of \<open>links\<close> holds its geo targets, in the order \<open>hydrateLinks\<close> reads them. The parameter \<open>write_env\<close>
  holds \<open>url.ParseRequestURI\<close> (whether a text is an absolute URL with a host and the scheme http or https), the
  random slugs, and the values of the identity column. Of several faulty URLs the code reports one in the random
  order of a map; the model does not tell them apart.
\<close>

section \<open>Validation\<close>

record write_env =
  we_url :: "string \<Rightarrow> bool"
  we_slug :: "nat \<Rightarrow> string"  \<comment> \<open>\<open>randomSlug\<close> at its n-th call\<close>
  we_id :: "nat \<Rightarrow> int"      \<comment> \<open>the id of the n-th inserted row\<close>

definition slug_char :: "char \<Rightarrow> bool" where
  "slug_char c \<longleftrightarrow> c \<in> set ''abcdefghijklmnopqrstuvwxyzABCDEFGHIJKLMNOPQRSTUVWXYZ0123456789_-''"

definition slugRe :: "string \<Rightarrow> bool" where
  "slugRe s \<longleftrightarrow> 3 \<le> length s \<and> length s \<le> 80 \<and> list_all slug_char s"

definition validHTTPURL :: "write_env \<Rightarrow> string \<Rightarrow> bool" where
  "validHTTPURL env s = we_url env (trim s)"

definition redirect_codes :: "int list" where
  "redirect_codes = [301, 302, 307, 308]"

definition dynamic :: "link \<Rightarrow> bool" where
  "dynamic l \<longleftrightarrow> l_expires_at l \<noteq> None \<or> l_max_clicks l \<noteq> None \<or> l_ios_url l \<noteq> [] \<or> l_android_url l \<noteq> [] \<or>
     l_password_protected l \<or> l_geo_targets l \<noteq> [] \<or> l_forward_query l"

definition geo_country :: "geo_target \<Rightarrow> string" where
  "geo_country g = upper (trim (gt_country_code g))"

fun geo_error :: "write_env \<Rightarrow> string set \<Rightarrow> geo_target list \<Rightarrow> string option" where
  "geo_error env seen [] = None"
| "geo_error env seen (g # gs) =
     (if geo_country g \<notin> set isoCountryCodes \<or> geo_country g \<in> seen
      then Some ''geo target countries must be unique ISO-3166 alpha-2 codes''
      else if \<not> validHTTPURL env (gt_target_url g) then Some ''geo target: must be an absolute http or https URL''
      else geo_error env (insert (geo_country g) seen) gs)"

definition validateLink :: "write_env \<Rightarrow> link \<Rightarrow> string option" where
  "validateLink env l =
     (if str_or (l_visibility l) ''private'' \<notin> {''private'', ''department''}
      then Some ''visibility must be private or department''
      else if \<not> validHTTPURL env (l_target_url l) then Some ''target_url: must be an absolute http or https URL''
      else if list_ex (\<lambda>v. v \<noteq> [] \<and> \<not> validHTTPURL env v) [l_expired_url l, l_ios_url l, l_android_url l]
      then Some ''must be an absolute http or https URL''
      else if l_redirect_code l \<notin> set redirect_codes then Some ''redirect_code must be 301, 302, 307 or 308''
      else if dynamic l \<and> (l_redirect_code l = 301 \<or> l_redirect_code l = 308)
      then Some ''permanent redirect codes are not allowed with dynamic routing''
      else if (case l_max_clicks l of None \<Rightarrow> False | Some m \<Rightarrow> m < 1) then Some ''max_clicks must be positive''
      else case geo_error env {} (l_geo_targets l) of Some e \<Rightarrow> Some e
      | None \<Rightarrow> if length (normalizeTags (l_tags l)) > 20 then Some ''a link may have at most 20 tags'' else None)"

section \<open>Rows\<close>

text \<open>What the columns refuse: texts that are too long, and a visibility the check constraint does not list.\<close>

definition row_fits :: "link \<Rightarrow> bool" where
  "row_fits l \<longleftrightarrow> runes (l_title l) \<le> 180 \<and> l_visibility l \<in> {''private'', ''department''} \<and>
     list_all (\<lambda>v. runes v \<le> 255) [l_utm_source l, l_utm_medium l, l_utm_campaign l, l_utm_term l, l_utm_content l]"

fun insert_geo :: "geo_target \<Rightarrow> geo_target list \<Rightarrow> geo_target list" where
  "insert_geo g [] = [g]"
| "insert_geo g (x # xs) = (if byte_le (gt_country_code g) (gt_country_code x) then g # x # xs else x # insert_geo g xs)"

definition geo_row :: "geo_target \<Rightarrow> geo_target" where
  "geo_row g = \<lparr>gt_country_code = geo_country g, gt_target_url = trim (gt_target_url g)\<rparr>"

definition replaceGeoTargets :: "geo_target list \<Rightarrow> geo_target list" where
  \<comment> \<open>the targets as stored, in the order of their countries\<close>
  "replaceGeoTargets gs = foldr insert_geo (map geo_row gs) []"

definition write_fields :: "link \<Rightarrow> link \<Rightarrow> link" where
  \<comment> \<open>the columns an UPDATE of a link writes\<close>
  "write_fields l row = row\<lparr>l_target_url := l_target_url l, l_title := l_title l, l_visibility := l_visibility l,
     l_redirect_code := l_redirect_code l, l_expires_at := l_expires_at l, l_max_clicks := l_max_clicks l,
     l_expired_url := l_expired_url l, l_ios_url := l_ios_url l, l_android_url := l_android_url l,
     l_forward_query := l_forward_query l, l_utm_source := l_utm_source l, l_utm_medium := l_utm_medium l,
     l_utm_campaign := l_utm_campaign l, l_utm_term := l_utm_term l, l_utm_content := l_utm_content l,
     l_tags := normalizeTags (l_tags l), l_geo_targets := replaceGeoTargets (l_geo_targets l)\<rparr>"

definition write_password :: "string \<Rightarrow> link \<Rightarrow> link" where
  "write_password hash row = row\<lparr>l_password_hash := hash, l_password_protected := hash \<noteq> []\<rparr>"

definition new_row :: "int \<Rightarrow> int \<Rightarrow> user \<Rightarrow> link \<Rightarrow> string \<Rightarrow> link" where
  "new_row i now u l hash = write_password hash (write_fields l
     (blank_link\<lparr>l_id := i, l_user_id := u_id u, l_tenant_id := u_tenant_id u, l_slug := l_slug l, l_created_at := now\<rparr>))"

definition insert_row :: "link \<Rightarrow> store \<Rightarrow> store_error + store" where
  \<comment> \<open>slugs are unique over all links, the deleted ones too\<close>
  "insert_row row s =
     (if l_slug row \<in> set (map l_slug (s_links s)) then Inl (Invalid ''duplicate slug'')
      else if \<not> row_fits row then Inl (Invalid ''value refused'')
      else Inr (s\<lparr>s_links := s_links s @ [row]\<rparr>))"

definition default_code :: "link \<Rightarrow> link" where
  "default_code l = (if l_redirect_code l = 0 then l\<lparr>l_redirect_code := 302\<rparr> else l)"

definition default_fields :: "link \<Rightarrow> link" where
  "default_fields l = (let l1 = default_code l in
     if l_visibility l1 = [] then l1\<lparr>l_visibility := ''private''\<rparr> else l1)"

section \<open>The store operations\<close>

definition active_slug :: "store \<Rightarrow> string \<Rightarrow> store_error + link" where
  \<comment> \<open>\<open>LinkBySlug\<close>\<close>
  "active_slug s slug =
     (case find (\<lambda>l. l_slug l = slug \<and> l_deleted_at l = None) (s_links s) of None \<Rightarrow> Inl NoRows | Some l \<Rightarrow> Inr l)"

definition CreateLink ::
    "write_env \<Rightarrow> int \<Rightarrow> store \<Rightarrow> user \<Rightarrow> link \<Rightarrow> string \<Rightarrow> (store_error + link) \<times> store" where
  "CreateLink env now s u link0 hash =
     (let link1 = (if l_slug link0 = [] then link0\<lparr>l_slug := we_slug env 0\<rparr> else link0) in
      if \<not> slugRe (l_slug link1) then (Inl (Invalid ''slug must be 3-80 letters, numbers, _ or -''), s)
      else
        let link = (default_fields link1)\<lparr>l_password_protected := hash \<noteq> []\<rparr> in
        case validateLink env link of Some e \<Rightarrow> (Inl (Invalid e), s)
        | None \<Rightarrow>
            (case insert_row (new_row (we_id env 0) now u link hash) s of Inl e \<Rightarrow> (Inl e, s)
             | Inr s' \<Rightarrow> (active_slug s' (l_slug link), s')))"

fun prepare_rows :: "write_env \<Rightarrow> nat \<Rightarrow> string set \<Rightarrow> link list \<Rightarrow> string + link list" where
  "prepare_rows env k seen [] = Inr []"
| "prepare_rows env k seen (l # ls) =
     (let random = (l_slug l = []);
          l1 = (if random then l\<lparr>l_slug := we_slug env k\<rparr> else l) in
      if \<not> slugRe (l_slug l1) then Inl ''slug must be 3-80 letters, numbers, _ or -''
      else if l_slug l1 \<in> seen then Inl ''duplicate slug in CSV''
      else
        let l2 = default_fields l1 in
        case validateLink env l2 of Some e \<Rightarrow> Inl e
        | None \<Rightarrow>
            (case prepare_rows env (if random then k + 1 else k) (insert (l_slug l2) seen) ls of Inl e \<Rightarrow> Inl e
             | Inr rows \<Rightarrow> Inr (l2 # rows)))"

fun insert_rows :: "write_env \<Rightarrow> int \<Rightarrow> user \<Rightarrow> nat \<Rightarrow> link list \<Rightarrow> store \<Rightarrow> store_error + store" where
  "insert_rows env now u n [] s = Inr s"
| "insert_rows env now u n (l # ls) s =
     (case insert_row (new_row (we_id env n) now u l []) s of Inl e \<Rightarrow> Inl e
      | Inr s' \<Rightarrow> insert_rows env now u (n + 1) ls s')"

definition CreateLinksBulk ::
    "write_env \<Rightarrow> int \<Rightarrow> store \<Rightarrow> user \<Rightarrow> link list \<Rightarrow> (store_error + link list) \<times> store" where
  "CreateLinksBulk env now s u links =
     (if links = [] then (Inr [], s)
      else case prepare_rows env 0 {} links of Inl e \<Rightarrow> (Inl (Invalid e), s)
      | Inr rows \<Rightarrow>
          (case insert_rows env now u 0 rows s of Inl e \<Rightarrow> (Inl e, s)
           | Inr s' \<Rightarrow> (linksByIDs s' u (map (we_id env) [0..<length rows]), s')))"

definition update_row :: "link \<Rightarrow> string \<Rightarrow> bool \<Rightarrow> link \<Rightarrow> link" where
  "update_row link hash changed row =
     (if changed then write_password hash (write_fields link row) else write_fields link row)"

definition UpdateLink ::
    "write_env \<Rightarrow> store \<Rightarrow> user \<Rightarrow> int \<Rightarrow> link \<Rightarrow> string \<Rightarrow> bool \<Rightarrow> (store_error + link) \<times> store" where
  "UpdateLink env s u i link0 hash changed =
     (let link = (if changed then (default_code link0)\<lparr>l_password_protected := hash \<noteq> []\<rparr> else default_code link0) in
      case validateLink env link of Some e \<Rightarrow> (Inl (Invalid e), s)
      | None \<Rightarrow>
          (case manage_scope u of None \<Rightarrow> (Inl Panicked, s)
           | Some managed \<Rightarrow>
               let hit = (\<lambda>l. l_id l = i \<and> l_deleted_at l = None \<and> managed l) in
               if filter hit (s_links s) = [] then (Inl NoRows, s)
               else if \<not> row_fits link then (Inl (Invalid ''value refused''), s)
               else
                 let s' = s\<lparr>s_links := map (\<lambda>l. if hit l then update_row link hash changed l else l) (s_links s)\<rparr>
                 in (linkByID s' u i, s')))"

record link_update =
  lu_id :: int
  lu_link :: link
  lu_hash :: string
  lu_changed :: bool

definition apply_update :: "link_update \<Rightarrow> store \<Rightarrow> store" where
  "apply_update x s = s\<lparr>s_links :=
     map (\<lambda>l. if l_id l = lu_id x then update_row (lu_link x) (lu_hash x) (lu_changed x) l else l) (s_links s)\<rparr>"

definition UpdateLinksBulk ::
    "write_env \<Rightarrow> store \<Rightarrow> user \<Rightarrow> link_update list \<Rightarrow> (store_error + link list) \<times> store" where
  "UpdateLinksBulk env s u updates =
     (let ids = map lu_id updates in
      if updates = [] then (Inr [], s)
      else case find (\<lambda>x. validateLink env (lu_link x) \<noteq> None) updates of
        Some x \<Rightarrow> (Inl (Invalid (the (validateLink env (lu_link x)))), s)
      | None \<Rightarrow>
          (case manage_scope u of None \<Rightarrow> (Inl Panicked, s)
           | Some managed \<Rightarrow>
               if length (filter (\<lambda>l. l_deleted_at l = None \<and> l_id l \<in> set ids \<and> managed l) (s_links s)) \<noteq> length ids
               then (Inl NoRows, s)
               else if list_ex (\<lambda>x. \<not> row_fits (lu_link x)) updates then (Inl (Invalid ''value refused''), s)
               else let s' = fold apply_update updates s in (linksByIDs s' u ids, s')))"

section \<open>The handlers\<close>

text \<open>The answer of a handler whose store operation failed: a panic has none.\<close>

definition refuse :: "int \<Rightarrow> store_error \<Rightarrow> response" where
  "refuse status e = (if e = Panicked then Aborted else Status status)"

definition with_payload :: "jsval decoded \<Rightarrow> server \<Rightarrow> (link_payload \<Rightarrow> response \<times> server) \<Rightarrow> response \<times> server" where
  "with_payload body sv f =
     (case body of TooLarge \<Rightarrow> (Status 413, sv) | BadJson \<Rightarrow> (Status 400, sv)
      | Decoded v \<Rightarrow> (case decode_payload v of None \<Rightarrow> (Status 400, sv) | Some p \<Rightarrow> f p))"

definition changed_links :: "store \<Rightarrow> link list \<Rightarrow> server \<Rightarrow> server" where
  \<comment> \<open>the new tables, and the links whose cached redirects are dropped\<close>
  "changed_links s ls sv = sv\<lparr>sv_store := s, sv_invalidated := sv_invalidated sv @ ls\<rparr>"

definition links_POST :: "codec \<Rightarrow> write_env \<Rightarrow> request \<Rightarrow> jsval decoded \<Rightarrow> server \<Rightarrow> response \<times> server" where
  "links_POST c env rq body sv = with_payload body sv (\<lambda>p.
     case applyLinkPayload c (blank_link\<lparr>l_forward_query := True, l_redirect_code := 302, l_visibility := ''private''\<rparr>) p True of
       Inl e \<Rightarrow> (Status 400, sv)
     | Inr (link, hash, _) \<Rightarrow>
         (case CreateLink env (rq_now rq) (sv_store sv) (pr_effective (rq_principal rq)) link hash of
            (Inl e, s) \<Rightarrow> (refuse 400 e, sv\<lparr>sv_store := s\<rparr>)
          | (Inr l, s) \<Rightarrow>
              (case audit rq ''link.created'' ''link'' (int_text (l_id l)) ''success'' (changed_links s [l] sv) of
                 None \<Rightarrow> (Status 500, changed_links s [l] sv)
               | Some sv' \<Rightarrow> (Status 201, sv'))))"

definition linkByID_PATCH :: "codec \<Rightarrow> write_env \<Rightarrow> request \<Rightarrow> int \<Rightarrow> jsval decoded \<Rightarrow> server \<Rightarrow> response \<times> server" where
  "linkByID_PATCH c env rq i body sv = with_payload body sv (\<lambda>p.
     let u = pr_effective (rq_principal rq) in
     if in_slug p \<noteq> None then (Status 400, sv)
     else case linkByID (sv_store sv) u i of Inl e \<Rightarrow> (refuse 404 e, sv)
     | Inr current \<Rightarrow>
         (case applyLinkPayload c current p False of Inl e \<Rightarrow> (Status 400, sv)
          | Inr (link, hash, changed) \<Rightarrow>
              (case UpdateLink env (sv_store sv) u i link hash changed of
                 (Inl e, s) \<Rightarrow> (refuse 400 e, sv\<lparr>sv_store := s\<rparr>)
               | (Inr l, s) \<Rightarrow>
                   (case audit rq ''link.updated'' ''link'' (int_text i) ''success'' (changed_links s [l] sv) of
                      None \<Rightarrow> (Status 500, changed_links s [l] sv)
                    | Some sv' \<Rightarrow> (Status 200, sv')))))"

fun bulk_updates :: "codec \<Rightarrow> link_payload \<Rightarrow> int list \<Rightarrow> link list \<Rightarrow> link_update list option" where
  "bulk_updates c p (i # is) (l # ls) =
     (case applyLinkPayload c l p False of Inl e \<Rightarrow> None
      | Inr (link, hash, changed) \<Rightarrow>
          map_option ((#) \<lparr>lu_id = i, lu_link = link, lu_hash = hash, lu_changed = changed\<rparr>) (bulk_updates c p is ls))"
| "bulk_updates c p _ _ = Some []"

definition bulkLinks_PATCH ::
    "codec \<Rightarrow> write_env \<Rightarrow> request \<Rightarrow> (int list \<times> jsval) decoded \<Rightarrow> server \<Rightarrow> response \<times> server" where
  "bulkLinks_PATCH c env rq body sv =
     (case body of TooLarge \<Rightarrow> (Status 413, sv) | BadJson \<Rightarrow> (Status 400, sv)
      | Decoded (ids, set_js) \<Rightarrow> with_payload (Decoded set_js) sv (\<lambda>p.
          let u = pr_effective (rq_principal rq) in
          if length ids < 1 \<or> length ids > 500 \<or> in_slug p \<noteq> None \<or> list_ex (\<lambda>i. i < 1) ids \<or> \<not> distinct ids
          then (Status 400, sv)
          else case linksByIDs (sv_store sv) u ids of Inl e \<Rightarrow> (refuse 404 e, sv)
          | Inr current \<Rightarrow>
              (case bulk_updates c p ids current of None \<Rightarrow> (Status 400, sv)
               | Some updates \<Rightarrow>
                   (case UpdateLinksBulk env (sv_store sv) u updates of
                      (Inl e, s) \<Rightarrow> (refuse 409 e, sv\<lparr>sv_store := s\<rparr>)
                    | (Inr ls, s) \<Rightarrow>
                        (case audit rq ''link.bulk_updated'' ''link'' (int_text (int (length ls))) ''success'' (changed_links s ls sv) of
                           None \<Rightarrow> (Status 500, changed_links s ls sv)
                         | Some sv' \<Rightarrow> (Status 200, sv'))))))"

section \<open>Well-formed links\<close>

definition tags_ok :: "string list \<Rightarrow> bool" where
  "tags_ok ts \<longleftrightarrow> distinct ts \<and> length ts \<le> 20 \<and> (\<forall>t \<in> set ts. t \<noteq> [] \<and> trim t = t \<and> length t \<le> 40)"

definition geo_ok :: "write_env \<Rightarrow> geo_target list \<Rightarrow> bool" where
  "geo_ok env gs \<longleftrightarrow> distinct (map gt_country_code gs) \<and>
     (\<forall>g \<in> set gs. gt_country_code g \<in> set isoCountryCodes \<and> validHTTPURL env (gt_target_url g))"

definition urls_ok :: "write_env \<Rightarrow> link \<Rightarrow> bool" where
  "urls_ok env l \<longleftrightarrow> validHTTPURL env (l_target_url l) \<and>
     (\<forall>v \<in> {l_expired_url l, l_ios_url l, l_android_url l}. v \<noteq> [] \<longrightarrow> validHTTPURL env v)"

definition link_valid :: "write_env \<Rightarrow> link \<Rightarrow> bool" where
  "link_valid env l \<longleftrightarrow> slugRe (l_slug l) \<and> l_visibility l \<in> {''private'', ''department''} \<and> urls_ok env l \<and>
     l_redirect_code l \<in> set redirect_codes \<and> \<not> (dynamic l \<and> l_redirect_code l \<in> {301, 308}) \<and>
     (\<forall>m. l_max_clicks l = Some m \<longrightarrow> 1 \<le> m) \<and> geo_ok env (l_geo_targets l) \<and> tags_ok (l_tags l) \<and>
     (l_password_protected l \<longleftrightarrow> l_password_hash l \<noteq> [])"

definition links_ok :: "write_env \<Rightarrow> store \<Rightarrow> bool" where
  "links_ok env s \<longleftrightarrow> (\<forall>l \<in> set (s_links s). link_valid env l) \<and> wf_ids l_id (s_links s) \<and>
     distinct (map l_slug (s_links s))"

text \<open>Tags and geo targets as they are stored.\<close>

lemma keep_tags_mem: "t \<in> set (keep_tags seen ts) \<Longrightarrow> t \<notin> seen \<and> t \<noteq> [] \<and> length t \<le> 40 \<and> (\<exists>u. t = trim u)"
  by (induction seen ts rule: keep_tags.induct) (auto simp: Let_def split: if_splits)

lemma keep_tags_distinct: "distinct (keep_tags seen ts)"
proof (induction seen ts rule: keep_tags.induct)
  case (2 seen t ts)
  show ?case
  proof (cases "trim t = [] \<or> length (trim t) > 40 \<or> trim t \<in> seen")
    case True
    then show ?thesis using 2(1) [OF refl True] by (simp add: Let_def)
  next
    case False
    then show ?thesis using 2(2) [OF refl False] keep_tags_mem [of "trim t" "insert (trim t) seen" ts]
      by (auto simp: Let_def)
  qed
qed simp

lemma insert_tag_mset: "mset (insert_tag t ts) = add_mset t (mset ts)"
  by (induction ts) auto

lemma normalizeTags_mset: "mset (normalizeTags ts) = mset (keep_tags {} ts)"
proof -
  have "mset (foldr insert_tag us []) = mset us" for us by (induction us) (simp_all add: insert_tag_mset)
  then show ?thesis by (simp add: normalizeTags_def)
qed

lemma normalizeTags_set: "set (normalizeTags ts) = set (keep_tags {} ts)"
  by (rule mset_eq_setD [OF normalizeTags_mset])

lemma normalizeTags_distinct: "distinct (normalizeTags ts)"
  using keep_tags_distinct mset_eq_imp_distinct_iff [OF normalizeTags_mset] by blast

lemma normalizeTags_ok:
  assumes "length (normalizeTags ts) \<le> 20"
  shows "tags_ok (normalizeTags ts)"
  unfolding tags_ok_def
proof (intro conjI ballI assms normalizeTags_distinct)
  fix t
  assume "t \<in> set (normalizeTags ts)"
  from keep_tags_mem [OF this [unfolded normalizeTags_set]]
  show "t \<noteq> []" "trim t = t" "length t \<le> 40" by auto
qed

lemma insert_geo_mset: "mset (insert_geo g gs) = add_mset g (mset gs)"
  by (induction gs) auto

lemma replaceGeo_mset: "mset (replaceGeoTargets gs) = mset (map geo_row gs)"
proof -
  have "mset (foldr insert_geo xs []) = mset xs" for xs by (induction xs) (simp_all add: insert_geo_mset)
  then show ?thesis by (simp add: replaceGeoTargets_def)
qed

lemma geo_error_Cons:
  "geo_error env seen (g # gs) = None \<longleftrightarrow> geo_country g \<in> set isoCountryCodes \<and> geo_country g \<notin> seen \<and>
     validHTTPURL env (gt_target_url g) \<and> geo_error env (insert (geo_country g) seen) gs = None"
  unfolding geo_error.simps by (simp split: if_split)

lemma geo_error_ok:
  "geo_error env seen gs = None \<Longrightarrow> distinct (map geo_country gs) \<and>
     (\<forall>g \<in> set gs. geo_country g \<in> set isoCountryCodes \<and> geo_country g \<notin> seen \<and> validHTTPURL env (gt_target_url g))"
proof (induction gs arbitrary: seen)
  case (Cons g gs)
  note g = Cons.prems [unfolded geo_error_Cons]
  with Cons.IH [of "insert (geo_country g) seen"] show ?case by auto
qed simp

lemma replaceGeo_ok:
  assumes "geo_error env {} gs = None"
  shows "geo_ok env (replaceGeoTargets gs)"
proof -
  have "mset (map gt_country_code (replaceGeoTargets gs)) = mset (map geo_country gs)"
    using arg_cong [OF replaceGeo_mset, of "image_mset gt_country_code" gs]
    by (simp add: geo_row_def image_mset.compositionality o_def)
  then have "distinct (map gt_country_code (replaceGeoTargets gs))"
    using geo_error_ok [OF assms] mset_eq_imp_distinct_iff by blast
  then show ?thesis using geo_error_ok [OF assms] mset_eq_setD [OF replaceGeo_mset [of gs]]
    by (auto simp: geo_ok_def geo_row_def validHTTPURL_def)
qed

lemma replaceGeo_Nil [simp]: "replaceGeoTargets gs = [] \<longleftrightarrow> gs = []"
  using arg_cong [OF replaceGeo_mset [of gs], of size] by (cases gs) auto

text \<open>What a link must be for its fields to be written.\<close>

lemma validateLink_ok:
  assumes "validateLink env l = None"
  shows "urls_ok env l" "l_redirect_code l \<in> set redirect_codes" "\<not> (dynamic l \<and> l_redirect_code l \<in> {301, 308})"
    "\<forall>m. l_max_clicks l = Some m \<longrightarrow> 1 \<le> m" "geo_error env {} (l_geo_targets l) = None"
    "length (normalizeTags (l_tags l)) \<le> 20"
  using assms unfolding validateLink_def urls_ok_def by (auto split: if_splits option.splits)

lemma update_row_fields:
  "l_slug (update_row l h ch row) = l_slug row" "l_id (update_row l h ch row) = l_id row"
  "l_visibility (update_row l h ch row) = l_visibility l" "l_redirect_code (update_row l h ch row) = l_redirect_code l"
  "l_max_clicks (update_row l h ch row) = l_max_clicks l" "urls_ok env (update_row l h ch row) = urls_ok env l"
  "l_geo_targets (update_row l h ch row) = replaceGeoTargets (l_geo_targets l)"
  "l_tags (update_row l h ch row) = normalizeTags (l_tags l)"
  "l_password_protected (update_row l h ch row) = (if ch then h \<noteq> [] else l_password_protected row)"
  "l_password_hash (update_row l h ch row) = (if ch then h else l_password_hash row)"
  by (simp_all add: update_row_def write_fields_def write_password_def urls_ok_def)

lemma update_row_dynamic:
  "dynamic (update_row l h ch row) \<Longrightarrow> (l_password_protected (update_row l h ch row) \<longrightarrow> l_password_protected l) \<Longrightarrow> dynamic l"
  by (auto simp: dynamic_def update_row_def write_fields_def write_password_def split: if_splits)

lemma update_row_valid:
  assumes "validateLink env l = None" and "row_fits l" and "slugRe (l_slug row)"
    and "l_password_protected row \<longleftrightarrow> l_password_hash row \<noteq> []"
    and "l_password_protected (update_row l h ch row) \<longrightarrow> l_password_protected l"
  shows "link_valid env (update_row l h ch row)"
  unfolding link_valid_def update_row_fields
  using assms(2-4) validateLink_ok [OF assms(1)] update_row_dynamic [OF _ assms(5)]
    replaceGeo_ok normalizeTags_ok
  by (auto simp: row_fits_def)

lemma new_row_update:
  "new_row i now u l hash = update_row l hash True
     (blank_link\<lparr>l_id := i, l_user_id := u_id u, l_tenant_id := u_tenant_id u, l_slug := l_slug l, l_created_at := now\<rparr>)"
  by (simp add: new_row_def update_row_def)

lemma new_row_valid:
  assumes "validateLink env l = None" and "row_fits (new_row i now u l hash)" and "slugRe (l_slug l)"
    and "hash \<noteq> [] \<longrightarrow> l_password_protected l"
  shows "link_valid env (new_row i now u l hash)"
proof -
  have "row_fits l" using assms(2) by (simp add: row_fits_def new_row_def write_password_def write_fields_def)
  then show ?thesis unfolding new_row_update
    by (intro update_row_valid [OF assms(1)]) (use assms in \<open>simp_all add: blank_link_def update_row_fields\<close>)
qed

section \<open>Every operation keeps the table well formed\<close>

lemma link_valid_env: "we_url env = we_url env' \<Longrightarrow> link_valid env l = link_valid env' l"
  by (simp add: link_valid_def urls_ok_def geo_ok_def validHTTPURL_def)

lemma links_ok_env: "we_url env = we_url env' \<Longrightarrow> links_ok env s = links_ok env' s"
  by (simp add: links_ok_def link_valid_env [of env env'])

text \<open>Rewriting rows in place, with their ids and slugs.\<close>

lemma links_ok_map:
  assumes "links_ok env s" and "\<And>l. l_id (f l) = l_id l" and "\<And>l. l_slug (f l) = l_slug l"
    and "\<And>l. l \<in> set (s_links s) \<Longrightarrow> link_valid env l \<Longrightarrow> link_valid env (f l)"
  shows "links_ok env (s\<lparr>s_links := map f (s_links s)\<rparr>)"
proof -
  have e: "map l_id (map f xs) = map l_id xs" "map l_slug (map f xs) = map l_slug xs" for xs
    by (simp_all add: assms(2,3))
  have "wf_ids l_id (map f (s_links s)) = wf_ids l_id (s_links s)"
    unfolding wf_ids_def e by (simp add: assms(2))
  moreover have "distinct (map l_slug (map f (s_links s)))"
    unfolding e using assms(1) by (simp add: links_ok_def)
  moreover have "\<forall>l \<in> set (map f (s_links s)). link_valid env l"
    using assms(1,4) by (auto simp: links_ok_def)
  ultimately show ?thesis using assms(1) by (simp add: links_ok_def del: map_map)
qed

lemma links_ok_insert:
  assumes "links_ok env s" and "insert_row row s = Inr s'" and "row_fits row \<Longrightarrow> link_valid env row"
    and "l_id row \<notin> l_id ` set (s_links s)" and "0 < l_id row" and "l_id row < 2 ^ 53"
  shows "links_ok env s'" "s_links s' = s_links s @ [row]"
  using assms by (auto simp: insert_row_def links_ok_def wf_ids_def split: if_splits)

lemma fresh_row_fields:
  "l_id (new_row i now u l hash) = i" "l_slug (new_row i now u l hash) = l_slug l"
  "row_fits (new_row i now u l hash) = row_fits l"
  by (simp_all add: new_row_def write_password_def write_fields_def row_fits_def)

lemma default_fields_slug [simp]: "l_slug (default_fields l) = l_slug l"
  by (simp add: default_fields_def default_code_def Let_def)

lemma CreateLink_cases:
  "snd (CreateLink env now s u link0 hash) = s \<or>
   (\<exists>link. insert_row (new_row (we_id env 0) now u link hash) s = Inr (snd (CreateLink env now s u link0 hash)) \<and>
      validateLink env link = None \<and> slugRe (l_slug link) \<and> l_password_protected link = (hash \<noteq> []))"
proof -
  define link1 where "link1 = (if l_slug link0 = [] then link0\<lparr>l_slug := we_slug env 0\<rparr> else link0)"
  define link where "link = (default_fields link1)\<lparr>l_password_protected := hash \<noteq> []\<rparr>"
  have c: "CreateLink env now s u link0 hash =
      (if \<not> slugRe (l_slug link1) then (Inl (Invalid ''slug must be 3-80 letters, numbers, _ or -''), s)
       else case validateLink env link of Some e \<Rightarrow> (Inl (Invalid e), s)
         | None \<Rightarrow> (case insert_row (new_row (we_id env 0) now u link hash) s of Inl e \<Rightarrow> (Inl e, s)
             | Inr s' \<Rightarrow> (active_slug s' (l_slug link), s')))"
    by (simp add: CreateLink_def link1_def [symmetric] link_def [symmetric] Let_def)
  have f: "l_slug link = l_slug link1" "l_password_protected link = (hash \<noteq> [])" by (simp_all add: link_def)
  show ?thesis
  proof (cases "slugRe (l_slug link1) \<and> validateLink env link = None")
    case True
    then have c': "CreateLink env now s u link0 hash =
        (case insert_row (new_row (we_id env 0) now u link hash) s of Inl e \<Rightarrow> (Inl e, s)
         | Inr s' \<Rightarrow> (active_slug s' (l_slug link), s'))" unfolding c by simp
    show ?thesis
    proof (cases "insert_row (new_row (we_id env 0) now u link hash) s")
      case (Inr s')
      with True f show ?thesis unfolding c' by (intro disjI2 exI [of _ link]) simp
    qed (simp add: c')
  next
    case False
    then show ?thesis unfolding c by (cases "validateLink env link") simp_all
  qed
qed

lemma CreateLink_keeps:
  assumes "links_ok env s" and "we_id env 0 \<notin> l_id ` set (s_links s)" and "0 < we_id env 0" and "we_id env 0 < 2 ^ 53"
  shows "links_ok env (snd (CreateLink env now s u link0 hash))"
  using CreateLink_cases [of env now s u link0 hash]
proof
  assume "snd (CreateLink env now s u link0 hash) = s"
  then show ?thesis using assms(1) by simp
next
  assume "\<exists>link. insert_row (new_row (we_id env 0) now u link hash) s = Inr (snd (CreateLink env now s u link0 hash)) \<and>
      validateLink env link = None \<and> slugRe (l_slug link) \<and> l_password_protected link = (hash \<noteq> [])"
  then obtain link where "insert_row (new_row (we_id env 0) now u link hash) s = Inr (snd (CreateLink env now s u link0 hash))"
    and "validateLink env link = None" "slugRe (l_slug link)" "l_password_protected link = (hash \<noteq> [])"
    by blast
  note link = this
  show ?thesis
  proof (rule links_ok_insert(1) [OF assms(1) link(1)])
    assume "row_fits (new_row (we_id env 0) now u link hash)"
    from new_row_valid [OF link(2) this link(3)] show "link_valid env (new_row (we_id env 0) now u link hash)"
      using link(4) by blast
  qed (simp_all only: fresh_row_fields assms(2-4) not_False_eq_True)
qed

definition update_guard :: "link \<Rightarrow> string \<Rightarrow> bool \<Rightarrow> link \<Rightarrow> bool" where
  \<comment> \<open>the flag of the checked link covers the password the row will have\<close>
  "update_guard link hash changed row \<longleftrightarrow>
     l_password_protected (update_row link hash changed row) \<longrightarrow> l_password_protected link"

lemma update_row_keeps_valid:
  assumes "validateLink env link = None" and "row_fits link" and "link_valid env row" and "update_guard link hash ch row"
  shows "link_valid env (update_row link hash ch row)"
  using assms by (intro update_row_valid) (simp_all add: link_valid_def update_guard_def)

lemma links_ok_update:
  assumes "links_ok env s" and "validateLink env link = None" and "row_fits link"
    and "\<And>l. l \<in> set (s_links s) \<Longrightarrow> hit l \<Longrightarrow> update_guard link hash ch l"
  shows "links_ok env (s\<lparr>s_links := map (\<lambda>l. if hit l then update_row link hash ch l else l) (s_links s)\<rparr>)"
proof (rule links_ok_map [OF assms(1)])
  show "link_valid env (if hit l then update_row link hash ch l else l)"
    if "l \<in> set (s_links s)" "link_valid env l" for l
    using that assms(4) [OF that(1)] update_row_keeps_valid [OF assms(2,3) that(2)] by simp
qed (simp_all add: update_row_fields)

definition update_hit :: "user \<Rightarrow> int \<Rightarrow> link \<Rightarrow> bool" where
  "update_hit u i l \<longleftrightarrow> l_id l = i \<and> l_deleted_at l = None \<and>
     (case manage_scope u of None \<Rightarrow> False | Some managed \<Rightarrow> managed l)"

definition update_input :: "link \<Rightarrow> string \<Rightarrow> bool \<Rightarrow> link" where
  \<comment> \<open>the link \<open>UpdateLink\<close> checks and writes\<close>
  "update_input link0 hash changed =
     (if changed then (default_code link0)\<lparr>l_password_protected := hash \<noteq> []\<rparr> else default_code link0)"

lemma update_input_flag:
  "l_password_protected (update_input link0 hash ch) = (if ch then hash \<noteq> [] else l_password_protected link0)"
  by (simp add: update_input_def default_code_def)

lemma UpdateLink_scoped:
  assumes "manage_scope u = Some managed"
  shows "UpdateLink env s u i link0 hash ch =
    (case validateLink env (update_input link0 hash ch) of Some e \<Rightarrow> (Inl (Invalid e), s)
     | None \<Rightarrow>
        if filter (update_hit u i) (s_links s) = [] then (Inl NoRows, s)
        else if \<not> row_fits (update_input link0 hash ch) then (Inl (Invalid ''value refused''), s)
        else let s' = s\<lparr>s_links := map (\<lambda>l. if update_hit u i l then update_row (update_input link0 hash ch) hash ch l else l)
                  (s_links s)\<rparr> in (linkByID s' u i, s'))"
proof -
  have h: "update_hit u i = (\<lambda>l. l_id l = i \<and> l_deleted_at l = None \<and> managed l)"
    by (rule ext) (simp add: update_hit_def assms)
  show ?thesis unfolding UpdateLink_def h update_input_def [symmetric] Let_def assms option.case ..
qed

text \<open>When an update happens, and what it does to the tables.\<close>

lemma UpdateLink_cases:
  "snd (UpdateLink env s u i link0 hash ch) =
     (if manage_scope u \<noteq> None \<and> validateLink env (update_input link0 hash ch) = None \<and>
         (\<exists>l \<in> set (s_links s). update_hit u i l) \<and> row_fits (update_input link0 hash ch)
      then s\<lparr>s_links := map (\<lambda>l. if update_hit u i l then update_row (update_input link0 hash ch) hash ch l else l)
             (s_links s)\<rparr>
      else s)"
proof (cases "manage_scope u")
  case None
  then show ?thesis by (simp add: UpdateLink_def Let_def split: option.split)
next
  case (Some managed)
  have f: "filter (update_hit u i) (s_links s) = [] \<longleftrightarrow> \<not> (\<exists>l \<in> set (s_links s). update_hit u i l)"
    by (simp add: filter_empty_conv)
  show ?thesis unfolding UpdateLink_scoped [OF Some] f Let_def
    by (cases "validateLink env (update_input link0 hash ch)") (simp_all add: Some)
qed

lemma UpdateLink_keeps:
  assumes "links_ok env s"
    and "\<And>l. l \<in> set (s_links s) \<Longrightarrow> update_hit u i l \<Longrightarrow> \<not> ch \<Longrightarrow> l_password_protected l \<Longrightarrow> l_password_protected link0"
  shows "links_ok env (snd (UpdateLink env s u i link0 hash ch))"
proof -
  have g: "update_guard (update_input link0 hash ch) hash ch l" if "l \<in> set (s_links s)" "update_hit u i l" for l
    using assms(2) [OF that] by (simp add: update_guard_def update_row_fields update_input_flag)
  show ?thesis
  proof (cases "validateLink env (update_input link0 hash ch) = None \<and> row_fits (update_input link0 hash ch)")
    case True
    then show ?thesis using links_ok_update [OF assms(1) _ _ g] assms(1) unfolding UpdateLink_cases by simp
  next
    case False
    then show ?thesis using assms(1) unfolding UpdateLink_cases by auto
  qed
qed

text \<open>The rows an account may write are the rows it may delete.\<close>

lemma deletable_update_hit: "deletable s u i \<longleftrightarrow> (\<exists>l \<in> set (s_links s). update_hit u i l)"
  by (auto simp: deletable_def update_hit_def)

lemma update_hit_cong:
  "l_id l' = l_id l \<Longrightarrow> l_deleted_at l' = l_deleted_at l \<Longrightarrow> l_user_id l' = l_user_id l \<Longrightarrow> l_tenant_id l' = l_tenant_id l \<Longrightarrow>
   update_hit u i l' = update_hit u i l"
  by (simp add: update_hit_def manage_scope_def split: option.split)

lemma update_row_keeps:
  "l_deleted_at (update_row l h ch row) = l_deleted_at row" "l_user_id (update_row l h ch row) = l_user_id row"
  "l_tenant_id (update_row l h ch row) = l_tenant_id row" "l_clicks (update_row l h ch row) = l_clicks row"
  "l_created_at (update_row l h ch row) = l_created_at row"
  by (simp_all add: update_row_def write_fields_def write_password_def)

lemma deletable_after_update:
  "deletable (s\<lparr>s_links := map (\<lambda>l. if P l then update_row link h ch l else l) (s_links s)\<rparr>) u i = deletable s u i"
proof -
  have "update_hit u i (if P l then update_row link h ch l else l) = update_hit u i l" for l
    by (intro update_hit_cong) (simp_all add: update_row_keeps update_row_fields)
  then have "(\<exists>x \<in> set (map (\<lambda>l. if P l then update_row link h ch l else l) xs). update_hit u i x) \<longleftrightarrow>
      (\<exists>x \<in> set xs. update_hit u i x)" for xs
    unfolding set_map by blast
  then show ?thesis unfolding deletable_update_hit by simp
qed

lemma apply_update_row: "s_links (apply_update x s) =
    map (\<lambda>l. if l_id l = lu_id x then update_row (lu_link x) (lu_hash x) (lu_changed x) l else l) (s_links s)"
  by (simp add: apply_update_def)

lemma deletable_apply_update: "deletable (apply_update x s) u i = deletable s u i"
  unfolding apply_update_def by (rule deletable_after_update)

lemma deletable_apply_updates: "deletable (fold apply_update xs s) u i = deletable s u i"
  by (induction xs arbitrary: s) (simp_all add: deletable_apply_update)

lemma apply_update_ids: "map l_id (s_links (apply_update x s)) = map l_id (s_links s)"
  by (simp add: apply_update_row update_row_fields)

lemma linkByID_found:
  assumes "deletable s u i"
  obtains l where "linkByID s u i = Inr l" "l \<in> set (s_links s)" "l_id l = i"
proof -
  from assms obtain managed l where m: "manage_scope u = Some managed" and l: "l \<in> set (s_links s)" "l_id l = i"
      "l_deleted_at l = None" "managed l" by (auto simp: deletable_def split: option.splits)
  then obtain f where f: "view_scope u False = Some f" using manage_scope_defined [of u False] by auto
  have "visible f i l" using manage_within_view [OF m f l(4)] l by (simp add: visible_def)
  then obtain l' where "find (visible f i) (s_links s) = Some l'"
    using l(1) by (cases "find (visible f i) (s_links s)") (auto simp: find_None_iff)
  from find_SomeD [OF this] this that show ?thesis by (auto simp: linkByID_visible [OF f] visible_def)
qed

definition update_ready :: "write_env \<Rightarrow> store \<Rightarrow> user \<Rightarrow> int \<Rightarrow> link \<Rightarrow> bool" where
  "update_ready env s u i link \<longleftrightarrow> validateLink env link = None \<and> row_fits link \<and> deletable s u i"

lemma deletable_scope_defined: "deletable s u i \<Longrightarrow> manage_scope u \<noteq> None"
  by (cases "manage_scope u") (simp_all add: deletable_def)

lemma UpdateLink_ready:
  "UpdateLink env s u i link0 hash ch = (r, s') \<Longrightarrow>
   (if update_ready env s u i (update_input link0 hash ch)
    then (\<exists>l. r = Inr l \<and> l \<in> set (s_links s') \<and> l_id l = i) \<and>
      s' = s\<lparr>s_links := map (\<lambda>l. if update_hit u i l then update_row (update_input link0 hash ch) hash ch l else l) (s_links s)\<rparr>
    else (\<exists>e. r = Inl e) \<and> s' = s)"
proof (cases "manage_scope u")
  case None
  assume "UpdateLink env s u i link0 hash ch = (r, s')"
  then show ?thesis using None deletable_scope_defined [of s u i]
    by (auto simp: UpdateLink_def Let_def update_ready_def split: option.splits)
next
  case (Some managed)
  assume a: "UpdateLink env s u i link0 hash ch = (r, s')"
  let ?l = "update_input link0 hash ch"
  let ?s = "s\<lparr>s_links := map (\<lambda>l. if update_hit u i l then update_row ?l hash ch l else l) (s_links s)\<rparr>"
  have f: "filter (update_hit u i) (s_links s) = [] \<longleftrightarrow> \<not> deletable s u i"
    by (simp add: filter_empty_conv deletable_update_hit)
  note d = UpdateLink_scoped [OF Some, of env s i link0 hash ch, unfolded f Let_def]
  show ?thesis
  proof (cases "update_ready env s u i ?l")
    case True
    then have "UpdateLink env s u i link0 hash ch = (linkByID ?s u i, ?s)" unfolding d by (simp add: update_ready_def)
    then have "r = linkByID ?s u i" "s' = ?s" using a by simp_all
    moreover obtain l where "linkByID ?s u i = Inr l" "l \<in> set (s_links ?s)" "l_id l = i"
      using True linkByID_found [of ?s u i] unfolding update_ready_def deletable_after_update by blast
    ultimately show ?thesis using True by simp
  next
    case False
    then show ?thesis using a d by (auto simp: update_ready_def split: option.splits if_splits)
  qed
qed

text \<open>The bulk update: all the checks first, on the tables as they were.\<close>

definition bulk_ready :: "write_env \<Rightarrow> store \<Rightarrow> user \<Rightarrow> link_update list \<Rightarrow> bool" where
  "bulk_ready env s u xs \<longleftrightarrow> distinct (map lu_id xs) \<and> (\<forall>x \<in> set xs. update_ready env s u (lu_id x) (lu_link x))"

lemma managed_hits_all:
  assumes "wf_ids l_id (s_links s)" and "manage_scope u = Some managed"
  shows "length (filter (\<lambda>l. l_deleted_at l = None \<and> l_id l \<in> set ids \<and> managed l) (s_links s)) = length ids \<longleftrightarrow>
    distinct ids \<and> (\<forall>i \<in> set ids. deletable s u i)"
proof
  assume "length (filter (\<lambda>l. l_deleted_at l = None \<and> l_id l \<in> set ids \<and> managed l) (s_links s)) = length ids"
  then show "distinct ids \<and> (\<forall>i \<in> set ids. deletable s u i)"
    using card_all [of ids "deletable s u"] unfolding deletable_hits [OF assms] by blast
next
  assume a: "distinct ids \<and> (\<forall>i \<in> set ids. deletable s u i)"
  then have "{i \<in> set ids. deletable s u i} = set ids" by blast
  with a show "length (filter (\<lambda>l. l_deleted_at l = None \<and> l_id l \<in> set ids \<and> managed l) (s_links s)) = length ids"
    unfolding deletable_hits [OF assms] by (simp add: distinct_card)
qed

lemma lookup_all_found:
  "(\<And>i. i \<in> set ids \<Longrightarrow> deletable s u i) \<Longrightarrow> \<exists>ls. lookup_all s u ids = Inr ls"
proof (induction ids)
  case (Cons i ids)
  from Cons.IH Cons.prems obtain ls where "lookup_all s u ids = Inr ls" by auto
  moreover from linkByID_found [of s u i] Cons.prems obtain l where "linkByID s u i = Inr l" by auto
  ultimately show ?case by simp
qed simp

lemma apply_updates_ids: "map l_id (s_links (fold apply_update xs s)) = map l_id (s_links s)"
  by (induction xs arbitrary: s) (simp_all add: apply_update_ids del: map_eq_conv)

lemma wf_ids_same: "map ident ys = map ident xs \<Longrightarrow> wf_ids ident xs \<Longrightarrow> wf_ids ident ys"
proof -
  assume a: "map ident ys = map ident xs" "wf_ids ident xs"
  have "ident ` set ys = ident ` set xs" using arg_cong [OF a(1), of set] by simp
  then show ?thesis using a unfolding wf_ids_def by (metis (no_types, lifting) imageE imageI)
qed

lemma UpdateLinksBulk_ready:
  assumes wf: "wf_ids l_id (s_links s)" and a: "UpdateLinksBulk env s u xs = (r, s')"
  shows "if bulk_ready env s u xs then (\<exists>ls. r = Inr ls) \<and> s' = fold apply_update xs s else (\<exists>e. r = Inl e) \<and> s' = s"
proof -
  consider "xs = []" | x where "xs \<noteq> []" "find (\<lambda>x. validateLink env (lu_link x) \<noteq> None) xs = Some x"
    | "xs \<noteq> []" "find (\<lambda>x. validateLink env (lu_link x) \<noteq> None) xs = None" "manage_scope u = None"
    | managed where "xs \<noteq> []" "find (\<lambda>x. validateLink env (lu_link x) \<noteq> None) xs = None" "manage_scope u = Some managed"
    by (cases "find (\<lambda>x. validateLink env (lu_link x) \<noteq> None) xs"; cases "manage_scope u") auto
  then show ?thesis
  proof cases
    case 1
    then show ?thesis using a by (auto simp: UpdateLinksBulk_def bulk_ready_def)
  next
    case (2 x)
    from find_SomeD [OF 2(2)] have "\<not> bulk_ready env s u xs" by (auto simp: bulk_ready_def update_ready_def)
    then show ?thesis using a 2 by (auto simp: UpdateLinksBulk_def Let_def)
  next
    case 3
    then obtain x where x: "x \<in> set xs" by (cases xs) auto
    have "\<not> bulk_ready env s u xs"
      using deletable_scope_defined [of s u "lu_id x"] x 3(3) by (auto simp: bulk_ready_def update_ready_def)
    then show ?thesis using a 3 by (auto simp: UpdateLinksBulk_def Let_def)
  next
    case (4 managed)
    note d = UpdateLinksBulk_def [of env s u xs, unfolded Let_def 4(2,3) option.case,
        unfolded managed_hits_all [OF wf 4(3)]]
    have v: "\<forall>x \<in> set xs. validateLink env (lu_link x) = None" using 4(2) by (auto simp: find_None_iff)
    show ?thesis
    proof (cases "bulk_ready env s u xs")
      case True
      have "wf_ids l_id (s_links (fold apply_update xs s))" by (rule wf_ids_same [OF apply_updates_ids wf])
      moreover have "\<exists>ls. lookup_all (fold apply_update xs s) u (map lu_id xs) = Inr ls"
        using True by (intro lookup_all_found) (auto simp: deletable_apply_updates bulk_ready_def update_ready_def)
      ultimately have "\<exists>ls. linksByIDs (fold apply_update xs s) u (map lu_id xs) = Inr ls"
        by (simp add: linksByIDs_lookup)
      moreover have "UpdateLinksBulk env s u xs = (linksByIDs (fold apply_update xs s) u (map lu_id xs), fold apply_update xs s)"
        using True 4(1) unfolding d by (auto simp: bulk_ready_def update_ready_def list_ex_iff)
      ultimately show ?thesis using True a by simp
    next
      case False
      then have "\<not> (distinct (map lu_id xs) \<and> (\<forall>i \<in> set (map lu_id xs). deletable s u i)) \<or>
          list_ex (\<lambda>x. \<not> row_fits (lu_link x)) xs"
        using v by (auto simp: bulk_ready_def update_ready_def list_ex_iff)
      then have "\<exists>e. UpdateLinksBulk env s u xs = (Inl e, s)" unfolding d using 4(1) by auto
      then show ?thesis using False a by auto
    qed
  qed
qed

section \<open>One update after the other\<close>

fun update_each :: "write_env \<Rightarrow> store \<Rightarrow> user \<Rightarrow> link_update list \<Rightarrow> store option" where
  "update_each env s u [] = Some s"
| "update_each env s u (x # xs) =
     (case UpdateLink env s u (lu_id x) (lu_link x) (lu_hash x) (lu_changed x) of
        (Inl e, _) \<Rightarrow> None | (Inr l, s') \<Rightarrow> update_each env s' u xs)"

definition complete_update :: "link_update \<Rightarrow> bool" where
  \<comment> \<open>a redirect code is given, and the flag says whether the new password is one\<close>
  "complete_update x \<longleftrightarrow> l_redirect_code (lu_link x) \<noteq> 0 \<and>
     (lu_changed x \<longrightarrow> l_password_protected (lu_link x) = (lu_hash x \<noteq> []))"

lemma complete_input: "complete_update x \<Longrightarrow> update_input (lu_link x) (lu_hash x) (lu_changed x) = lu_link x"
  by (simp add: update_input_def complete_update_def default_code_def)

lemma update_hit_unique:
  assumes "wf_ids l_id (s_links s)" and "deletable s u i" and "l \<in> set (s_links s)"
  shows "update_hit u i l \<longleftrightarrow> l_id l = i"
proof -
  from assms(2) obtain l' where l': "l' \<in> set (s_links s)" "update_hit u i l'"
    unfolding deletable_update_hit by blast
  then have i: "l_id l' = i" by (simp add: update_hit_def)
  show ?thesis
  proof
    assume "l_id l = i"
    with wf_ids_inj [OF assms(1) l'(1) assms(3)] i l'(2) show "update_hit u i l" by simp
  qed (simp add: update_hit_def)
qed

lemma UpdateLink_apply:
  assumes "wf_ids l_id (s_links s)" and "complete_update x"
    and "UpdateLink env s u (lu_id x) (lu_link x) (lu_hash x) (lu_changed x) = (r, s')"
  shows "if update_ready env s u (lu_id x) (lu_link x) then (\<exists>l. r = Inr l) \<and> s' = apply_update x s else \<exists>e. r = Inl e"
proof -
  have m: "map (\<lambda>l. if update_hit u (lu_id x) l then f l else l) (s_links s) =
      map (\<lambda>l. if l_id l = lu_id x then f l else l) (s_links s)" if "deletable s u (lu_id x)" for f
    using update_hit_unique [OF assms(1) that] by simp
  note z = UpdateLink_ready [OF assms(3), unfolded complete_input [OF assms(2)]]
  show ?thesis
  proof (cases "update_ready env s u (lu_id x) (lu_link x)")
    case True
    then have d: "deletable s u (lu_id x)" by (simp add: update_ready_def)
    from z show ?thesis unfolding if_P [OF True] apply_update_def m [OF d] by blast
  next
    case False
    with z show ?thesis by simp
  qed
qed

lemma update_ready_later:
  "update_ready env (apply_update x s) u i link = update_ready env s u i link"
  by (simp add: update_ready_def deletable_apply_update)

lemma update_each_ready:
  assumes "wf_ids l_id (s_links s)" and "\<forall>x \<in> set xs. complete_update x"
  shows "update_each env s u xs =
    (if \<forall>x \<in> set xs. update_ready env s u (lu_id x) (lu_link x) then Some (fold apply_update xs s) else None)"
  using assms
proof (induction xs arbitrary: s)
  case (Cons x xs)
  obtain r s' where r: "UpdateLink env s u (lu_id x) (lu_link x) (lu_hash x) (lu_changed x) = (r, s')"
    by (meson surj_pair)
  have cx: "complete_update x" using Cons.prems(2) by simp
  note a = UpdateLink_apply [OF Cons.prems(1) cx r]
  show ?case
  proof (cases "update_ready env s u (lu_id x) (lu_link x)")
    case True
    with a obtain l where l: "r = Inr l" "s' = apply_update x s" by auto
    have "wf_ids l_id (s_links (apply_update x s))" by (rule wf_ids_same [OF apply_update_ids Cons.prems(1)])
    from Cons.IH [OF this] Cons.prems(2) True show ?thesis by (simp add: r l update_ready_later)
  next
    case False
    with a show ?thesis by (auto simp: r)
  qed
qed simp


section \<open>The handlers keep the table well formed\<close>

lemma apply_update_keeps:
  assumes "links_ok env s" and "update_ready env s' u i (lu_link x)"
    and "\<And>l. l \<in> set (s_links s) \<Longrightarrow> l_id l = lu_id x \<Longrightarrow> update_guard (lu_link x) (lu_hash x) (lu_changed x) l"
  shows "links_ok env (apply_update x s)"
  using assms(2) unfolding apply_update_def update_ready_def
  by (intro links_ok_update [OF assms(1)] assms(3)) simp_all

lemma apply_updates_keep:
  assumes "links_ok env s" and "bulk_ready env t u xs"
    and "\<And>x l. x \<in> set xs \<Longrightarrow> l \<in> set (s_links s) \<Longrightarrow> l_id l = lu_id x \<Longrightarrow>
           update_guard (lu_link x) (lu_hash x) (lu_changed x) l"
  shows "links_ok env (fold apply_update xs s)"
  using assms
proof (induction xs arbitrary: s)
  case (Cons x xs)
  have b: "bulk_ready env t u xs" "update_ready env t u (lu_id x) (lu_link x)" "lu_id x \<notin> lu_id ` set xs"
    using Cons.prems(2) by (auto simp: bulk_ready_def)
  have "links_ok env (apply_update x s)"
    by (rule apply_update_keeps [OF Cons.prems(1) b(2)]) (use Cons.prems(3) in auto)
  moreover have "update_guard (lu_link y) (lu_hash y) (lu_changed y) l"
    if y: "y \<in> set xs" and l: "l \<in> set (s_links (apply_update x s))" "l_id l = lu_id y" for y l
  proof -
    from l(1) obtain l0 where l0: "l0 \<in> set (s_links s)"
        "l = (if l_id l0 = lu_id x then update_row (lu_link x) (lu_hash x) (lu_changed x) l0 else l0)"
      unfolding apply_update_row set_map by blast
    have "lu_id y \<noteq> lu_id x" using b(3) imageI [OF y, of lu_id] by metis
    then have "l = l0" using l0(2) l(2) by (auto simp: update_row_fields split: if_splits)
    with l0(1) Cons.prems(3) [of y l] y l(2) show ?thesis by simp
  qed
  ultimately show ?case using Cons.IH [OF _ b(1)] by simp
qed simp

text \<open>The password flag of the link a payload gives.\<close>

lemma payload_steps:
  "(if A then Inl e else X) = Inr y \<Longrightarrow> X = Inr y"
  "(case E of None \<Rightarrow> Inl e | Some v \<Rightarrow> F v) = Inr y \<Longrightarrow> \<exists>v. F v = Inr y"
  by (auto split: if_splits option.splits)

lemma payload_password:
  assumes "(case in_password p of
      Some pw \<Rightarrow> if length pw < 8 then Inl e
        else (case co_hash c pw of Inl e \<Rightarrow> Inl e
          | Inr hash \<Rightarrow> if A then Inl e' else Inr (l1\<lparr>l_password_protected := True\<rparr>, hash, in_password p \<noteq> None \<or> in_clear_password p))
    | None \<Rightarrow> if A then Inl e'
        else Inr ((if in_clear_password p then l1\<lparr>l_password_protected := False\<rparr> else l1), [],
          in_password p \<noteq> None \<or> in_clear_password p)) = Inr (link, hash, ch)"
  shows "(if ch then hash \<noteq> [] \<longrightarrow> l_password_protected link else l_password_protected link = l_password_protected l1) \<and>
    l_slug link = l_slug l1"
  using assms by (cases "in_password p") (auto split: if_splits sum.splits)

lemma applyLinkPayload_flag:
  assumes "applyLinkPayload c l p creating = Inr (link, hash, ch)"
  shows "if ch then hash \<noteq> [] \<longrightarrow> l_password_protected link else l_password_protected link = l_password_protected l"
    "\<not> creating \<Longrightarrow> l_slug link = l_slug l"
proof -
  note ex = payload_steps(2) [OF payload_steps(1) [OF payload_steps(1) [OF assms [unfolded applyLinkPayload_def Let_def]]]]
  show "if ch then hash \<noteq> [] \<longrightarrow> l_password_protected link else l_password_protected link = l_password_protected l"
    by (rule exE [OF ex], drule payload_password) simp
  show "l_slug link = l_slug l" if "\<not> creating"
    by (rule exE [OF ex], drule payload_password) (simp add: that)
qed

lemma payload_guard:
  assumes "applyLinkPayload c l p False = Inr (link, hash, ch)"
  shows "update_guard link hash ch l"
  using applyLinkPayload_flag(1) [OF assms] by (simp add: update_guard_def update_row_fields split: if_splits)

lemma bulk_updates_current:
  "bulk_updates c p ids ls = Some xs \<Longrightarrow> length ids = length ls \<Longrightarrow> x \<in> set xs \<Longrightarrow>
   \<exists>l. (lu_id x, l) \<in> set (zip ids ls) \<and> applyLinkPayload c l p False = Inr (lu_link x, lu_hash x, lu_changed x)"
proof (induction c p ids ls arbitrary: xs rule: bulk_updates.induct)
  case (1 c p i "is" l ls)
  from 1(2) obtain link hash ch ys where a: "applyLinkPayload c l p False = Inr (link, hash, ch)"
      and ys: "bulk_updates c p is ls = Some ys"
      and xs: "xs = \<lparr>lu_id = i, lu_link = link, lu_hash = hash, lu_changed = ch\<rparr> # ys"
    by (auto split: sum.splits)
  show ?case
  proof (cases "x \<in> set ys")
    case True
    with 1(1) [OF a refl refl ys] 1(3) show ?thesis by auto
  next
    case False
    with 1(4) xs have "x = \<lparr>lu_id = i, lu_link = link, lu_hash = hash, lu_changed = ch\<rparr>" by simp
    with a show ?thesis by auto
  qed
qed auto

lemma lookup_all_rows:
  "lookup_all s u ids = Inr ls \<Longrightarrow> length ids = length ls \<and>
     (\<forall>(i, l) \<in> set (zip ids ls). l \<in> set (s_links s) \<and> l_id l = i)"
proof (induction ids arbitrary: ls)
  case (Cons i ids)
  then obtain l ls' where l: "linkByID s u i = Inr l" "lookup_all s u ids = Inr ls'" "ls = l # ls'"
    by (auto split: sum.splits)
  then obtain f where f: "view_scope u False = Some f" by (auto simp: linkByID_def split: option.splits)
  have "find (visible f i) (s_links s) = Some l"
    using l(1) unfolding linkByID_visible [OF f] by (simp split: option.splits)
  from find_SomeD [OF this] Cons.IH [OF l(2)] show ?case by (auto simp: l(3) visible_def)
qed simp

text \<open>What a handler does to the tables: nothing, or its store operation; the audit row is not a link.\<close>

lemma links_ok_cong: "s_links s = s_links t \<Longrightarrow> links_ok env s = links_ok env t"
  by (simp add: links_ok_def)

lemma audit_links: "audit rq a tt ti out sv = Some sv' \<Longrightarrow> s_links (sv_store sv') = s_links (sv_store sv)"
  by (auto simp: audit_def recordAudit_def split: if_splits)

lemma changed_links_store [simp]: "sv_store (changed_links s ls sv) = s"
  by (simp add: changed_links_def)

lemma audited_links:
  "s_links (sv_store (snd (case audit rq a tt ti out sv of None \<Rightarrow> (r, sv) | Some sv' \<Rightarrow> (r', sv')))) = s_links (sv_store sv)"
  by (auto simp: audit_links split: option.split)

lemma with_payload_rule:
  "P sv \<Longrightarrow> (\<And>p. P (snd (f p))) \<Longrightarrow> P (snd (with_payload body sv f))"
  by (simp add: with_payload_def split: decoded.split option.split)

lemma links_POST_store:
  "s_links (sv_store (snd (links_POST c env rq body sv))) = s_links (sv_store sv) \<or>
   (\<exists>u link hash. s_links (sv_store (snd (links_POST c env rq body sv))) =
      s_links (snd (CreateLink env (rq_now rq) (sv_store sv) u link hash)))"
proof -
  define g where "g p = (case applyLinkPayload c (blank_link\<lparr>l_forward_query := True, l_redirect_code := 302,
      l_visibility := ''private''\<rparr>) p True of Inl e \<Rightarrow> (Status 400, sv)
     | Inr (link, hash, _) \<Rightarrow>
         (case CreateLink env (rq_now rq) (sv_store sv) (pr_effective (rq_principal rq)) link hash of
            (Inl e, s) \<Rightarrow> (refuse 400 e, sv\<lparr>sv_store := s\<rparr>)
          | (Inr l, s) \<Rightarrow>
              (case audit rq ''link.created'' ''link'' (int_text (l_id l)) ''success'' (changed_links s [l] sv) of
                 None \<Rightarrow> (Status 500, changed_links s [l] sv)
               | Some sv' \<Rightarrow> (Status 201, sv'))))" for p
  have e: "links_POST c env rq body sv = with_payload body sv g" by (simp add: links_POST_def g_def [abs_def])
  have "s_links (sv_store (snd (g p))) = s_links (sv_store sv) \<or> (\<exists>u link hash. s_links (sv_store (snd (g p))) =
      s_links (snd (CreateLink env (rq_now rq) (sv_store sv) u link hash)))" for p
  proof (cases "applyLinkPayload c (blank_link\<lparr>l_forward_query := True, l_redirect_code := 302, l_visibility := ''private''\<rparr>) p True")
    case (Inr x)
    obtain link hash ch where x: "x = (link, hash, ch)" by (cases x) auto
    obtain r s where r: "CreateLink env (rq_now rq) (sv_store sv) (pr_effective (rq_principal rq)) link hash = (r, s)"
      by (meson surj_pair)
    have "s_links (sv_store (snd (g p))) = s_links s"
      by (cases r) (simp_all add: g_def Inr x r audited_links)
    moreover have "s = snd (CreateLink env (rq_now rq) (sv_store sv) (pr_effective (rq_principal rq)) link hash)"
      by (simp add: r)
    ultimately show ?thesis by blast
  qed (simp add: g_def)
  then show ?thesis unfolding e
    by (intro with_payload_rule [where P = "\<lambda>t. s_links (sv_store t) = s_links (sv_store sv) \<or> (\<exists>u link hash.
        s_links (sv_store t) = s_links (snd (CreateLink env (rq_now rq) (sv_store sv) u link hash)))"]) blast+
qed

lemma linkByID_row: "linkByID s u i = Inr l \<Longrightarrow> l \<in> set (s_links s) \<and> l_id l = i"
  using lookup_all_rows [of s u "[i]" "[l]"] by simp

text \<open>A PATCH either leaves everything as it was, or applies the payload to the stored row and writes it.\<close>

definition body_payload :: "jsval decoded \<Rightarrow> link_payload option" where
  "body_payload body = (case body of Decoded v \<Rightarrow> decode_payload v | _ \<Rightarrow> None)"

lemma with_payload_body:
  "with_payload body sv f = (case body_payload body of
     Some p \<Rightarrow> f p | None \<Rightarrow> (Status (if body = TooLarge then 413 else 400), sv))"
  by (cases body) (simp_all add: with_payload_def body_payload_def)

lemma linkByID_PATCH_cases:
  obtains (refused) r where "linkByID_PATCH c env rq i body sv = (r, sv)"
      "r \<in> {Aborted, Status 400, Status 404, Status 413}"
  | (written) p current link hash ch l s' where "body_payload body = Some p"
      "linkByID (sv_store sv) (pr_effective (rq_principal rq)) i = Inr current"
      "applyLinkPayload c current p False = Inr (link, hash, ch)"
      "UpdateLink env (sv_store sv) (pr_effective (rq_principal rq)) i link hash ch = (Inr l, s')"
      "linkByID_PATCH c env rq i body sv =
        (case audit rq ''link.updated'' ''link'' (int_text i) ''success'' (changed_links s' [l] sv) of
           None \<Rightarrow> (Status 500, changed_links s' [l] sv) | Some sv' \<Rightarrow> (Status 200, sv'))"
proof (cases "body_payload body")
  case None
  then show ?thesis
    by (intro refused [of "Status (if body = TooLarge then 413 else 400)"]) (simp_all add: linkByID_PATCH_def with_payload_body)
next
  case p: (Some p)
  let ?u = "pr_effective (rq_principal rq)"
  note d = linkByID_PATCH_def [of c env rq i body sv, unfolded with_payload_body p option.case Let_def]
  show ?thesis
  proof (cases "in_slug p")
    case (Some x)
    then show ?thesis by (intro refused [of "Status 400"]) (simp_all add: d)
  next
    case None
    show ?thesis
    proof (cases "linkByID (sv_store sv) ?u i")
      case (Inl e)
      then show ?thesis by (intro refused [of "refuse 404 e"]) (simp_all add: d None refuse_def)
    next
      case cur: (Inr current)
      show ?thesis
      proof (cases "applyLinkPayload c current p False")
        case (Inl e)
        then show ?thesis by (intro refused [of "Status 400"]) (simp_all add: d None cur)
      next
        case ap: (Inr x)
        obtain link hash ch where x: "x = (link, hash, ch)" by (cases x) auto
        obtain r s' where r: "UpdateLink env (sv_store sv) ?u i link hash ch = (r, s')" by (meson surj_pair)
        show ?thesis
        proof (cases r)
          case (Inl e)
          with UpdateLink_ready [OF r] have "s' = sv_store sv" by (simp split: if_splits)
          then show ?thesis by (intro refused [of "refuse 400 e"]) (simp_all add: d None cur ap x r Inl refuse_def)
        next
          case (Inr l)
          show ?thesis
            by (rule written [OF p cur ap [unfolded x] r [unfolded Inr]]) (simp add: d None cur ap x r Inr)
        qed
      qed
    qed
  qed
qed

lemma linkByID_PATCH_store:
  "s_links (sv_store (snd (linkByID_PATCH c env rq i body sv))) = s_links (sv_store sv) \<or>
   (\<exists>current p link hash ch. current \<in> set (s_links (sv_store sv)) \<and> l_id current = i \<and>
      applyLinkPayload c current p False = Inr (link, hash, ch) \<and>
      s_links (sv_store (snd (linkByID_PATCH c env rq i body sv))) =
        s_links (snd (UpdateLink env (sv_store sv) (pr_effective (rq_principal rq)) i link hash ch)))"
proof (cases rule: linkByID_PATCH_cases [of c env rq i body sv])
  case (refused r)
  then show ?thesis by simp
next
  case (written p current link hash ch l s')
  have "s_links (sv_store (snd (linkByID_PATCH c env rq i body sv))) = s_links s'"
    unfolding written(5) by (simp add: audited_links)
  moreover have "s' = snd (UpdateLink env (sv_store sv) (pr_effective (rq_principal rq)) i link hash ch)"
    by (simp add: written(4))
  ultimately show ?thesis using written(3) linkByID_row [OF written(2)] by metis
qed

lemma linkByID_PATCH_keeps:
  assumes "links_ok env (sv_store sv)"
  shows "links_ok env (sv_store (snd (linkByID_PATCH c env rq i body sv)))"
  using linkByID_PATCH_store [of c env rq i body sv]
proof (elim disjE exE conjE)
  assume "s_links (sv_store (snd (linkByID_PATCH c env rq i body sv))) = s_links (sv_store sv)"
  from links_ok_cong [OF this] assms show ?thesis by simp
next
  fix current p link hash ch
  assume c: "current \<in> set (s_links (sv_store sv))" "l_id current = i" and
    a: "applyLinkPayload c current p False = Inr (link, hash, ch)" and
    s: "s_links (sv_store (snd (linkByID_PATCH c env rq i body sv))) =
        s_links (snd (UpdateLink env (sv_store sv) (pr_effective (rq_principal rq)) i link hash ch))"
  have "links_ok env (snd (UpdateLink env (sv_store sv) (pr_effective (rq_principal rq)) i link hash ch))"
  proof (rule UpdateLink_keeps [OF assms])
    fix l
    assume l: "l \<in> set (s_links (sv_store sv))" "update_hit (pr_effective (rq_principal rq)) i l" "\<not> ch"
      "l_password_protected l"
    have "wf_ids l_id (s_links (sv_store sv))" using assms by (simp add: links_ok_def)
    from wf_ids_inj [OF this l(1) c(1)] l(2) c(2) have "l = current" by (simp add: update_hit_def)
    with l(3,4) applyLinkPayload_flag(1) [OF a] show "l_password_protected link" by simp
  qed
  with links_ok_cong [OF s] show ?thesis by simp
qed

text \<open>A bulk PATCH: each payload is applied to its stored row.\<close>

lemma bulkLinks_PATCH_store:
  "s_links (sv_store (snd (bulkLinks_PATCH c env rq body sv))) = s_links (sv_store sv) \<or>
   (\<exists>ids current p xs. linksByIDs (sv_store sv) (pr_effective (rq_principal rq)) ids = Inr current \<and>
      bulk_updates c p ids current = Some xs \<and>
      s_links (sv_store (snd (bulkLinks_PATCH c env rq body sv))) =
        s_links (snd (UpdateLinksBulk env (sv_store sv) (pr_effective (rq_principal rq)) xs)))"
proof (cases body)
  case (Decoded x)
  obtain ids js where x: "x = (ids, js)" by (cases x) auto
  let ?u = "pr_effective (rq_principal rq)"
  define bad where "bad p \<longleftrightarrow> length ids < 1 \<or> length ids > 500 \<or> in_slug p \<noteq> None \<or> list_ex (\<lambda>i. i < 1) ids \<or> \<not> distinct ids"
    for p :: link_payload
  define g where "g p = (if bad p then (Status 400, sv)
     else case linksByIDs (sv_store sv) ?u ids of Inl e \<Rightarrow> (refuse 404 e, sv)
     | Inr current \<Rightarrow>
         (case bulk_updates c p ids current of None \<Rightarrow> (Status 400, sv)
          | Some updates \<Rightarrow>
              (case UpdateLinksBulk env (sv_store sv) ?u updates of
                 (Inl e, s) \<Rightarrow> (refuse 409 e, sv\<lparr>sv_store := s\<rparr>)
               | (Inr ls, s) \<Rightarrow>
                   (case audit rq ''link.bulk_updated'' ''link'' (int_text (int (length ls))) ''success'' (changed_links s ls sv) of
                      None \<Rightarrow> (Status 500, changed_links s ls sv)
                    | Some sv' \<Rightarrow> (Status 200, sv')))))" for p
  have e: "bulkLinks_PATCH c env rq body sv = with_payload (Decoded js) sv g"
    unfolding bulkLinks_PATCH_def Decoded x decoded.case prod.case g_def [abs_def] bad_def Let_def ..
  have "s_links (sv_store (snd (g p))) = s_links (sv_store sv) \<or>
      (\<exists>ids current q xs. linksByIDs (sv_store sv) ?u ids = Inr current \<and> bulk_updates c q ids current = Some xs \<and>
        s_links (sv_store (snd (g p))) = s_links (snd (UpdateLinksBulk env (sv_store sv) ?u xs)))" for p
  proof (cases "\<not> bad p \<and> (\<exists>current xs. linksByIDs (sv_store sv) ?u ids = Inr current \<and> bulk_updates c p ids current = Some xs)")
    case True
    then obtain current xs where c: "\<not> bad p" "linksByIDs (sv_store sv) ?u ids = Inr current"
        "bulk_updates c p ids current = Some xs" by blast
    obtain r s where r: "UpdateLinksBulk env (sv_store sv) ?u xs = (r, s)" by (meson surj_pair)
    have "s_links (sv_store (snd (g p))) = s_links s"
      by (cases r) (simp_all add: g_def c r audited_links)
    moreover have "s = snd (UpdateLinksBulk env (sv_store sv) ?u xs)" by (simp add: r)
    ultimately show ?thesis using c(2,3) by metis
  next
    case False
    have "snd (g p) = sv"
    proof (cases "bad p")
      case good: False
      show ?thesis
      proof (cases "linksByIDs (sv_store sv) ?u ids")
        case (Inr current)
        with False good have "bulk_updates c p ids current = None"
          by (cases "bulk_updates c p ids current") auto
        then show ?thesis by (simp add: g_def good Inr)
      qed (simp add: g_def good)
    qed (simp add: g_def)
    then show ?thesis by simp
  qed
  note step = this
  show ?thesis unfolding e
    by (rule with_payload_rule [where P = "\<lambda>t. s_links (sv_store t) = s_links (sv_store sv) \<or>
      (\<exists>ids current p xs. linksByIDs (sv_store sv) ?u ids = Inr current \<and> bulk_updates c p ids current = Some xs \<and>
        s_links (sv_store t) = s_links (snd (UpdateLinksBulk env (sv_store sv) ?u xs)))"]; (rule step | simp))
qed (simp_all add: bulkLinks_PATCH_def)

lemma UpdateLinksBulk_keeps:
  assumes "links_ok env s"
    and "\<And>x l. x \<in> set xs \<Longrightarrow> l \<in> set (s_links s) \<Longrightarrow> l_id l = lu_id x \<Longrightarrow>
           update_guard (lu_link x) (lu_hash x) (lu_changed x) l"
  shows "links_ok env (snd (UpdateLinksBulk env s u xs))"
proof -
  have wf: "wf_ids l_id (s_links s)" using assms(1) by (simp add: links_ok_def)
  obtain r s' where r: "UpdateLinksBulk env s u xs = (r, s')" by (meson surj_pair)
  show ?thesis
  proof (cases "bulk_ready env s u xs")
    case True
    have s': "s' = fold apply_update xs s" using UpdateLinksBulk_ready [OF wf r] unfolding if_P [OF True] by blast
    show ?thesis unfolding r snd_conv s' by (rule apply_updates_keep [OF assms(1) True assms(2)])
  next
    case False
    have s': "s' = s" using UpdateLinksBulk_ready [OF wf r] unfolding if_not_P [OF False] by blast
    show ?thesis unfolding r snd_conv s' by (rule assms(1))
  qed
qed

lemma bulkLinks_PATCH_keeps:
  assumes "links_ok env (sv_store sv)"
  shows "links_ok env (sv_store (snd (bulkLinks_PATCH c env rq body sv)))"
  using bulkLinks_PATCH_store [of c env rq body sv]
proof (elim disjE exE conjE)
  assume "s_links (sv_store (snd (bulkLinks_PATCH c env rq body sv))) = s_links (sv_store sv)"
  from links_ok_cong [OF this] assms show ?thesis by simp
next
  fix ids current p xs
  assume l: "linksByIDs (sv_store sv) (pr_effective (rq_principal rq)) ids = Inr current"
    and xs: "bulk_updates c p ids current = Some xs"
    and s: "s_links (sv_store (snd (bulkLinks_PATCH c env rq body sv))) =
        s_links (snd (UpdateLinksBulk env (sv_store sv) (pr_effective (rq_principal rq)) xs))"
  have wf: "wf_ids l_id (s_links (sv_store sv))" using assms by (simp add: links_ok_def)
  note rows = lookup_all_rows [OF l [unfolded linksByIDs_lookup [OF wf]]]
  have "links_ok env (snd (UpdateLinksBulk env (sv_store sv) (pr_effective (rq_principal rq)) xs))"
  proof (rule UpdateLinksBulk_keeps [OF assms])
    fix x row
    assume x: "x \<in> set xs" and row: "row \<in> set (s_links (sv_store sv))" "l_id row = lu_id x"
    from bulk_updates_current [OF xs conjunct1 [OF rows] x] obtain l
      where l: "(lu_id x, l) \<in> set (zip ids current)"
        and a: "applyLinkPayload c l p False = Inr (lu_link x, lu_hash x, lu_changed x)" by blast
    from bspec [OF conjunct2 [OF rows] l] have "l \<in> set (s_links (sv_store sv))" "l_id l = lu_id x" by simp_all
    with wf_ids_inj [OF wf row(1)] row(2) have "row = l" by simp
    with payload_guard [OF a] show "update_guard (lu_link x) (lu_hash x) (lu_changed x) row" by simp
  qed
  with links_ok_cong [OF s] show ?thesis by simp
qed

text \<open>New rows: their ids come from the identity column, so they are new and in its range.\<close>

definition fresh_ids :: "write_env \<Rightarrow> nat \<Rightarrow> store \<Rightarrow> bool" where
  "fresh_ids env k s \<longleftrightarrow> distinct (map (we_id env) [0..<k]) \<and>
     list_all (\<lambda>i. 0 < i \<and> i < 2 ^ 53 \<and> i \<notin> l_id ` set (s_links s)) (map (we_id env) [0..<k])"

lemma links_POST_keeps:
  assumes "links_ok env (sv_store sv)" and "fresh_ids env 1 (sv_store sv)"
  shows "links_ok env (sv_store (snd (links_POST c env rq body sv)))"
  using links_POST_store [of c env rq body sv]
proof (elim disjE exE)
  assume "s_links (sv_store (snd (links_POST c env rq body sv))) = s_links (sv_store sv)"
  from links_ok_cong [OF this] assms show ?thesis by simp
next
  fix u link hash
  assume s: "s_links (sv_store (snd (links_POST c env rq body sv))) =
      s_links (snd (CreateLink env (rq_now rq) (sv_store sv) u link hash))"
  have "we_id env 0 \<notin> l_id ` set (s_links (sv_store sv))" "0 < we_id env 0" "we_id env 0 < 2 ^ 53"
    using assms(2) by (simp_all add: fresh_ids_def)
  from CreateLink_keeps [OF assms(1) this] have "links_ok env (snd (CreateLink env (rq_now rq) (sv_store sv) u link hash))" .
  with links_ok_cong [OF s] show ?thesis by simp
qed

lemma prepare_rows_Cons:
  assumes "prepare_rows env k seen (l0 # ls) = Inr rows"
  obtains l k' seen' rows' where "validateLink env l = None" "slugRe (l_slug l)"
    "prepare_rows env k' seen' ls = Inr rows'" "rows = l # rows'"
proof -
  define l1 where "l1 = (if l_slug l0 = [] then l0\<lparr>l_slug := we_slug env k\<rparr> else l0)"
  let ?k = "if l_slug l0 = [] then k + 1 else k" and ?l = "default_fields l1"
  have d: "(if \<not> slugRe (l_slug l1) then Inl ''slug must be 3-80 letters, numbers, _ or -''
      else if l_slug l1 \<in> seen then Inl ''duplicate slug in CSV''
      else case validateLink env ?l of Some e \<Rightarrow> Inl e
        | None \<Rightarrow> (case prepare_rows env ?k (insert (l_slug ?l) seen) ls of Inl e \<Rightarrow> Inl e | Inr rs \<Rightarrow> Inr (?l # rs))) = Inr rows"
    using assms unfolding prepare_rows.simps Let_def l1_def [symmetric] .
  have 1: "slugRe (l_slug l1)" using d by (cases "slugRe (l_slug l1)") simp_all
  have 2: "l_slug l1 \<notin> seen" using d by (cases "l_slug l1 \<in> seen") (simp_all add: 1)
  have 3: "validateLink env ?l = None" using d by (cases "validateLink env ?l") (simp_all add: 1 2)
  note c = 1 2 3
  with d obtain rows' where "prepare_rows env ?k (insert (l_slug ?l) seen) ls = Inr rows'" "rows = ?l # rows'"
    by (cases "prepare_rows env ?k (insert (l_slug ?l) seen) ls") simp_all
  with c that [of ?l] show ?thesis by simp
qed

lemma prepare_rows_ok:
  "prepare_rows env k seen ls = Inr rows \<Longrightarrow>
   length rows = length ls \<and> (\<forall>l \<in> set rows. validateLink env l = None \<and> slugRe (l_slug l))"
proof (induction ls arbitrary: k seen rows)
  case (Cons l0 ls)
  from Cons.prems obtain l k' seen' rows' where "validateLink env l = None" "slugRe (l_slug l)"
    "prepare_rows env k' seen' ls = Inr rows'" "rows = l # rows'" by (rule prepare_rows_Cons)
  with Cons.IH [of k' seen' rows'] show ?case by simp
qed simp

lemma insert_rows_keep:
  assumes "links_ok env s" and "\<forall>l \<in> set ls. validateLink env l = None \<and> slugRe (l_slug l)"
    and "distinct (map (we_id env) [n..<n + length ls])"
    and "\<forall>i \<in> set (map (we_id env) [n..<n + length ls]). 0 < i \<and> i < 2 ^ 53 \<and> i \<notin> l_id ` set (s_links s)"
    and "insert_rows env now u n ls s = Inr s'"
  shows "links_ok env s'"
  using assms
proof (induction ls arbitrary: n s)
  case (Cons l ls)
  let ?row = "new_row (we_id env n) now u l []"
  from Cons.prems(5) obtain t where t: "insert_row ?row s = Inr t" "insert_rows env now u (n + 1) ls t = Inr s'"
    by (auto split: sum.splits)
  define js where "js = map (we_id env) [n + 1..<n + 1 + length ls]"
  have up: "map (we_id env) [n..<n + length (l # ls)] = we_id env n # js" by (simp add: upt_rec js_def)
  have valid: "link_valid env ?row" if "row_fits ?row"
    using Cons.prems(2) that by (intro new_row_valid) simp_all
  have fresh: "l_id ?row \<notin> l_id ` set (s_links s)" "0 < l_id ?row" "l_id ?row < 2 ^ 53"
    using Cons.prems(4) unfolding up by (simp_all add: fresh_row_fields)
  note ok = links_ok_insert [OF Cons.prems(1) t(1) valid fresh]
  have ids: "l_id ` set (s_links t) = insert (we_id env n) (l_id ` set (s_links s))"
    using ok(2) by (simp add: fresh_row_fields)
  show ?case
  proof (rule Cons.IH [OF ok(1) _ _ _ t(2)])
    show "\<forall>l \<in> set ls. validateLink env l = None \<and> slugRe (l_slug l)" using Cons.prems(2) by simp
    show "distinct (map (we_id env) [n + 1..<n + 1 + length ls])"
      using Cons.prems(3) unfolding up js_def [symmetric] by simp
    show "\<forall>i \<in> set (map (we_id env) [n + 1..<n + 1 + length ls]). 0 < i \<and> i < 2 ^ 53 \<and> i \<notin> l_id ` set (s_links t)"
      using Cons.prems(3,4) unfolding up ids js_def [symmetric] by auto
  qed
qed simp

lemma CreateLinksBulk_keeps:
  assumes "links_ok env s" and "fresh_ids env (length ls) s"
  shows "links_ok env (snd (CreateLinksBulk env now s u ls))"
proof (cases "ls = [] \<or> (\<exists>e. prepare_rows env 0 {} ls = Inl e)")
  case True
  with assms(1) show ?thesis by (auto simp: CreateLinksBulk_def)
next
  case False
  then obtain rows where rows: "prepare_rows env 0 {} ls = Inr rows" by (cases "prepare_rows env 0 {} ls") auto
  show ?thesis
  proof (cases "insert_rows env now u 0 rows s")
    case (Inl e)
    with rows False assms(1) show ?thesis by (simp add: CreateLinksBulk_def)
  next
    case (Inr s')
    have "links_ok env s'"
      using assms(2) prepare_rows_ok [OF rows]
      by (intro insert_rows_keep [OF assms(1) _ _ _ Inr]) (simp_all add: fresh_ids_def list_all_iff)
    with rows False Inr show ?thesis by (simp add: CreateLinksBulk_def)
  qed
qed

section \<open>What a PATCH changes\<close>

definition same_identity :: "link \<Rightarrow> link \<Rightarrow> bool" where
  "same_identity l l' \<longleftrightarrow> l_id l' = l_id l \<and> l_user_id l' = l_user_id l \<and> l_tenant_id l' = l_tenant_id l \<and>
     l_slug l' = l_slug l \<and> l_clicks l' = l_clicks l \<and> l_created_at l' = l_created_at l \<and> l_deleted_at l' = l_deleted_at l"

definition touches_password :: "jsval decoded \<Rightarrow> bool" where
  "touches_password body =
     (case body_payload body of None \<Rightarrow> False | Some p \<Rightarrow> in_password p \<noteq> None \<or> in_clear_password p)"

lemma applyLinkPayload_changed:
  assumes "applyLinkPayload c l p creating = Inr (link, hash, ch)"
  shows "ch \<longleftrightarrow> in_password p \<noteq> None \<or> in_clear_password p"
proof -
  have tail: "ch' = (in_password p \<noteq> None \<or> in_clear_password p)"
    if "(case in_password p of
      Some pw \<Rightarrow> if length pw < 8 then Inl e
        else (case co_hash c pw of Inl e \<Rightarrow> Inl e
          | Inr hash \<Rightarrow> if A then Inl e' else Inr (l1\<lparr>l_password_protected := True\<rparr>, hash, in_password p \<noteq> None \<or> in_clear_password p))
    | None \<Rightarrow> if A then Inl e'
        else Inr ((if in_clear_password p then l1\<lparr>l_password_protected := False\<rparr> else l1), [],
          in_password p \<noteq> None \<or> in_clear_password p)) = Inr (link', hash', ch')" for A e e' l1 link' hash' ch'
    using that by (cases "in_password p") (auto split: if_splits sum.splits)
  note ex = payload_steps(2) [OF payload_steps(1) [OF payload_steps(1) [OF assms [unfolded applyLinkPayload_def Let_def]]]]
  show ?thesis by (rule exE [OF ex], drule tail) simp
qed

text \<open>C9: A PATCH changes one link, and never what makes it that link. Whatever the request, every link other
  than the addressed one keeps its row, and a row changes only when the effective user manages the link and it is
  not deleted; its id, owner, department, slug, clicks and dates stay, and its password hash changes only when
  the request sets or clears the password. A refused request changes nothing, and after a 200 the cached redirect
  of the link is dropped.\<close>

theorem patch_changes_one_link:
  assumes "wf_ids l_id (s_links (sv_store sv))"
  shows "case linkByID_PATCH c env rq i body sv of (r, sv') \<Rightarrow>
    list_all2 (\<lambda>l l'. l' = l \<or> (update_hit (pr_effective (rq_principal rq)) i l \<and> same_identity l l' \<and>
        (l_password_hash l' = l_password_hash l \<or> touches_password body)))
      (s_links (sv_store sv)) (s_links (sv_store sv')) \<and>
    (r \<notin> {Status 200, Status 500} \<longrightarrow> sv' = sv) \<and>
    (r = Status 200 \<longrightarrow> deletable (sv_store sv) (pr_effective (rq_principal rq)) i \<and>
       map l_id (sv_invalidated sv') = map l_id (sv_invalidated sv) @ [i])"
proof (cases rule: linkByID_PATCH_cases [of c env rq i body sv])
  case (refused r)
  then show ?thesis by (auto simp: list_all2_same)
next
  case (written p current link hash ch l s')
  let ?u = "pr_effective (rq_principal rq)" and ?l = "update_input link hash ch"
  have up: "deletable (sv_store sv) ?u i" "l_id l = i"
    "s' = (sv_store sv)\<lparr>s_links := map (\<lambda>l. if update_hit ?u i l then update_row ?l hash ch l else l) (s_links (sv_store sv))\<rparr>"
    using UpdateLink_ready [OF written(4)] by (auto simp: update_ready_def split: if_splits)
  have pw: "ch \<longleftrightarrow> touches_password body"
    using applyLinkPayload_changed [OF written(3)] by (simp add: touches_password_def written(1))
  have row: "same_identity x (update_row ?l hash ch x)" "l_password_hash (update_row ?l hash ch x) = (if ch then hash else l_password_hash x)"
    for x by (simp_all add: same_identity_def update_row_keeps update_row_fields)
  have "list_all2 (\<lambda>l l'. l' = l \<or> (update_hit ?u i l \<and> same_identity l l' \<and>
      (l_password_hash l' = l_password_hash l \<or> touches_password body))) (s_links (sv_store sv)) (s_links s')"
    using row pw by (simp add: up(3) list_all2_conv_all_nth)
  moreover have "map l_id (sv_invalidated (changed_links s' [l] sv)) = map l_id (sv_invalidated sv) @ [i]"
    by (simp add: changed_links_def up(2))
  ultimately show ?thesis
    unfolding written(5) using up(1) by (auto simp: audit_def recordAudit_def split: option.split)
qed

definition sample_env :: write_env where
  "sample_env = \<lparr>we_url = has_prefix ''https://'', we_slug = (\<lambda>n. ''random'' @ int_text (int n)), we_id = (\<lambda>n. 100 + int n)\<rparr>"

theorem patch_changes_one_link_witness:
  "case linkByID_PATCH berlin_codec sample_env sample_request 9 (Decoded (JObj [(''title'', JStr ''New'')])) sample_server of
    (r, sv') \<Rightarrow>
    list_all2 (\<lambda>l l'. l' = l \<or> (update_hit (pr_effective (rq_principal sample_request)) 9 l \<and> same_identity l l' \<and>
        (l_password_hash l' = l_password_hash l \<or> touches_password (Decoded (JObj [(''title'', JStr ''New'')])))))
      (s_links (sv_store sample_server)) (s_links (sv_store sv')) \<and>
    (r \<notin> {Status 200, Status 500} \<longrightarrow> sv' = sample_server) \<and>
    (r = Status 200 \<longrightarrow> deletable (sv_store sample_server) (pr_effective (rq_principal sample_request)) 9 \<and>
       map l_id (sv_invalidated sv') = map l_id (sv_invalidated sample_server) @ [9])"
  by (rule patch_changes_one_link) (rule wf_store_ids(2) [OF sample_server_wf])

definition sample_updates :: "link_update list" where
  "sample_updates = [\<lparr>lu_id = 9, lu_link = sample_link, lu_hash = ''x'', lu_changed = False\<rparr>,
     \<lparr>lu_id = 7, lu_link = sample_link\<lparr>l_title := ''New'', l_password_protected := True\<rparr>, lu_hash = ''x'', lu_changed = True\<rparr>]"


end
