(* ===== verification/Domains.thy ===== *)
theory Domains
  imports Redirect LinkWrite
begin

text \<open>
  The domains of the departments: the rows (\<open>internal/store/store.go\<close>: \<open>CreateTenantDomain\<close>, \<open>ListTenantDomains\<close>,
  \<open>TenantDomainByDomain\<close>, \<open>TenantDomainByID\<close>, \<open>UpdateTenantDomain\<close>, \<open>DeleteTenantDomain\<close>) and the handlers \<open>domains\<close>
  and \<open>domainByID\<close> (\<open>internal/handlers/handlers.go\<close>). What a visit does to a domain is in \<open>Redirect\<close>; here visits and
  requests are steps of one world, and the theorems say who can change which domain, and that an active domain was
  proven by DNS.

  The id of a new row and its random verification token come with the request.
\<close>

section \<open>Rows\<close>

definition letter :: "char \<Rightarrow> bool" where
  "letter c \<longleftrightarrow> c \<in> set ''abcdefghijklmnopqrstuvwxyzABCDEFGHIJKLMNOPQRSTUVWXYZ''"

definition domainRe :: "string \<Rightarrow> bool" where
  "domainRe s =
     (let parts = split_on (CHR ''.'') s; top = last parts in
      list_all (\<lambda>c. letter c \<or> c \<in> set ''0123456789.-'') s \<and> 2 \<le> length top \<and> list_all letter top \<and>
      1 < length s - length top)"

definition tenantDomainByDomain :: "string \<Rightarrow> tenant_domain list \<Rightarrow> store_error + tenant_domain" where
  "tenantDomainByDomain domain ds =
     (case find (\<lambda>d. d_domain d = cleanDomain domain) ds of None \<Rightarrow> Inl NoRows | Some d \<Rightarrow> Inr d)"

definition domain_insert :: "int \<Rightarrow> int \<Rightarrow> string \<Rightarrow> string \<Rightarrow> tenant_domain" where
  "domain_insert i tid domain token =
     \<lparr>d_id = i, d_tenant_id = tid, d_domain = domain, d_status = ''pending'', d_verification_token = token,
      d_verified_at = None, d_not_found_url = []\<rparr>"

definition insert_domain :: "tenant list \<Rightarrow> tenant_domain \<Rightarrow> tenant_domain list \<Rightarrow> store_error + tenant_domain list" where
  "insert_domain ts d ds =
     (if d_id d \<in> d_id ` set ds \<or> d_domain d \<in> d_domain ` set ds then Inl (Invalid ''duplicate key'')
      else if runes (d_domain d) > 190 \<or> runes (d_verification_token d) > 80 \<or> d_tenant_id d \<notin> t_id ` set ts
      then Inl (Invalid ''value refused'')
      else Inr (ds @ [d]))"

definition createTenantDomain ::
    "tenant list \<Rightarrow> user \<Rightarrow> int \<Rightarrow> int \<Rightarrow> string \<Rightarrow> string \<Rightarrow> tenant_domain list
     \<Rightarrow> (store_error + tenant_domain) \<times> tenant_domain list" where
  "createTenantDomain ts u i tid domain0 token ds =
     (let domain = cleanDomain domain0 in
      if \<not> domainRe domain then (Inl (Invalid ''domain invalid''), ds)
      else if u_role u = ''tenant'' \<and> u_tenant_id u \<noteq> Some tid then (Inl (Invalid ''tenant scope invalid''), ds)
      else if u_role u \<noteq> ''tenant'' \<and> u_role u \<noteq> ''superadmin'' then (Inl (Invalid ''tenant or superadmin only''), ds)
      else case insert_domain ts (domain_insert i tid domain token) ds of Inl e \<Rightarrow> (Inl e, ds)
      | Inr ds' \<Rightarrow> (tenantDomainByDomain domain ds', ds'))"

text \<open>The rows a query with the scope of a user reaches; \<open>None\<close> is the nil dereference for a department admin
  without a department.\<close>

definition in_scope :: "user \<Rightarrow> tenant_domain \<Rightarrow> bool" where
  "in_scope u d \<longleftrightarrow> (u_role u = ''tenant'' \<longrightarrow> u_tenant_id u = Some (d_tenant_id d))"

definition listTenantDomains :: "user \<Rightarrow> tenant_domain list \<Rightarrow> tenant_domain list option" where
  "listTenantDomains u ds =
     (if u_role u = ''tenant'' \<and> u_tenant_id u = None then None
      else if u_role u \<noteq> ''tenant'' \<and> u_role u \<noteq> ''superadmin'' then Some []
      else Some (order_desc d_id (filter (in_scope u) ds)))"

definition domain_access :: "user \<Rightarrow> store_error option" where
  "domain_access u =
     (if u_role u \<noteq> ''tenant'' \<and> u_role u \<noteq> ''superadmin'' then Some (Invalid ''tenant or superadmin only'')
      else if u_role u = ''tenant'' \<and> u_tenant_id u = None then Some (Invalid ''tenant scope invalid'') else None)"

definition tenantDomainByID :: "user \<Rightarrow> int \<Rightarrow> tenant_domain list \<Rightarrow> store_error + tenant_domain" where
  "tenantDomainByID u i ds =
     (case domain_access u of Some e \<Rightarrow> Inl e
      | None \<Rightarrow> (case find (\<lambda>d. d_id d = i \<and> in_scope u d) ds of None \<Rightarrow> Inl NoRows | Some d \<Rightarrow> Inr d))"

definition deleteTenantDomain :: "user \<Rightarrow> int \<Rightarrow> tenant_domain list \<Rightarrow> store_error + tenant_domain list" where
  "deleteTenantDomain u i ds =
     (case domain_access u of Some e \<Rightarrow> Inl e | None \<Rightarrow> Inr (filter (\<lambda>d. \<not> (d_id d = i \<and> in_scope u d)) ds))"

definition updateTenantDomain ::
    "write_env \<Rightarrow> user \<Rightarrow> int \<Rightarrow> string \<Rightarrow> tenant_domain list \<Rightarrow> (store_error + tenant_domain) \<times> tenant_domain list" where
  "updateTenantDomain env u i url ds =
     (if url \<noteq> [] \<and> \<not> validHTTPURL env url then (Inl (Invalid ''must be an absolute http or https URL''), ds)
      else if u_role u = ''tenant'' \<and> u_tenant_id u = None then (Inl Panicked, ds)
      else if u_role u \<noteq> ''tenant'' \<and> u_role u \<noteq> ''superadmin'' then (Inl (Invalid ''tenant or superadmin only''), ds)
      else if filter (\<lambda>d. d_id d = i \<and> in_scope u d) ds = [] then (Inl NoRows, ds)
      else let ds' = map (\<lambda>d. if d_id d = i \<and> in_scope u d then d\<lparr>d_not_found_url := url\<rparr> else d) ds
           in (tenantDomainByID u i ds', ds'))"

section \<open>The handlers\<close>

record domain_world =
  dw_server :: server
  dw_tenants :: "tenant list"
  dw_redirects :: redirect_state

definition dw_domains :: "domain_world \<Rightarrow> tenant_domain list" where
  "dw_domains w = rw_domains (dw_redirects w)"

definition set_domains :: "tenant_domain list \<Rightarrow> domain_world \<Rightarrow> domain_world" where
  "set_domains ds w = w\<lparr>dw_redirects := (dw_redirects w)\<lparr>rw_domains := ds\<rparr>\<rparr>"

definition drop_cached :: "tenant_domain \<Rightarrow> domain_world \<Rightarrow> domain_world" where
  "drop_cached d w = w\<lparr>dw_redirects := invalidateDomainRedirects d (dw_redirects w)\<rparr>"

definition log_domain :: "int \<Rightarrow> request \<Rightarrow> string \<Rightarrow> int \<Rightarrow> domain_world \<Rightarrow> LinkHandler.response \<times> domain_world" where
  \<comment> \<open>the audit row of a change, and the answer\<close>
  "log_domain ok rq action i w =
     (case audit rq action ''domain'' (int_text i) ''success'' (dw_server w) of None \<Rightarrow> (Status 500, w)
      | Some sv \<Rightarrow> (Status ok, w\<lparr>dw_server := sv\<rparr>))"

definition domains_GET :: "request \<Rightarrow> domain_world \<Rightarrow> tenant_domain list option" where
  "domains_GET rq w = listTenantDomains (pr_effective (rq_principal rq)) (dw_domains w)"

definition domains_POST ::
    "int \<Rightarrow> string \<Rightarrow> request \<Rightarrow> (int \<times> string) decoded \<Rightarrow> domain_world \<Rightarrow> LinkHandler.response \<times> domain_world" where
  "domains_POST i token rq body w =
     (case body of TooLarge \<Rightarrow> (Status 413, w) | BadJson \<Rightarrow> (Status 400, w)
      | Decoded (tid0, domain) \<Rightarrow>
          (let u = pr_effective (rq_principal rq);
               tid = (case u_tenant_id u of Some t \<Rightarrow> if u_role u = ''tenant'' then t else tid0 | None \<Rightarrow> tid0)
           in case createTenantDomain (dw_tenants w) u i tid domain token (dw_domains w) of
                (Inl e, ds) \<Rightarrow> (Status 400, set_domains ds w)
              | (Inr d, ds) \<Rightarrow> log_domain 201 rq ''domain.created'' (d_id d) (set_domains ds w)))"

definition verify_POST :: "outside \<Rightarrow> request \<Rightarrow> int \<Rightarrow> domain_world \<Rightarrow> LinkHandler.response \<times> domain_world" where
  "verify_POST ou rq i w =
     (case tenantDomainByID (pr_effective (rq_principal rq)) i (dw_domains w) of Inl e \<Rightarrow> (Status 404, w)
      | Inr d \<Rightarrow>
          if \<not> verifyDomain_dns ou d then (Status 400, w)
          else if \<not> ou_domain_saved ou then (Status 500, w)
          else log_domain 200 rq ''domain.verified'' i
            (drop_cached d (set_domains (setTenantDomainVerified (ou_now ou) i True (dw_domains w)) w)))"

definition domain_PATCH ::
    "write_env \<Rightarrow> request \<Rightarrow> int \<Rightarrow> string decoded \<Rightarrow> domain_world \<Rightarrow> LinkHandler.response \<times> domain_world" where
  "domain_PATCH env rq i body w =
     (case body of TooLarge \<Rightarrow> (Status 413, w) | BadJson \<Rightarrow> (Status 400, w)
      | Decoded url \<Rightarrow>
          (let u = pr_effective (rq_principal rq) in
           case tenantDomainByID u i (dw_domains w) of Inl e \<Rightarrow> (Status 404, w)
           | Inr before \<Rightarrow>
               (case updateTenantDomain env u i (trim url) (dw_domains w) of
                  (Inl e, ds) \<Rightarrow> (refuse 400 e, set_domains ds w)
                | (Inr d, ds) \<Rightarrow> log_domain 200 rq ''domain.updated'' i (drop_cached d (set_domains ds w)))))"

definition domain_DELETE :: "request \<Rightarrow> int \<Rightarrow> domain_world \<Rightarrow> LinkHandler.response \<times> domain_world" where
  "domain_DELETE rq i w =
     (case requireDelete rq ''domain.deleted'' ''domain'' (int_text i) (dw_server w) of
        (Some r, sv) \<Rightarrow> (r, w\<lparr>dw_server := sv\<rparr>)
      | (None, sv) \<Rightarrow>
          (let u = pr_effective (rq_principal rq); w1 = w\<lparr>dw_server := sv\<rparr> in
           case tenantDomainByID u i (dw_domains w1) of Inl e \<Rightarrow> (Status 404, w1)
           | Inr before \<Rightarrow>
               (case deleteTenantDomain u i (dw_domains w1) of Inl e \<Rightarrow> (Status 404, w1)
                | Inr ds \<Rightarrow> log_domain 204 rq ''domain.deleted'' i (drop_cached before (set_domains ds w1)))))"

definition domainByID ::
    "outside \<Rightarrow> write_env \<Rightarrow> request \<Rightarrow> string \<Rightarrow> bool \<Rightarrow> int \<Rightarrow> string decoded \<Rightarrow> domain_world
     \<Rightarrow> LinkHandler.response \<times> domain_world" where
  \<comment> \<open>\<open>verify\<close>: the path ends with \<open>/verify\<close>\<close>
  "domainByID ou env rq http_method verify i body w =
     (let role = u_role (pr_effective (rq_principal rq)) in
      if role \<noteq> ''tenant'' \<and> role \<noteq> ''superadmin'' then (Status 403, w)
      else if verify \<and> http_method = ''POST'' then verify_POST ou rq i w
      else if \<not> verify \<and> (http_method = ''PATCH'' \<or> http_method = ''PUT'') then domain_PATCH env rq i body w
      else if http_method = ''DELETE'' then domain_DELETE rq i w
      else (Status 405, w))"

section \<open>Requests and visits\<close>

datatype domain_event =
    New_domain int string request "(int \<times> string) decoded"
  | Domain_request outside write_env request string bool int "string decoded"
  | Visit outside redirect_request string

definition domain_step :: "domain_event \<Rightarrow> domain_world \<Rightarrow> domain_world" where
  "domain_step e w =
     (case e of
        New_domain i token rq body \<Rightarrow> snd (domains_POST i token rq body w)
      | Domain_request ou env rq m verify i body \<Rightarrow> snd (domainByID ou env rq m verify i body w)
      | Visit ou req slug \<Rightarrow> w\<lparr>dw_redirects := snd (redirectSlug ou req slug (dw_redirects w))\<rparr>)"

section \<open>What a step does to the rows\<close>

lemma set_domains_simps [simp]: "dw_domains (set_domains ds w) = ds"
  by (simp add: dw_domains_def set_domains_def)

lemma drop_cached_domains [simp]: "dw_domains (drop_cached d w) = dw_domains w"
  by (simp add: dw_domains_def drop_cached_def invalidateDomainRedirects_def)

lemma log_domain_domains [simp]: "dw_domains (snd (log_domain ok rq a i w)) = dw_domains w"
  by (simp add: log_domain_def dw_domains_def split: option.split)

lemma server_update_domains [simp]: "dw_domains (w\<lparr>dw_server := sv\<rparr>) = dw_domains w"
  by (simp add: dw_domains_def)

lemma tenantDomainByID_Inr:
  assumes "tenantDomainByID u i ds = Inr d"
  shows "d \<in> set ds \<and> d_id d = i \<and> in_scope u d \<and> domain_access u = None"
  using assms by (auto simp: tenantDomainByID_def find_Some_iff split: option.splits)

lemma insert_domain_Inr:
  "insert_domain ts d ds = Inr ds' \<Longrightarrow> ds' = ds @ [d] \<and> d_id d \<notin> d_id ` set ds \<and> d_domain d \<notin> d_domain ` set ds"
  by (auto simp: insert_domain_def split: if_splits)

definition in_department :: "user \<Rightarrow> int \<Rightarrow> bool" where
  "in_department u t \<longleftrightarrow> u_role u = ''superadmin'' \<or> u_role u = ''tenant'' \<and> u_tenant_id u = Some t"

lemma in_department_scope: "domain_access u = None \<Longrightarrow> in_scope u d \<Longrightarrow> in_department u (d_tenant_id d)"
  by (auto simp: domain_access_def in_scope_def in_department_def split: if_splits)

lemma createTenantDomain_cases:
  assumes "createTenantDomain ts u i tid domain0 token ds = (r, ds')"
  obtains "ds' = ds" | "ds' = ds @ [domain_insert i tid (cleanDomain domain0) token]" "domainRe (cleanDomain domain0)"
    "in_department u tid" "i \<notin> d_id ` set ds" "cleanDomain domain0 \<notin> d_domain ` set ds"
proof (cases "ds' = ds")
  case False
  define row where "row = domain_insert i tid (cleanDomain domain0) token"
  note run = assms [unfolded createTenantDomain_def Let_def, folded row_def]
  have scope: "domainRe (cleanDomain domain0) \<and> \<not> (u_role u = ''tenant'' \<and> u_tenant_id u \<noteq> Some tid) \<and>
      \<not> (u_role u \<noteq> ''tenant'' \<and> u_role u \<noteq> ''superadmin'')"
  proof (rule ccontr)
    assume "\<not> ?thesis"
    with run have "ds' = ds" by (simp split: if_split_asm)
    with False show "False" by simp
  qed
  with run have "(case insert_domain ts row ds of Inl e \<Rightarrow> (Inl e, ds)
      | Inr ds' \<Rightarrow> (tenantDomainByDomain (cleanDomain domain0) ds', ds')) = (r, ds')"
    by simp
  with False have "insert_domain ts row ds = Inr ds'" by (simp split: sum.splits)
  from insert_domain_Inr [OF this] show ?thesis
    using scope by (intro that(2)) (auto simp: row_def domain_insert_def in_department_def)
qed (rule that(1))

lemma load_link_domains: "load_link host slug w = (r, w') \<Longrightarrow> rw_domains w' = rw_domains w"
  by (auto simp: load_link_def Let_def split: option.splits prod.splits)

lemma serve_link_domains: "rw_domains (snd (serve_link ou req d l w)) = rw_domains w"
proof -
  have "rw_domains (snd (passwordGate ou req l w)) = rw_domains w"
    by (simp add: passwordGate_def Let_def split: prod.split option.split)
  moreover have "rw_domains (snd (say_expired ou req l w)) = rw_domains w"
    by (auto simp: say_expired_def dest: record_click_state(3) split: prod.split)
  moreover have "rw_domains (snd (follow_link ou req l w)) = rw_domains w"
    by (auto simp: follow_link_def Let_def dest: record_click_state(3) split: prod.split)
  ultimately show ?thesis by (simp add: serve_link_def)
qed

lemma serve_slug_domains: "rw_domains (snd (serve_slug ou req host slug d w)) = rw_domains w"
proof (cases "load_link host slug w")
  case (Pair r w')
  with load_link_domains [OF Pair] show ?thesis
    by (cases r) (simp_all add: serve_slug_def serve_link_domains)
qed

lemma check_domain_domains:
  assumes "check_domain ou host w = (r, w')"
  shows "rw_domains w' = rw_domains w \<or>
    (\<exists>d v. d \<in> set (rw_domains w) \<and> d_status d = ''active'' \<and> rw_domains w' = setTenantDomainVerified (ou_now ou) (d_id d) v (rw_domains w))"
proof (cases "find (\<lambda>d. d_domain d = cleanDomain host) (rw_domains w)")
  case None
  then show ?thesis using assms by (auto simp: check_domain_def split: if_splits)
next
  case (Some d)
  then have d: "d \<in> set (rw_domains w)" by (auto simp: find_Some_iff)
  have "rw_domains (invalidateDomainRedirects d w1) = rw_domains w1" for w1
    by (simp add: invalidateDomainRedirects_def)
  then have "rw_domains w' = rw_domains w \<or> d_status d = ''active'' \<and>
      (rw_domains w' = setTenantDomainVerified (ou_now ou) (d_id d) False (rw_domains w) \<or>
       rw_domains w' = setTenantDomainVerified (ou_now ou) (d_id d) True (rw_domains w))"
    using assms Some by (auto simp: check_domain_def Let_def split: if_splits)
  with d show ?thesis by blast
qed

lemma redirectSlug_domains:
  "rw_domains (snd (redirectSlug ou req slug w)) = rw_domains w \<or>
    (\<exists>d v. d \<in> set (rw_domains w) \<and> d_status d = ''active'' \<and>
       rw_domains (snd (redirectSlug ou req slug w)) = setTenantDomainVerified (ou_now ou) (d_id d) v (rw_domains w))"
proof (cases "slug = [] \<or> CHR ''/'' \<in> set slug \<or> isReservedRootPath (CHR ''/'' # slug)")
  case True
  then have "snd (redirectSlug ou req slug w) = w" by (auto simp: redirectSlug_def)
  then show ?thesis by simp
next
  case False
  obtain r w1 where c: "check_domain ou (request_host req) w = (r, w1)" by fastforce
  with False have "rw_domains (snd (redirectSlug ou req slug w)) = rw_domains w1"
    by (cases r) (simp_all add: redirectSlug_def serve_slug_domains)
  with check_domain_domains [OF c] show ?thesis by simp
qed

text \<open>A row that stays is the same domain of the same department.\<close>

definition same_domain :: "tenant_domain \<Rightarrow> tenant_domain \<Rightarrow> bool" where
  "same_domain d d' \<longleftrightarrow> d_id d' = d_id d \<and> d_tenant_id d' = d_tenant_id d \<and> d_domain d' = d_domain d \<and>
     d_verification_token d' = d_verification_token d"

definition acting :: "domain_event \<Rightarrow> principal option" where
  \<comment> \<open>who asks; a visit has no account\<close>
  "acting e = (case e of New_domain i token rq body \<Rightarrow> Some (rq_principal rq)
     | Domain_request ou env rq m verify i body \<Rightarrow> Some (rq_principal rq) | Visit ou req slug \<Rightarrow> None)"

inductive domain_change :: "domain_event \<Rightarrow> tenant_domain list \<Rightarrow> tenant_domain list \<Rightarrow> bool" for e ds where
  unchanged: "domain_change e ds ds"
| added: "acting e = Some p \<Longrightarrow> in_department (pr_effective p) tid \<Longrightarrow> domainRe domain \<Longrightarrow> i \<notin> d_id ` set ds \<Longrightarrow>
    domain \<notin> d_domain ` set ds \<Longrightarrow> domain_change e ds (ds @ [domain_insert i tid domain token])"
| proven: "acting e = Some p \<Longrightarrow> d \<in> set ds \<Longrightarrow> in_department (pr_effective p) (d_tenant_id d) \<Longrightarrow>
    e = Domain_request ou env rq m verify (d_id d) body \<Longrightarrow> verifyDomain_dns ou d \<Longrightarrow>
    domain_change e ds (setTenantDomainVerified now (d_id d) True ds)"
| checked: "e = Visit ou req slug \<Longrightarrow> d \<in> set ds \<Longrightarrow> d_status d = ''active'' \<Longrightarrow>
    domain_change e ds (setTenantDomainVerified now (d_id d) v ds)"
| edited: "acting e = Some p \<Longrightarrow> domain_access (pr_effective p) = None \<Longrightarrow>
    domain_change e ds (map (\<lambda>d. if d_id d = i \<and> in_scope (pr_effective p) d then d\<lparr>d_not_found_url := url\<rparr> else d) ds)"
| deleted: "acting e = Some p \<Longrightarrow> domain_access (pr_effective p) = None \<Longrightarrow> canDelete p \<Longrightarrow>
    domain_change e ds (filter (\<lambda>d. \<not> (d_id d = i \<and> in_scope (pr_effective p) d)) ds)"

lemma domains_POST_change:
  assumes "acting e = Some (rq_principal rq)"
  shows "domain_change e (dw_domains w) (dw_domains (snd (domains_POST i token rq body w)))"
proof (cases body)
  case (Decoded b)
  obtain tid0 domain where b: "b = (tid0, domain)" by (cases b)
  let ?u = "pr_effective (rq_principal rq)"
  define tid where "tid = (case u_tenant_id ?u of Some t \<Rightarrow> if u_role ?u = ''tenant'' then t else tid0 | None \<Rightarrow> tid0)"
  obtain r ds where c: "createTenantDomain (dw_tenants w) ?u i tid domain token (dw_domains w) = (r, ds)" by fastforce
  have "dw_domains (snd (domains_POST i token rq body w)) = ds"
    using c by (cases r) (simp_all add: domains_POST_def Decoded b Let_def flip: tid_def)
  moreover from c have "domain_change e (dw_domains w) ds"
    by (rule createTenantDomain_cases) (use assms in \<open>auto intro: domain_change.intros\<close>)
  ultimately show ?thesis by simp
qed (simp_all add: domains_POST_def domain_change.unchanged)

lemma verify_POST_change:
  assumes "e = Domain_request ou env rq m verify i body"
  shows "domain_change e (dw_domains w) (dw_domains (snd (verify_POST ou rq i w)))"
proof (cases "tenantDomainByID (pr_effective (rq_principal rq)) i (dw_domains w)")
  case (Inr d)
  note d = tenantDomainByID_Inr [OF Inr]
  have p: "acting e = Some (rq_principal rq)" by (simp add: acting_def assms)
  show ?thesis
  proof (cases "verifyDomain_dns ou d \<and> ou_domain_saved ou")
    case True
    have "domain_change e (dw_domains w) (setTenantDomainVerified (ou_now ou) (d_id d) True (dw_domains w))"
      using d True assms by (intro proven [OF p]) (auto intro: in_department_scope)
    then show ?thesis using Inr True d by (simp add: verify_POST_def)
  next
    case False
    then show ?thesis using Inr by (auto simp: verify_POST_def intro: unchanged)
  qed
qed (simp add: verify_POST_def domain_change.unchanged)

lemma domain_PATCH_change:
  assumes "acting e = Some (rq_principal rq)"
  shows "domain_change e (dw_domains w) (dw_domains (snd (domain_PATCH env rq i body w)))"
proof (cases body)
  case (Decoded url)
  let ?u = "pr_effective (rq_principal rq)"
  show ?thesis
  proof (cases "tenantDomainByID ?u i (dw_domains w)")
    case (Inr d)
    obtain r ds where u: "updateTenantDomain env ?u i (trim url) (dw_domains w) = (r, ds)" by fastforce
    have "dw_domains (snd (domain_PATCH env rq i body w)) = ds"
      using u by (cases r) (simp_all add: domain_PATCH_def Decoded Inr)
    moreover have "domain_change e (dw_domains w) ds"
      using u assms tenantDomainByID_Inr [OF Inr] by (auto simp: updateTenantDomain_def Let_def intro: unchanged edited split: if_splits)
    ultimately show ?thesis by simp
  qed (simp add: domain_PATCH_def Decoded domain_change.unchanged)
qed (simp_all add: domain_PATCH_def domain_change.unchanged)

lemma domain_DELETE_change:
  assumes "acting e = Some (rq_principal rq)"
  shows "domain_change e (dw_domains w) (dw_domains (snd (domain_DELETE rq i w)))"
proof -
  obtain r sv where q: "requireDelete rq ''domain.deleted'' ''domain'' (int_text i) (dw_server w) = (r, sv)" by fastforce
  show ?thesis
  proof (cases r)
    case None
    then have "canDelete (rq_principal rq)" using q by (auto simp: requireDelete_def split: if_splits option.splits)
    then have "domain_change e (dw_domains w) ds" if "deleteTenantDomain (pr_effective (rq_principal rq)) i (dw_domains w) = Inr ds" for ds
      using that deleted [OF assms] by (auto simp only: deleteTenantDomain_def split: option.splits)
    then show ?thesis
      using q None by (simp add: domain_DELETE_def Let_def unchanged split: sum.split)
  qed (use q in \<open>simp add: domain_DELETE_def unchanged\<close>)
qed

lemma domain_step_change: "domain_change e (dw_domains w) (dw_domains (domain_step e w))"
proof (cases e)
  case (New_domain i token rq body)
  then show ?thesis by (simp add: domain_step_def domains_POST_change acting_def)
next
  case (Domain_request ou env rq m verify i body)
  have p: "acting e = Some (rq_principal rq)" by (simp add: acting_def Domain_request)
  note changes = verify_POST_change [OF Domain_request] domain_PATCH_change [OF p] domain_DELETE_change [OF p] unchanged
  have "domain_change e (dw_domains w) (dw_domains (snd (domainByID ou env rq m verify i body w)))"
    unfolding domainByID_def Let_def by (simp add: changes)
  then show ?thesis by (simp add: domain_step_def Domain_request)
next
  case (Visit ou req slug)
  have "domain_change e (dw_domains w) (rw_domains (snd (redirectSlug ou req slug (dw_redirects w))))"
    using redirectSlug_domains [of ou req slug "dw_redirects w"] checked [OF Visit] unchanged
    unfolding dw_domains_def by metis
  then show ?thesis by (simp add: domain_step_def Visit dw_domains_def)
qed

section \<open>What a step keeps\<close>

lemma distinct_eq: "distinct (map f xs) \<Longrightarrow> x \<in> set xs \<Longrightarrow> y \<in> set xs \<Longrightarrow> f x = f y \<Longrightarrow> x = y"
  unfolding distinct_map by (blast dest: inj_onD)

lemma verified_columns [simp]:
  "map d_id (setTenantDomainVerified now i v ds) = map d_id ds"
  "map d_domain (setTenantDomainVerified now i v ds) = map d_domain ds"
  by (induction ds) (simp_all add: setTenantDomainVerified_def)

lemma edited_columns [simp]:
  "map d_id (map (\<lambda>d. if P d then d\<lparr>d_not_found_url := url\<rparr> else d) ds) = map d_id ds"
  "map d_domain (map (\<lambda>d. if P d then d\<lparr>d_not_found_url := url\<rparr> else d) ds) = map d_domain ds"
  by (induction ds) simp_all

lemma domain_change_unique:
  assumes "domain_change e ds ds'" and "distinct (map d_id ds)" and "distinct (map d_domain ds)"
  shows "distinct (map d_id ds') \<and> distinct (map d_domain ds')"
  using assms
proof (cases rule: domain_change.cases)
  case (edited p i url)
  then show ?thesis using assms by (simp only: edited_columns)
qed (simp_all add: distinct_map_filter domain_insert_def)

text \<open>Every row after a step is the same domain as a row before it, or it is new and pending. It turns active only
  by a proof.\<close>

lemma in_verified:
  assumes "d' \<in> set (setTenantDomainVerified now i v ds)"
  obtains d where "d \<in> set ds" "same_domain d d'" "d' = d \<or> d_id d = i \<and> d_status d' = (if v then ''active'' else ''pending'')"
proof -
  from assms obtain d where d: "d \<in> set ds" "d' = (if d_id d = i then d\<lparr>d_status := (if v then ''active'' else ''pending''),
       d_verified_at := (if v then Some now else None)\<rparr> else d)"
    unfolding setTenantDomainVerified_def set_map by blast
  then show ?thesis by (intro that [OF d(1)]) (auto simp: same_domain_def)
qed

lemma domain_change_rows:
  assumes c: "domain_change e ds ds'" and u: "distinct (map d_id ds)" and d': "d' \<in> set ds'"
  shows "d_id d' \<notin> d_id ` set ds \<and> d_status d' = ''pending'' \<or>
    (\<exists>d \<in> set ds. same_domain d d' \<and> (d_status d' = ''active'' \<longrightarrow> d_status d = ''active'' \<or>
       (\<exists>ou env rq m verify body. e = Domain_request ou env rq m verify (d_id d') body \<and> verifyDomain_dns ou d')))"
  using c
proof (cases rule: domain_change.cases)
  case (proven p d ou env rq m verify body now)
  from d' [unfolded proven(1)] obtain d0 where d0: "d0 \<in> set ds" "same_domain d0 d'" "d' = d0 \<or> d_id d0 = d_id d"
    by (rule in_verified) blast
  then consider "d' = d0" | "d0 = d" using distinct_eq [OF u d0(1) proven(3)] by blast
  then show ?thesis
  proof cases
    case 2
    then have "verifyDomain_dns ou d'" "d_id d' = d_id d"
      using proven(6) d0(2) by (simp_all add: verifyDomain_dns_def same_domain_def)
    with d0 proven(5) 2 show ?thesis by metis
  qed (use d0 in blast)
next
  case (checked ou req slug d now v)
  from d' [unfolded checked(1)] obtain d0 where d0: "d0 \<in> set ds" "same_domain d0 d'" "d' = d0 \<or> d_id d0 = d_id d"
    by (rule in_verified) blast
  then have "d' = d0 \<or> d_status d0 = ''active''" using distinct_eq [OF u d0(1) checked(3)] checked(4) by blast
  with d0 show ?thesis by blast
next
  case (edited p i url)
  from d' [unfolded edited(1)] obtain d where d: "d \<in> set ds"
    "d' = (if d_id d = i \<and> in_scope (pr_effective p) d then d\<lparr>d_not_found_url := url\<rparr> else d)"
    unfolding set_map by blast
  then have "same_domain d d' \<and> d_status d' = d_status d" by (simp add: same_domain_def)
  with d(1) show ?thesis by metis
qed (use d' in \<open>auto simp: same_domain_def domain_insert_def\<close>)

lemma filter_verified:
  assumes "\<And>d. d \<in> set ds \<Longrightarrow> d_id d = i \<Longrightarrow> d_tenant_id d \<noteq> t"
  shows "filter (\<lambda>d. d_tenant_id d = t) (setTenantDomainVerified now i v ds) = filter (\<lambda>d. d_tenant_id d = t) ds"
  using assms by (induction ds) (auto simp: setTenantDomainVerified_def)

lemma domain_change_elsewhere:
  assumes c: "domain_change e ds ds'" and u: "distinct (map d_id ds)" and p: "acting e = Some p"
    and t: "\<not> in_department (pr_effective p) t"
  shows "filter (\<lambda>d. d_tenant_id d = t) ds' = filter (\<lambda>d. d_tenant_id d = t) ds"
  using c
proof (cases rule: domain_change.cases)
  case (added q tid domain i token)
  with p t show ?thesis by (auto simp: domain_insert_def)
next
  case (proven q d ou env rq m verify body now)
  have "d_tenant_id d0 \<noteq> t" if "d0 \<in> set ds" "d_id d0 = d_id d" for d0
    using distinct_eq [OF u that(1) proven(3) that(2)] proven(2,4) p t by auto
  then show ?thesis unfolding proven(1) by (rule filter_verified)
next
  case (checked ou req slug d now v)
  with p show ?thesis by (simp add: acting_def)
next
  case (edited q i url)
  have "\<not> in_scope (pr_effective p) d" if "d_tenant_id d = t" for d
    using t edited(2,3) p in_department_scope [of "pr_effective p" d] that by auto
  moreover have "q = p" using edited(2) p by simp
  ultimately show ?thesis unfolding edited(1) by (induction ds) auto
next
  case (deleted q i)
  have "\<not> in_scope (pr_effective p) d" if "d_tenant_id d = t" for d
    using t deleted(2,3) p in_department_scope [of "pr_effective p" d] that by auto
  moreover have "q = p" using deleted(2) p by simp
  ultimately show ?thesis unfolding deleted(1) by (induction ds) auto
qed simp

lemma domain_change_removed:
  assumes c: "domain_change e ds ds'" and d: "d \<in> set ds" "d_id d \<notin> d_id ` set ds'"
  shows "\<exists>p. acting e = Some p \<and> canDelete p \<and> in_department (pr_effective p) (d_tenant_id d)"
proof -
  have gone: "map d_id ds' \<noteq> map d_id ds"
  proof
    assume "map d_id ds' = map d_id ds"
    then have "d_id ` set ds' = d_id ` set ds" by (metis list.set_map)
    with d show "False" by simp
  qed
  from c show ?thesis
  proof (cases rule: domain_change.cases)
    case (deleted p i)
    with d have "in_scope (pr_effective p) d" by auto
    with deleted show ?thesis by (auto intro: in_department_scope)
  next
    case (proven p d' ou env rq m verify body now)
    show ?thesis using gone [unfolded proven(1) verified_columns] by simp
  next
    case (checked ou req slug d' now v)
    show ?thesis using gone [unfolded checked(1) verified_columns] by simp
  next
    case (edited p i url)
    show ?thesis using gone [unfolded edited(1) edited_columns] by simp
  qed (use d in simp_all)
qed

section \<open>Properties\<close>

text \<open>C7: A domain stays with its department, and is active only when proven. Whatever request or visit comes
  next: a domain keeps its department, its name and its token; it turns active only when a request for it finds its
  token in DNS; an account changes no domain outside the departments it administers; and a domain disappears only for
  an administrator of its department with deletion access. Ids and names stay unique, so this holds of every
  sequence.\<close>

theorem domains_stay_theirs:
  assumes "distinct (map d_id (dw_domains w))" and "distinct (map d_domain (dw_domains w))"
  shows "distinct (map d_id (dw_domains (domain_step e w))) \<and> distinct (map d_domain (dw_domains (domain_step e w))) \<and>
    (\<forall>d' \<in> set (dw_domains (domain_step e w)).
       d_id d' \<notin> d_id ` set (dw_domains w) \<and> d_status d' = ''pending'' \<or>
       (\<exists>d \<in> set (dw_domains w). d_id d' = d_id d \<and> d_tenant_id d' = d_tenant_id d \<and> d_domain d' = d_domain d \<and>
          d_verification_token d' = d_verification_token d \<and>
          (d_status d' = ''active'' \<longrightarrow> d_status d = ''active'' \<or>
             (\<exists>ou env rq m verify body. e = Domain_request ou env rq m verify (d_id d') body \<and> verifyDomain_dns ou d')))) \<and>
    (\<forall>p t. acting e = Some p \<and> \<not> in_department (pr_effective p) t \<longrightarrow>
       filter (\<lambda>d. d_tenant_id d = t) (dw_domains (domain_step e w)) = filter (\<lambda>d. d_tenant_id d = t) (dw_domains w)) \<and>
    (\<forall>d \<in> set (dw_domains w). d_id d \<notin> d_id ` set (dw_domains (domain_step e w)) \<longrightarrow>
       (\<exists>p. acting e = Some p \<and> canDelete p \<and> in_department (pr_effective p) (d_tenant_id d)))"
proof (intro conjI ballI allI impI)
  note step = domain_step_change [of e w]
  show "distinct (map d_id (dw_domains (domain_step e w)))" "distinct (map d_domain (dw_domains (domain_step e w)))"
    using domain_change_unique [OF step assms] by simp_all
  show "d_id d' \<notin> d_id ` set (dw_domains w) \<and> d_status d' = ''pending'' \<or>
       (\<exists>d \<in> set (dw_domains w). d_id d' = d_id d \<and> d_tenant_id d' = d_tenant_id d \<and> d_domain d' = d_domain d \<and>
          d_verification_token d' = d_verification_token d \<and>
          (d_status d' = ''active'' \<longrightarrow> d_status d = ''active'' \<or>
             (\<exists>ou env rq m verify body. e = Domain_request ou env rq m verify (d_id d') body \<and> verifyDomain_dns ou d')))"
    if "d' \<in> set (dw_domains (domain_step e w))" for d'
    using domain_change_rows [OF step assms(1) that] by (simp add: same_domain_def)
  show "filter (\<lambda>d. d_tenant_id d = t) (dw_domains (domain_step e w)) = filter (\<lambda>d. d_tenant_id d = t) (dw_domains w)"
    if "acting e = Some p \<and> \<not> in_department (pr_effective p) t" for p t
    using domain_change_elsewhere [OF step assms(1)] that by blast
  show "\<exists>p. acting e = Some p \<and> canDelete p \<and> in_department (pr_effective p) (d_tenant_id d)"
    if "d \<in> set (dw_domains w)" "d_id d \<notin> d_id ` set (dw_domains (domain_step e w))" for d
    by (rule domain_change_removed [OF step that])
qed

definition sample_domain :: tenant_domain where
  "sample_domain = domain_insert 4 1 ''go.example.com'' ''t0k3n''"

definition sample_domains :: domain_world where
  "sample_domains = \<lparr>dw_server = \<lparr>sv_store = \<lparr>s_users = [sample_admin], s_links = [], s_clicks = [], s_audit = [], s_audit_seq = 0\<rparr>,
       sv_invalidated = []\<rparr>, dw_tenants = [\<lparr>t_id = 1, t_name = ''Alva'', t_slug = ''alva''\<rparr>, \<lparr>t_id = 2, t_name = ''Bela'', t_slug = ''bela''\<rparr>],
     dw_redirects = sample_world\<lparr>rw_domains := [sample_domain, domain_insert 5 2 ''to.example.org'' ''other'']\<rparr>\<rparr>"

definition sample_proof :: domain_event where
  \<comment> \<open>the department admin asks for verification, and the record is there\<close>
  "sample_proof = Domain_request
     (sample_outside\<lparr>ou_txt := (\<lambda>n. if n = ''_shortq.go.example.com'' then [''shortq-verify=t0k3n''] else [])\<rparr>)
     \<lparr>we_url = (\<lambda>_. True), we_slug = (\<lambda>_. []), we_id = int\<rparr>
     \<lparr>rq_principal = effectivePrincipal sample_admin ''admin'' ''session'', rq_ip = ''192.0.2.1'', rq_now = 0, rq_audit_up = True\<rparr>
     ''POST'' True 4 BadJson"

theorem domains_stay_theirs_witness:
  "map d_status (dw_domains (domain_step sample_proof sample_domains)) = [''active'', ''pending''] \<and>
   filter (\<lambda>d. d_tenant_id d = 2) (dw_domains (domain_step sample_proof sample_domains)) =
     filter (\<lambda>d. d_tenant_id d = 2) (dw_domains sample_domains)"
proof -
  have "map d_status (dw_domains (domain_step sample_proof sample_domains)) = [''active'', ''pending'']"
    by code_simp
  moreover have ids: "distinct (map d_id (dw_domains sample_domains))" "distinct (map d_domain (dw_domains sample_domains))"
    by (simp_all add: dw_domains_def sample_domains_def sample_domain_def domain_insert_def)
  moreover have "acting sample_proof = Some (effectivePrincipal sample_admin ''admin'' ''session'')"
    "\<not> in_department (pr_effective (effectivePrincipal sample_admin ''admin'' ''session'')) 2"
    by (simp_all add: acting_def sample_proof_def in_department_def effectivePrincipal_def canSwitchMode_def sample_admin_def)
  ultimately show ?thesis using domains_stay_theirs [OF ids, of sample_proof] by blast
qed

end
