(* ===== verification/Shortio.thy ===== *)
theory Shortio
  imports Domains
begin

text \<open>
  Creating links through the Short.io compatible interface (\<open>internal/handlers/handlers.go\<close>: \<open>shortioLinks\<close>,
  \<open>shortioCreatePayloadToLink\<close>, \<open>ensureShortioDomainAllowed\<close>, \<open>parseShortioTime\<close>). Deleting them is in
  \<open>LinkHandler\<close>.

  The record \<open>shortio_times\<close> holds what the handler uses of the package \<open>time\<close>: printing an instant given in
  milliseconds, and reading one of the two formats and printing it in UTC.
\<close>

section \<open>The payload\<close>

text \<open>A value of \<open>expiresAt\<close> or \<open>ttl\<close>: JSON leaves \<open>nil\<close>, a text, a number or something else.\<close>

datatype shortio_time = No_time | Text_time string | Number_time rat | Other_time

record shortio_times =
  ti_millis :: "int \<Rightarrow> string"
  ti_rfc3339 :: "string \<Rightarrow> string option"
  ti_date :: "string \<Rightarrow> string option"

record shortio_payload =
  si_original_url :: string
  si_domain :: string
  si_path :: "string option"
  si_title :: string
  si_tags :: "string list"
  si_redirect_type :: "int option"
  si_expires_at :: shortio_time
  si_ttl :: shortio_time
  si_expired_url :: "string option"
  si_android_url :: "string option"
  si_iphone_url :: "string option"
  si_clicks_limit :: "int option"
  si_skip_qs :: "bool option"
  si_password :: "string option"
  si_utm_source :: string
  si_utm_medium :: string
  si_utm_campaign :: string
  si_utm_term :: string
  si_utm_content :: string

definition firstNonNil :: "shortio_time \<Rightarrow> shortio_time \<Rightarrow> shortio_time" where
  "firstNonNil a b = (if a \<noteq> No_time then a else b)"

definition parseShortioTime :: "shortio_times \<Rightarrow> shortio_time \<Rightarrow> string + string" where
  "parseShortioTime ti value =
     (let bad = Inl ''expiresAt/ttl must be milliseconds, RFC3339, or YYYY-MM-DD'' in
      case value of
        No_time \<Rightarrow> Inr []
      | Text_time v0 \<Rightarrow>
          (let v = trim v0 in
           if v = [] then Inr []
           else case parse_int64 v of Some millis \<Rightarrow> Inr (ti_millis ti millis)
           | None \<Rightarrow>
               (case ti_rfc3339 ti v of Some t \<Rightarrow> Inr t
                | None \<Rightarrow> (case ti_date ti v of Some t \<Rightarrow> Inr t | None \<Rightarrow> bad)))
      | Number_time v \<Rightarrow> if v \<le> 0 then Inr [] else Inr (ti_millis ti \<lfloor>v\<rfloor>)
      | Other_time \<Rightarrow> bad)"

definition shortio_link_payload :: "shortio_payload \<Rightarrow> string \<Rightarrow> link_payload" where
  "shortio_link_payload p expires =
     empty_payload\<lparr>in_url := Some (si_original_url p), in_title := Some (si_title p), in_redirect_code := si_redirect_type p,
       in_max_clicks := si_clicks_limit p, in_tags := Some (si_tags p), in_utm_source := Some (si_utm_source p),
       in_utm_medium := Some (si_utm_medium p), in_utm_campaign := Some (si_utm_campaign p), in_utm_term := Some (si_utm_term p),
       in_utm_content := Some (si_utm_content p), in_password := si_password p,
       in_slug := map_option (strip_char (CHR ''/'')) (si_path p), in_expired_url := si_expired_url p,
       in_android_url := si_android_url p, in_ios_url := si_iphone_url p, in_forward_query := map_option Not (si_skip_qs p),
       in_expires_at := (if expires \<noteq> [] then Some expires else None)\<rparr>"

definition shortioCreatePayloadToLink ::
    "codec \<Rightarrow> shortio_times \<Rightarrow> shortio_payload \<Rightarrow> string + link \<times> string \<times> bool" where
  "shortioCreatePayloadToLink c ti p =
     (case parseShortioTime ti (firstNonNil (si_expires_at p) (si_ttl p)) of Inl e \<Rightarrow> Inl e
      | Inr expires \<Rightarrow>
          applyLinkPayload c (blank_link\<lparr>l_forward_query := True, l_redirect_code := 302, l_visibility := ''private''\<rparr>)
            (shortio_link_payload p expires) True)"

definition ensureShortioDomainAllowed :: "user \<Rightarrow> string \<Rightarrow> tenant_domain list \<Rightarrow> bool" where
  "ensureShortioDomainAllowed u domain0 ds \<longleftrightarrow>
     (let domain = trim domain0 in
      domain \<noteq> [] \<and> (case tenantDomainByDomain domain ds of Inl e \<Rightarrow> False
                      | Inr d \<Rightarrow> d_status d = ''active'' \<and> u_tenant_id u = Some (d_tenant_id d)))"

section \<open>The handler\<close>

text \<open>The answer: a refusal, or status 200 with the link and whether it was there before. The domains are those the
  handler finds.\<close>

datatype shortio_answer = Refused LinkHandler.response | Answered link bool

definition shortioLinks_POST ::
    "codec \<Rightarrow> shortio_times \<Rightarrow> write_env \<Rightarrow> tenant_domain list \<Rightarrow> request \<Rightarrow> shortio_payload option \<Rightarrow> server
     \<Rightarrow> shortio_answer \<times> server" where
  "shortioLinks_POST c ti env ds rq body sv =
     (case body of None \<Rightarrow> (Refused (Status 400), sv)
      | Some p \<Rightarrow>
     (case shortioCreatePayloadToLink c ti p of Inl e \<Rightarrow> (Refused (Status 400), sv)
      | Inr (link, hash, changed) \<Rightarrow>
          let u = pr_effective (rq_principal rq) in
          if \<not> ensureShortioDomainAllowed u (si_domain p) ds then (Refused (Status 404), sv)
          else case CreateLink env (rq_now rq) (sv_store sv) u link hash of
            (Inl e, s) \<Rightarrow>
              (let sv1 = sv\<lparr>sv_store := s\<rparr> in
               case (if l_slug link \<noteq> [] then active_slug s (l_slug link) else Inl NoRows) of
                 Inl e' \<Rightarrow> (Refused (refuse 409 e), sv1)
               | Inr existing \<Rightarrow>
                   if l_target_url existing = l_target_url link then (Answered existing True, sv1)
                   else (Refused (refuse 409 e), sv1))
          | (Inr l, s) \<Rightarrow>
              (case audit rq ''shortio.link.created'' ''link'' (int_text (l_id l)) ''success'' (changed_links s [l] sv) of
                 None \<Rightarrow> (Refused (Status 500), changed_links s [l] sv)
               | Some sv' \<Rightarrow> (Answered l False, sv'))))"

section \<open>What it does to the table\<close>

lemma shortioLinks_POST_store:
  "s_links (sv_store (snd (shortioLinks_POST c ti env ds rq body sv))) = s_links (sv_store sv) \<or>
   (\<exists>u link hash. s_links (sv_store (snd (shortioLinks_POST c ti env ds rq body sv))) =
      s_links (snd (CreateLink env (rq_now rq) (sv_store sv) u link hash)))"
proof (cases "\<exists>p link hash ch. body = Some p \<and> shortioCreatePayloadToLink c ti p = Inr (link, hash, ch) \<and>
    ensureShortioDomainAllowed (pr_effective (rq_principal rq)) (si_domain p) ds")
  case True
  then obtain p link hash ch where b: "body = Some p" "shortioCreatePayloadToLink c ti p = Inr (link, hash, ch)"
    "ensureShortioDomainAllowed (pr_effective (rq_principal rq)) (si_domain p) ds" by blast
  obtain r s where r: "CreateLink env (rq_now rq) (sv_store sv) (pr_effective (rq_principal rq)) link hash = (r, s)"
    by (meson surj_pair)
  have "s_links (sv_store (snd (shortioLinks_POST c ti env ds rq body sv))) = s_links s"
    using b r by (cases r) (auto simp: shortioLinks_POST_def Let_def audit_links split: sum.split option.split)
  moreover have "s = snd (CreateLink env (rq_now rq) (sv_store sv) (pr_effective (rq_principal rq)) link hash)" by (simp add: r)
  ultimately show ?thesis by blast
next
  case False
  then have "snd (shortioLinks_POST c ti env ds rq body sv) = sv"
    by (auto simp: shortioLinks_POST_def Let_def split: option.split sum.split)
  then show ?thesis by simp
qed

lemma shortioLinks_POST_keeps:
  assumes "links_ok env (sv_store sv)" and "fresh_ids env 1 (sv_store sv)"
  shows "links_ok env (sv_store (snd (shortioLinks_POST c ti env ds rq body sv)))"
  using shortioLinks_POST_store [of c ti env ds rq body sv]
proof (elim disjE exE)
  assume "s_links (sv_store (snd (shortioLinks_POST c ti env ds rq body sv))) = s_links (sv_store sv)"
  from links_ok_cong [OF this] assms(1) show ?thesis by simp
next
  fix u link hash
  assume s: "s_links (sv_store (snd (shortioLinks_POST c ti env ds rq body sv))) =
      s_links (snd (CreateLink env (rq_now rq) (sv_store sv) u link hash))"
  have "links_ok env (snd (CreateLink env (rq_now rq) (sv_store sv) u link hash))"
    using assms(2) by (intro CreateLink_keeps [OF assms(1)]) (simp_all add: fresh_ids_def)
  with links_ok_cong [OF s] show ?thesis by simp
qed

section \<open>What the answer means\<close>

lemma find_append: "find P (xs @ ys) = (case find P xs of None \<Rightarrow> find P ys | Some x \<Rightarrow> Some x)"
  by (induction xs) simp_all

lemma active_slug_Inr: "active_slug s slug = Inr l \<Longrightarrow> l \<in> set (s_links s) \<and> l_slug l = slug \<and> l_deleted_at l = None"
  by (auto simp: active_slug_def find_Some_iff split: option.splits)

lemma new_row_fields:
  "l_target_url (new_row i now u link hash) = l_target_url link" "l_visibility (new_row i now u link hash) = l_visibility link"
  "l_user_id (new_row i now u link hash) = u_id u" "l_tenant_id (new_row i now u link hash) = u_tenant_id u"
  "l_deleted_at (new_row i now u link hash) = None" "l_slug (new_row i now u link hash) = l_slug link"
  by (simp_all add: new_row_def write_password_def write_fields_def blank_link_def)

text \<open>\<open>CreateLink\<close> either refuses and leaves the table, or answers with the row it added.\<close>

lemma CreateLink_result:
  assumes "CreateLink env now s u link0 hash = (r, s')"
  obtains (refused) e where "r = Inl e" "s' = s"
  | (created) l link where "r = Inr l" "l = new_row (we_id env 0) now u link hash" "s_links s' = s_links s @ [l]"
      "l_target_url link = l_target_url link0" "l_visibility link0 \<noteq> [] \<longrightarrow> l_visibility link = l_visibility link0"
      "l_slug link0 \<noteq> [] \<longrightarrow> l_slug link = l_slug link0"
proof -
  define link1 where "link1 = (if l_slug link0 = [] then link0\<lparr>l_slug := we_slug env 0\<rparr> else link0)"
  define link where "link = (default_fields link1)\<lparr>l_password_protected := hash \<noteq> []\<rparr>"
  define row where "row = new_row (we_id env 0) now u link hash"
  have c: "CreateLink env now s u link0 hash =
      (if \<not> slugRe (l_slug link1) then (Inl (Invalid ''slug must be 3-80 letters, numbers, _ or -''), s)
       else case validateLink env link of Some e \<Rightarrow> (Inl (Invalid e), s)
         | None \<Rightarrow> (case insert_row row s of Inl e \<Rightarrow> (Inl e, s) | Inr s' \<Rightarrow> (active_slug s' (l_slug link), s')))"
    unfolding row_def by (simp add: CreateLink_def link1_def [symmetric] link_def [symmetric] Let_def)
  have same: "l_target_url link = l_target_url link0" "l_visibility link0 \<noteq> [] \<longrightarrow> l_visibility link = l_visibility link0"
    "l_slug link0 \<noteq> [] \<longrightarrow> l_slug link = l_slug link0"
    by (simp_all add: link_def link1_def default_fields_def default_code_def Let_def)
  consider e where "r = Inl e" "s' = s" | "insert_row row s = Inr s'" "r = active_slug s' (l_slug link)"
    using assms unfolding c by (auto split: if_splits option.splits sum.splits)
  then show ?thesis
  proof cases
    case 1
    then show ?thesis by (rule refused)
  next
    case 2
    from 2(1) have new: "l_slug row \<notin> set (map l_slug (s_links s))" and s': "s_links s' = s_links s @ [row]"
      unfolding insert_row_def by (metis Inl_Inr_False, auto split: if_splits)
    have row: "l_slug row = l_slug link" "l_deleted_at row = None" by (simp_all add: row_def new_row_fields)
    have "find (\<lambda>l. l_slug l = l_slug link \<and> l_deleted_at l = None) (s_links s) = None"
      using new row by (auto simp: find_None_iff image_iff)
    then have "r = Inr row"
      using row unfolding 2(2) active_slug_def s' by (simp add: find_append)
    then show ?thesis using s' same by (intro created [of row link]) (simp_all add: row_def)
  qed
qed

lemma shortio_link:
  assumes "shortioCreatePayloadToLink c ti p = Inr (link, hash, ch)"
  shows "l_target_url link = trim (si_original_url p) \<and> l_visibility link = ''private'' \<and>
    l_slug link = (case si_path p of None \<Rightarrow> [] | Some path \<Rightarrow> trim (strip_char (CHR ''/'') path))"
proof -
  obtain expires where e: "applyLinkPayload c (blank_link\<lparr>l_forward_query := True, l_redirect_code := 302, l_visibility := ''private''\<rparr>)
      (shortio_link_payload p expires) True = Inr (link, hash, ch)"
    using assms by (auto simp: shortioCreatePayloadToLink_def split: sum.splits)
  have tail: "l_target_url link' = l_target_url l1 \<and> l_visibility link' = l_visibility l1 \<and> l_slug link' = l_slug l1"
    if "(case pw0 of
      Some pw \<Rightarrow> if length pw < 8 then Inl e
        else (case co_hash c pw of Inl e \<Rightarrow> Inl e
          | Inr hash \<Rightarrow> if A then Inl e' else Inr (l1\<lparr>l_password_protected := True\<rparr>, hash, x))
    | None \<Rightarrow> if A then Inl e' else Inr ((if B then l1\<lparr>l_password_protected := False\<rparr> else l1), [], x)) = Inr (link', hash', ch')"
    for pw0 A B e e' l1 link' hash' ch' x
    using that by (cases pw0) (auto split: if_splits sum.splits)
  have set: "in_target_url (shortio_link_payload p expires) = None" "in_visibility (shortio_link_payload p expires) = None"
    "in_url (shortio_link_payload p expires) = Some (si_original_url p)"
    "in_slug (shortio_link_payload p expires) = map_option (strip_char (CHR ''/'')) (si_path p)"
    by (simp_all add: shortio_link_payload_def empty_payload_def)
  have blank: "l_visibility (blank_link\<lparr>l_forward_query := True, l_redirect_code := 302, l_visibility := ''private''\<rparr>) = ''private''"
    "l_slug (blank_link\<lparr>l_forward_query := True, l_redirect_code := 302, l_visibility := ''private''\<rparr>) = []"
    by (simp_all add: blank_link_def)
  note ex = payload_steps(2) [OF payload_steps(1) [OF payload_steps(1) [OF e [unfolded applyLinkPayload_def Let_def]]]]
  show ?thesis
    by (rule exE [OF ex], drule tail) (simp add: set blank trimmed_or_def str_or_def split: option.split)
qed

section \<open>Properties\<close>

text \<open>C8: A Short.io creation answers with the link that was asked for. When it answers 200, the department of the
  effective user owns the named domain and the domain is active, and the table holds the answered link, not deleted,
  with the requested target and path. Either the link is the one new row, private, of the effective user and its
  department, or it was there before, no row changed, and the answer says duplicate.\<close>

theorem shortio_answers:
  assumes "shortioLinks_POST c ti env ds rq body sv = (Answered l duplicate, sv')"
  shows "\<exists>p. body = Some p \<and> ensureShortioDomainAllowed (pr_effective (rq_principal rq)) (si_domain p) ds \<and>
    l \<in> set (s_links (sv_store sv')) \<and> l_deleted_at l = None \<and> l_target_url l = trim (si_original_url p) \<and>
    (\<forall>path. si_path p = Some path \<and> trim (strip_char (CHR ''/'') path) \<noteq> [] \<longrightarrow> l_slug l = trim (strip_char (CHR ''/'') path)) \<and>
    (if duplicate then s_links (sv_store sv') = s_links (sv_store sv)
     else s_links (sv_store sv') = s_links (sv_store sv) @ [l] \<and> l_visibility l = ''private'' \<and>
       l_user_id l = u_id (pr_effective (rq_principal rq)) \<and> l_tenant_id l = u_tenant_id (pr_effective (rq_principal rq)))"
proof -
  let ?u = "pr_effective (rq_principal rq)"
  obtain p where b: "body = Some p" using assms by (cases body) (simp_all add: shortioLinks_POST_def)
  obtain link hash ch where pl: "shortioCreatePayloadToLink c ti p = Inr (link, hash, ch)"
    using assms b by (cases "shortioCreatePayloadToLink c ti p") (auto simp: shortioLinks_POST_def)
  note run = assms [unfolded shortioLinks_POST_def b option.case pl sum.case prod.case Let_def]
  have dom: "ensureShortioDomainAllowed ?u (si_domain p) ds"
    using run by (simp split: if_split_asm)
  note link = shortio_link [OF pl]
  obtain r s where cl: "CreateLink env (rq_now rq) (sv_store sv) ?u link hash = (r, s)" by fastforce
  from cl show ?thesis
  proof (cases rule: CreateLink_result)
    case (refused e)
    with run dom cl have d: "duplicate" "sv' = sv" "l_slug link \<noteq> []" "active_slug (sv_store sv) (l_slug link) = Inr l"
      "l_target_url l = l_target_url link"
      by (auto split: if_splits sum.splits)
    with b dom link active_slug_Inr [OF d(4)] show ?thesis by auto
  next
    case (created l' k)
    with run dom cl have l': "l' = l" "\<not> duplicate" "s_links (sv_store sv') = s_links s"
      by (auto split: option.splits dest: audit_links)
    with created b dom link show ?thesis by (auto simp: new_row_fields)
  qed
qed

definition sample_creation :: shortio_payload where
  "sample_creation =
     \<lparr>si_original_url = '' https://example.com/neu'', si_domain = ''Go.Example.com'', si_path = Some ''/neu/'', si_title = [], si_tags = [],
      si_redirect_type = None, si_expires_at = No_time, si_ttl = No_time, si_expired_url = None, si_android_url = None,
      si_iphone_url = None, si_clicks_limit = Some 50, si_skip_qs = None, si_password = None, si_utm_source = [],
      si_utm_medium = [], si_utm_campaign = [], si_utm_term = [], si_utm_content = []\<rparr>"

definition sample_times :: shortio_times where
  "sample_times = \<lparr>ti_millis = (\<lambda>_. ''2026-07-02T08:00:00.000Z''), ti_rfc3339 = (\<lambda>_. None), ti_date = (\<lambda>_. None)\<rparr>"

abbreviation created_link :: "shortio_answer \<times> server" where
  "created_link \<equiv> shortioLinks_POST berlin_codec sample_times sample_env [sample_domain\<lparr>d_status := ''active''\<rparr>] sample_request
     (Some sample_creation) sample_server"

theorem shortio_answers_witness:
  "\<exists>l. fst created_link = Answered l False \<and> l_target_url l = ''https://example.com/neu'' \<and> l_slug l = ''neu'' \<and>
     s_links (sv_store (snd created_link)) = s_links (sv_store sample_server) @ [l]"
proof -
  have "case fst created_link of Answered l d \<Rightarrow> \<not> d | Refused r \<Rightarrow> False" by code_simp
  then obtain l where l: "fst created_link = Answered l False" by (cases "fst created_link") auto
  then have "created_link = (Answered l False, snd created_link)" by (metis prod.collapse)
  moreover have "trim (si_original_url sample_creation) = ''https://example.com/neu''"
    "si_path sample_creation = Some ''/neu/''" "trim (strip_char (CHR ''/'') ''/neu/'') = ''neu''"
    by code_simp+
  ultimately show ?thesis using l shortio_answers by fastforce
qed

end
