(* ===== verification/Csv.thy ===== *)
theory Csv
  imports LinkWrite
begin

text \<open>
  The CSV export and import of links (\<open>internal/handlers/handlers.go\<close>: \<open>exportLinks\<close>, \<open>safeCSVCell\<close>,
  \<open>importLinks\<close>; \<open>ValidateLink\<close> of \<open>store.go\<close>).

  A CSV file is its list of rows of cells: quoting and the reading of a request body are \<open>encoding/csv\<close> and
  \<open>net/http\<close>. The texts of times and of JSON values are parameters (\<open>codec\<close>, and \<open>time_text\<close> for
  \<open>Format(time.RFC3339)\<close>).
\<close>

section \<open>Export\<close>

definition csvLinkHeaders :: "string list" where
  "csvLinkHeaders = [''slug'', ''url'', ''title'', ''visibility'', ''redirect_code'', ''expires_at'', ''max_clicks'',
     ''expired_url'', ''ios_url'', ''android_url'', ''forward_query'', ''utm_source'', ''utm_medium'', ''utm_campaign'',
     ''utm_term'', ''utm_content'', ''tags'', ''geo_targets'']"

definition safeCSVCell :: "string \<Rightarrow> string" where
  "safeCSVCell value =
     (case dropWhile (\<lambda>c. c \<in> {CHR '' '', CHR 0x09, CHR 0x0D, CHR 0x0A}) value of
        [] \<Rightarrow> value
      | c # _ \<Rightarrow> if c \<in> set ''=+-@'' then CHR 0x27 # value else value)"

definition bool_text :: "bool \<Rightarrow> string" where
  "bool_text b = (if b then ''true'' else ''false'')"

definition link_cells :: "codec \<Rightarrow> (int \<Rightarrow> string) \<Rightarrow> link \<Rightarrow> string list" where
  "link_cells c time_text l =
     [l_slug l, l_target_url l, l_title l, l_visibility l, int_text (l_redirect_code l),
      (case l_expires_at l of None \<Rightarrow> [] | Some t \<Rightarrow> time_text t),
      (case l_max_clicks l of None \<Rightarrow> [] | Some n \<Rightarrow> int_text n),
      l_expired_url l, l_ios_url l, l_android_url l, bool_text (l_forward_query l), l_utm_source l, l_utm_medium l,
      l_utm_campaign l, l_utm_term l, l_utm_content l, join_with '';'' (l_tags l),
      co_json_text c (geo_js (l_geo_targets l))]"

definition export_row :: "codec \<Rightarrow> (int \<Rightarrow> string) \<Rightarrow> link \<Rightarrow> string list" where
  "export_row c time_text l = map safeCSVCell (link_cells c time_text l)"

text \<open>Page after page, until no next cursor is named; \<open>None\<close> is a loop that does not end.\<close>

partial_function (option) export_from ::
    "codec \<Rightarrow> (int \<Rightarrow> string) \<Rightarrow> store \<Rightarrow> user \<Rightarrow> int \<Rightarrow> (store_error + string list list) option" where
  "export_from c time_text s u cursor =
     (case listLinksPage s u 500 cursor of Inl e \<Rightarrow> Some (Inl e)
      | Inr page \<Rightarrow>
          (if next_cursor page = 0 then Some (Inr (map (export_row c time_text) (items page)))
           else Option.bind (export_from c time_text s u (next_cursor page))
             (\<lambda>rest. Some (map_sum id ((@) (map (export_row c time_text) (items page))) rest))))"

definition exportLinks :: "codec \<Rightarrow> (int \<Rightarrow> string) \<Rightarrow> store \<Rightarrow> user \<Rightarrow> (store_error + string list list) option" where
  "exportLinks c time_text s u = map_option (map_sum id ((#) csvLinkHeaders)) (export_from c time_text s u 0)"

section \<open>Import\<close>

definition csv_header :: "string list \<Rightarrow> string \<Rightarrow> nat option" where
  "csv_header names = foldl (\<lambda>m (i, name). m(lower (trim name) \<mapsto> i)) Map.empty (enumerate 0 names)"

definition csv_value :: "(string \<Rightarrow> nat option) \<Rightarrow> string list \<Rightarrow> string \<Rightarrow> string" where
  "csv_value header row name =
     (case header name of None \<Rightarrow> [] | Some i \<Rightarrow> if i \<ge> length row then [] else trim (row ! i))"

definition parse_bool :: "string \<Rightarrow> bool option" where
  "parse_bool s =
     (if s \<in> {''1'', ''t'', ''T'', ''TRUE'', ''true'', ''True''} then Some True
      else if s \<in> {''0'', ''f'', ''F'', ''FALSE'', ''false'', ''False''} then Some False else None)"

text \<open>A country route as \<open>json.Unmarshal\<close> reads it: keys in any case, unknown ones skipped, the last of a key counts.\<close>

definition csv_geo_field :: "(string \<times> jsval) list \<Rightarrow> string \<Rightarrow> string option" where
  "csv_geo_field fs k =
     (case find (\<lambda>kv. lower (fst kv) = k \<and> snd kv \<noteq> JNull) (rev fs) of None \<Rightarrow> Some []
      | Some (_, JStr a) \<Rightarrow> Some a | Some _ \<Rightarrow> None)"

definition csv_geo :: "jsval \<Rightarrow> geo_target option" where
  "csv_geo v =
     (case v of JObj fs \<Rightarrow>
        (case (csv_geo_field fs ''country_code'', csv_geo_field fs ''target_url'') of
           (Some a, Some b) \<Rightarrow> Some \<lparr>gt_country_code = a, gt_target_url = b\<rparr> | _ \<Rightarrow> None)
      | JNull \<Rightarrow> Some \<lparr>gt_country_code = [], gt_target_url = []\<rparr>
      | _ \<Rightarrow> None)"

definition csv_geos :: "codec \<Rightarrow> string \<Rightarrow> geo_target list option" where
  "csv_geos c s =
     (case co_json_parse c s of None \<Rightarrow> None
      | Some v \<Rightarrow> (case v of JArr xs \<Rightarrow> all_some (map csv_geo xs) | JNull \<Rightarrow> Some [] | _ \<Rightarrow> None))"

definition ValidateLink :: "write_env \<Rightarrow> link \<Rightarrow> string option" where
  "ValidateLink env l =
     (if l_slug l \<noteq> [] \<and> \<not> slugRe (l_slug l) then Some ''slug must be 3-80 letters, numbers, _ or -''
      else validateLink env (default_code l))"

text \<open>\<open>strconv.Atoi\<close> with its error dropped: 0 for a text that is no number, the nearest 64-bit value for one that
  is out of range.\<close>

definition atoi :: "string \<Rightarrow> int" where
  "atoi s =
     (let (neg, ds) = (case s of [] \<Rightarrow> (False, [])
                       | c # cs \<Rightarrow> if c = CHR ''-'' then (True, cs) else if c = CHR ''+'' then (False, cs) else (False, s))
      in case parse_nat ds of None \<Rightarrow> 0
         | Some n \<Rightarrow> max (- (2 ^ 63)) (min (2 ^ 63 - 1) (if neg then - int n else int n)))"

text \<open>A row becomes a link; \<open>errorsByRow\<close> keeps the last of its errors. What \<open>json.Unmarshal\<close> leaves behind of
  country routes it could not read is taken as nothing; such a row is refused either way.\<close>

definition last_error :: "string option list \<Rightarrow> string option" where
  "last_error es = foldl (\<lambda>a e. case e of None \<Rightarrow> a | Some m \<Rightarrow> Some m) None es"

definition import_link :: "codec \<Rightarrow> (string \<Rightarrow> string) \<Rightarrow> link" where
  "import_link c v = blank_link\<lparr>l_slug := v ''slug'', l_target_url := str_or (v ''target_url'') (v ''url''),
     l_title := v ''title'', l_visibility := str_or (v ''visibility'') ''private'',
     l_redirect_code := (if v ''redirect_code'' = [] then 302
                         else atoi (v ''redirect_code'')),
     l_expires_at := (if v ''expires_at'' = [] then None else co_rfc3339 c (v ''expires_at'')),
     l_max_clicks := (if v ''max_clicks'' = [] then None else parse_int64 (v ''max_clicks'')),
     l_expired_url := v ''expired_url'', l_ios_url := v ''ios_url'', l_android_url := v ''android_url'',
     l_forward_query := (case parse_bool (v ''forward_query'') of None \<Rightarrow> True | Some b \<Rightarrow> b),
     l_utm_source := v ''utm_source'', l_utm_medium := v ''utm_medium'', l_utm_campaign := v ''utm_campaign'',
     l_utm_term := v ''utm_term'', l_utm_content := v ''utm_content'', l_tags := split_tags (v ''tags''),
     l_geo_targets := (if v ''geo_targets'' = [] then [] else case csv_geos c (v ''geo_targets'') of None \<Rightarrow> [] | Some gs \<Rightarrow> gs)\<rparr>"

definition row_error :: "write_env \<Rightarrow> codec \<Rightarrow> (string \<Rightarrow> string) \<Rightarrow> string option" where
  "row_error env c v = last_error
     [if v ''url'' \<noteq> [] \<and> v ''target_url'' \<noteq> [] \<and> v ''url'' \<noteq> v ''target_url''
      then Some ''url and target_url must match when both are provided'' else None,
      if v ''expires_at'' \<noteq> [] \<and> co_rfc3339 c (v ''expires_at'') = None then Some ''expires_at must be RFC3339'' else None,
      if v ''max_clicks'' \<noteq> [] \<and> parse_int64 (v ''max_clicks'') = None then Some ''max_clicks must be an integer'' else None,
      if v ''forward_query'' \<noteq> [] \<and> parse_bool (v ''forward_query'') = None
      then Some ''forward_query must be true or false'' else None,
      if v ''geo_targets'' \<noteq> [] \<and> csv_geos c (v ''geo_targets'') = None then Some ''geo_targets must be JSON'' else None,
      ValidateLink env (import_link c v)]"

datatype import_answer = Answer response | Row_errors "(nat \<times> string) list" | Valid_rows nat

definition import_rows ::
    "write_env \<Rightarrow> codec \<Rightarrow> string list list \<Rightarrow> link list \<times> (nat \<times> string) list" where
  \<comment> \<open>the links, and the errors with their row numbers; the first row is the header\<close>
  "import_rows env c rows =
     (let values = map (csv_value (csv_header (hd rows))) (tl rows)
      in (map (import_link c) values,
          map (\<lambda>(i, e). (i, the e)) (filter (\<lambda>(i, e). e \<noteq> None) (enumerate 2 (map (row_error env c) values)))))"

definition importLinks_csv ::
    "codec \<Rightarrow> write_env \<Rightarrow> string \<Rightarrow> request \<Rightarrow> string list list option \<Rightarrow> bool \<Rightarrow> server \<Rightarrow> import_answer \<times> server" where
  "importLinks_csv c env http_method rq csv dry_run sv =
     (if http_method \<noteq> ''POST'' then (Answer (Status 405), sv)
      else case csv of None \<Rightarrow> (Answer (Status 400), sv)
      | Some rows \<Rightarrow>
         (if rows = [] \<or> length rows > 10001 then (Answer (Status 400), sv)
          else if csv_header (hd rows) ''url'' = None \<and> csv_header (hd rows) ''target_url'' = None
          then (Answer (Status 400), sv)
          else case import_rows env c rows of (parsed, errors) \<Rightarrow>
            if errors \<noteq> [] then (Row_errors errors, sv)
            else if dry_run then (Valid_rows (length parsed), sv)
            else (case CreateLinksBulk env (rq_now rq) (sv_store sv) (pr_effective (rq_principal rq)) parsed of
                    (Inl e, s) \<Rightarrow> (Answer (refuse 409 e), sv\<lparr>sv_store := s\<rparr>)
                  | (Inr created, s) \<Rightarrow>
                      (case audit rq ''link.imported'' ''link'' (int_text (int (length created))) ''success''
                              (changed_links s created sv) of
                         None \<Rightarrow> (Answer (Status 500), changed_links s created sv)
                       | Some sv' \<Rightarrow> (Answer (Status 201), sv')))))"

section \<open>The export holds every visible link\<close>

definition export_query :: query where
  "export_query = (\<lambda>k. if k = ''limit'' then ''500'' else [])"

lemma export_request: "limit_param 100 500 export_query = Some 500"
  by (simp add: export_query_def limit_param_def parse_int64_def parse_nat_def digit_val_def)

lemma export_fetch:
  assumes "view_scope u False \<noteq> None" and "cursor_ok c"
  shows "listLinksPage s u 500 c = Inr (link_fetch (s, u, export_query) c)"
proof -
  obtain page where p: "listLinksPage s u 500 c = Inr page"
    using assms(1) by (auto simp: listLinksPage_def listLinks_def Let_def split: option.split)
  have "linksPage ''GET'' s u (with_cursor c export_query) = (200, Some page)"
    using assms(2) p by (simp add: linksPage_def with_cursor_param export_request)
  then show ?thesis by (simp add: p link_fetch_def)
qed

lemma export_pages:
  assumes "wf_store s" and "view_scope u False \<noteq> None" and "cursor_ok cur"
  shows "export_from c tt s u cur = Some (Inr (map (export_row c tt) (link_pages.remaining (s, u, export_query) cur)))"
  using assms(3)
proof (induction "length (link_pages.remaining (s, u, export_query) cur)" arbitrary: cur rule: less_induct)
  case less
  let ?k = "(s, u, export_query)"
  have k: "link_request_ok ?k" using assms by (simp add: link_request_ok_def export_request)
  show ?case
  proof (cases "next_cursor (link_fetch ?k cur) = 0")
    case True
    have "items (link_fetch ?k cur) = link_pages.remaining ?k cur"
      unfolding link_pages.remaining_def by (rule link_pages.no_next_complete [OF k less.prems True])
    with True show ?thesis
      by (subst export_from.simps) (simp add: export_fetch [OF assms(2) less.prems])
  next
    case False
    have ok: "cursor_ok (next_cursor (link_fetch ?k cur))"
      using link_pages.cursor_safe_fetch [OF k] less.prems False by (auto simp: cursor_safe_def cursor_ok_def)
    note split = link_pages.page_split [OF k less.prems False]
    from less.hyps [OF split(2) ok] False show ?thesis
      by (subst export_from.simps) (simp add: export_fetch [OF assms(2) less.prems] split(1))
  qed
qed

text \<open>C18: The export holds every link the account may see. It ends for every table, and its rows are the header
  and one row for every link of the unpaginated listing, in its order; no link is missing or doubled at the
  borders of the pages of 500.\<close>

theorem export_complete:
  assumes "wf_store s" and "view_scope u False \<noteq> None"
  shows "\<exists>ls. listLinks s u 0 0 = Inr ls \<and>
    exportLinks c time_text s u = Some (Inr (csvLinkHeaders # map (export_row c time_text) ls))"
proof -
  have k: "link_request_ok (s, u, export_query)" using assms by (simp add: link_request_ok_def export_request)
  have "link_pages.remaining (s, u, export_query) 0 = link_rows (s, u, export_query)"
    by (simp add: link_pages.remaining_def)
  then have "exportLinks c time_text s u =
      Some (Inr (csvLinkHeaders # map (export_row c time_text) (link_rows (s, u, export_query))))"
    using export_pages [OF assms, of 0 c time_text] by (simp add: exportLinks_def cursor_ok_def)
  with link_rows_listing [OF k] show ?thesis by blast
qed

theorem export_complete_witness:
  "\<exists>ls. listLinks sample_store sample_admin 0 0 = Inr ls \<and>
    exportLinks berlin_codec int_text sample_store sample_admin =
      Some (Inr (csvLinkHeaders # map (export_row berlin_codec int_text) ls))"
  by (rule export_complete) (simp_all add: view_scope_def sample_admin_def)

section \<open>An exported link comes back\<close>

definition unguarded :: "string \<Rightarrow> bool" where
  \<comment> \<open>a cell the guard against formulas leaves alone, without space around it\<close>
  "unguarded t \<longleftrightarrow> t = [] \<or> (trim t = t \<and> hd t \<notin> set ''=+-@'')"

lemma trim_hd: "trim t = t \<Longrightarrow> t \<noteq> [] \<Longrightarrow> \<not> is_space (hd t)"
  using trim_ends [of t] by simp

lemma plain_cell: "unguarded t \<Longrightarrow> trim (safeCSVCell t) = t"
proof (cases t)
  case (Cons c cs)
  assume p: "unguarded t"
  then have t: "trim t = t" "c \<notin> set ''=+-@''" using Cons by (simp_all add: unguarded_def)
  then have "\<not> is_space c" using trim_hd [OF t(1)] Cons by simp
  then have "c \<notin> {CHR '' '', CHR 0x09, CHR 0x0D, CHR 0x0A}" by (auto simp: is_space_def)
  then have "safeCSVCell t = t" using t(2) Cons by (simp add: safeCSVCell_def)
  with t(1) show ?thesis by simp
qed (simp add: safeCSVCell_def trim_def)

lemma csv_header_names: "map (csv_header csvLinkHeaders) csvLinkHeaders = map Some [0..<18]"
  by code_simp

text \<open>The export carries these fields of a link; the rest is what a new link starts with.\<close>

definition portable :: "link \<Rightarrow> link" where
  "portable l = blank_link\<lparr>l_slug := l_slug l, l_target_url := l_target_url l, l_title := l_title l,
     l_visibility := l_visibility l, l_redirect_code := l_redirect_code l, l_expires_at := l_expires_at l,
     l_max_clicks := l_max_clicks l, l_expired_url := l_expired_url l, l_ios_url := l_ios_url l,
     l_android_url := l_android_url l, l_forward_query := l_forward_query l, l_utm_source := l_utm_source l,
     l_utm_medium := l_utm_medium l, l_utm_campaign := l_utm_campaign l, l_utm_term := l_utm_term l,
     l_utm_content := l_utm_content l, l_tags := l_tags l, l_geo_targets := l_geo_targets l\<rparr>"

text \<open>What JSON and RFC 3339 promise for the values of a link: reading back what was written.\<close>

definition csv_codec_ok :: "codec \<Rightarrow> (int \<Rightarrow> string) \<Rightarrow> link \<Rightarrow> bool" where
  "csv_codec_ok c time_text l \<longleftrightarrow>
     (let g = co_json_text c (geo_js (l_geo_targets l))
      in co_json_parse c g = Some (geo_js (l_geo_targets l)) \<and> g \<noteq> [] \<and> unguarded g) \<and>
     (case l_expires_at l of None \<Rightarrow> True
      | Some t \<Rightarrow> co_rfc3339 c (time_text t) = Some t \<and> time_text t \<noteq> [] \<and> unguarded (time_text t))"

definition csv_plain :: "link \<Rightarrow> bool" where
  \<comment> \<open>no text of the link starts like a formula or has space around it\<close>
  "csv_plain l \<longleftrightarrow> list_all unguarded
     [l_slug l, l_target_url l, l_title l, l_expired_url l, l_ios_url l, l_android_url l, l_utm_source l,
      l_utm_medium l, l_utm_campaign l, l_utm_term l, l_utm_content l, join_with '';'' (l_tags l)] \<and>
     list_all form_tag (l_tags l) \<and> (\<forall>n. l_max_clicks l = Some n \<longrightarrow> n < 2 ^ 63)"

lemma int_text_plain: "0 \<le> n \<Longrightarrow> unguarded (int_text n)"
proof -
  assume "0 \<le> n"
  then have t: "int_text n = nat_text (nat n)" by (simp add: int_text_def)
  have "hd (nat_text (nat n)) \<notin> set ''=+-@''" using nat_text_hd_digit [of "nat n"] by auto
  moreover have "trim (int_text n) = int_text n"
    by (rule trim_no_space) (use no_space_in_int_text [OF hd_in_set] no_space_in_int_text [OF last_in_set] in simp)
  ultimately show ?thesis by (simp add: unguarded_def t)
qed

lemma geo_back: "map csv_geo (map (\<lambda>g. JObj [(''country_code'', JStr (gt_country_code g)), (''target_url'', JStr (gt_target_url g))]) gs) =
    map Some gs"
proof -
  have l: "lower ''country_code'' = ''country_code''" "lower ''target_url'' = ''target_url''"
    by (simp_all add: lower_def lower_char_def)
  show ?thesis by (simp add: csv_geo_def csv_geo_field_def l)
qed

lemma all_some_map: "all_some (map Some xs) = Some xs"
  by (induction xs) simp_all

lemma csv_geos_back: "co_json_parse c g = Some (geo_js gs) \<Longrightarrow> csv_geos c g = Some gs"
  unfolding csv_geos_def geo_js_def by (simp add: geo_back all_some_map del: map_map)

text \<open>The tags: joined by semicolons and split again.\<close>

lemma split_tags_back: "list_all form_tag ts \<Longrightarrow> split_tags (join_with '';'' ts) = ts"
proof (cases ts)
  case (Cons t us)
  assume f: "list_all form_tag ts"
  then have ne: "join_with '';'' ts \<noteq> []" using Cons by (cases us) (auto simp: form_tag_def)
  have "split_on (CHR '';'') (join_with [CHR '';''] ts) = ts"
    using f Cons by (intro split_join) (auto simp: list_all_iff form_tag_def)
  moreover have "map trim ts = ts" using f by (intro map_idI) (simp add: list_all_iff form_tag_def)
  moreover have "filter (\<lambda>t. t \<noteq> []) ts = ts" using f by (intro filter_True) (simp add: list_all_iff form_tag_def)
  ultimately show ?thesis using ne by (simp add: split_tags_def)
qed (simp add: split_tags_def)

text \<open>The cells of an exported row, as the import reads them.\<close>

lemma csv_value_cells:
  assumes "length cells = 18" and "list_all unguarded cells"
  shows "map (csv_value (csv_header csvLinkHeaders) (map safeCSVCell cells)) csvLinkHeaders = cells"
proof (rule nth_equalityI)
  show "length (map (csv_value (csv_header csvLinkHeaders) (map safeCSVCell cells)) csvLinkHeaders) = length cells"
    by (simp add: assms(1) csvLinkHeaders_def)
  fix i
  assume "i < length (map (csv_value (csv_header csvLinkHeaders) (map safeCSVCell cells)) csvLinkHeaders)"
  then have i: "i < 18" "i < length csvLinkHeaders" by (simp_all add: csvLinkHeaders_def)
  have "csv_header csvLinkHeaders (csvLinkHeaders ! i) = map Some [0..<18] ! i"
    using arg_cong [OF csv_header_names, of "\<lambda>xs. xs ! i"] i(2) by simp
  also have "\<dots> = Some i" using i(1) by simp
  finally have h: "csv_header csvLinkHeaders (csvLinkHeaders ! i) = Some i" .
  have "unguarded (cells ! i)" using assms i(1) by (simp add: list_all_length)
  then show "map (csv_value (csv_header csvLinkHeaders) (map safeCSVCell cells)) csvLinkHeaders ! i = cells ! i"
    using assms(1) i by (simp add: csv_value_def h plain_cell)
qed

lemma no_target_url: "csv_header csvLinkHeaders ''target_url'' = None"
  by code_simp

lemma plain_words: "unguarded ''private''" "unguarded ''department''" "unguarded ''true''" "unguarded ''false''" "unguarded []"
  by code_simp+

lemma link_cells_plain:
  assumes "csv_plain l" and "csv_codec_ok c tt l" and "link_valid env l"
  shows "list_all unguarded (link_cells c tt l)"
proof -
  have "0 \<le> l_redirect_code l" using assms(3) by (auto simp: link_valid_def redirect_codes_def)
  then have n: "unguarded (int_text (l_redirect_code l))" by (rule int_text_plain)
  have m: "unguarded (case l_max_clicks l of None \<Rightarrow> [] | Some n \<Rightarrow> int_text n)"
  proof (cases "l_max_clicks l")
    case (Some m)
    with assms(3) have "0 \<le> m" by (auto simp: link_valid_def)
    with Some int_text_plain [of m] show ?thesis by simp
  qed (simp add: plain_words)
  have e: "unguarded (case l_expires_at l of None \<Rightarrow> [] | Some t \<Rightarrow> tt t)"
    using assms(2) by (auto simp: csv_codec_ok_def plain_words split: option.splits)
  have v: "unguarded (l_visibility l)" using assms(3) plain_words by (auto simp: link_valid_def)
  have b: "unguarded (bool_text (l_forward_query l))" by (simp add: bool_text_def plain_words)
  have g: "unguarded (co_json_text c (geo_js (l_geo_targets l)))"
    using assms(2) by (simp add: csv_codec_ok_def Let_def)
  show ?thesis using assms(1) n m e v b g by (simp add: link_cells_def csv_plain_def)
qed

lemma exported_cells:
  assumes "csv_plain l" and "csv_codec_ok c tt l" and "link_valid env l"
  defines "v \<equiv> csv_value (csv_header csvLinkHeaders) (export_row c tt l)"
  shows "map v csvLinkHeaders = link_cells c tt l" "v ''target_url'' = []"
proof -
  show "map v csvLinkHeaders = link_cells c tt l"
    unfolding v_def export_row_def
    by (rule csv_value_cells) (simp_all add: link_cells_plain [OF assms(1-3)], simp add: link_cells_def)
  show "v ''target_url'' = []" by (simp add: v_def csv_value_def no_target_url)
qed

lemma atoi_codes: "atoi (int_text n) = n" if "n \<in> set redirect_codes"
proof -
  have "list_all (\<lambda>n. atoi (int_text n) = n) redirect_codes" by code_simp
  with that show ?thesis by (simp add: list_all_iff)
qed

lemma parse_bool_text: "parse_bool (bool_text b) = Some b" "bool_text b \<noteq> []"
  by (simp_all add: parse_bool_def bool_text_def)

lemma exported_link:
  assumes "csv_plain l" and "csv_codec_ok c tt l" and "link_valid env l"
  defines "v \<equiv> csv_value (csv_header csvLinkHeaders) (export_row c tt l)"
  shows "import_link c v = portable l"
proof -
  define E where "E = (case l_expires_at l of None \<Rightarrow> [] | Some t \<Rightarrow> tt t)"
  define M where "M = (case l_max_clicks l of None \<Rightarrow> [] | Some n \<Rightarrow> int_text n)"
  note cells = exported_cells [OF assms(1-3), folded v_def, unfolded csvLinkHeaders_def link_cells_def list.map list.inject,
      folded E_def M_def]
  have code: "l_redirect_code l \<in> set redirect_codes" and vis: "l_visibility l \<noteq> []"
    using assms(3) by (auto simp: link_valid_def)
  have 1: "str_or (l_visibility l) ''private'' = l_visibility l" using vis by (simp add: str_or_def)
  have 2: "(if E = [] then None else co_rfc3339 c E) = l_expires_at l"
    using assms(2) by (auto simp: E_def csv_codec_ok_def split: option.split)
  have 3: "(if M = [] then None else parse_int64 M) = l_max_clicks l"
  proof (cases "l_max_clicks l")
    case (Some n)
    then have "n < 2 ^ 63" "1 \<le> n" using assms(1,3) by (simp_all add: csv_plain_def link_valid_def)
    with Some parse_int64_int_text [of n] show ?thesis by (simp add: M_def)
  qed (simp add: M_def)
  have 4: "split_tags (join_with '';'' (l_tags l)) = l_tags l"
    using assms(1) by (intro split_tags_back) (simp add: csv_plain_def)
  have 5: "csv_geos c (co_json_text c (geo_js (l_geo_targets l))) = Some (l_geo_targets l)"
      "co_json_text c (geo_js (l_geo_targets l)) \<noteq> []"
    using assms(2) by (auto intro!: csv_geos_back simp: csv_codec_ok_def Let_def)
  have 6: "str_or [] (l_target_url l) = l_target_url l" by (simp add: str_or_def)
  have "v ''slug'' = l_slug l" "v ''url'' = l_target_url l" "v ''title'' = l_title l" "v ''visibility'' = l_visibility l"
    "v ''redirect_code'' = int_text (l_redirect_code l)" "v ''expires_at'' = E" "v ''max_clicks'' = M"
    "v ''expired_url'' = l_expired_url l" "v ''ios_url'' = l_ios_url l" "v ''android_url'' = l_android_url l"
    "v ''forward_query'' = bool_text (l_forward_query l)" "v ''utm_source'' = l_utm_source l"
    "v ''utm_medium'' = l_utm_medium l" "v ''utm_campaign'' = l_utm_campaign l" "v ''utm_term'' = l_utm_term l"
    "v ''utm_content'' = l_utm_content l" "v ''tags'' = join_with '';'' (l_tags l)"
    "v ''geo_targets'' = co_json_text c (geo_js (l_geo_targets l))" "v ''target_url'' = []"
    using cells by simp_all
  note v = this
  show ?thesis
    unfolding import_link_def portable_def v 1 2 3 4 5 6 atoi_codes [OF code] parse_bool_text(1)
    by (simp only: 5 int_text_not_Nil if_False option.case)
qed

text \<open>A stored link passes the checks of the import.\<close>

lemma split_on_chars: "y \<in> set (split_on c xs) \<Longrightarrow> set y \<subseteq> set xs"
proof (induction xs arbitrary: y)
  case (Cons x xs)
  obtain z zs where z: "split_on c xs = z # zs" by (cases "split_on c xs") auto
  from Cons.prems Cons.IH [of z] Cons.IH [of y] show ?case by (auto simp: z split: if_splits)
qed simp

lemma iso_codes_upper:
  assumes "g \<in> set isoCountryCodes"
  shows "upper (trim g) = g"
proof -
  have c: "upper_char x = x \<and> \<not> is_space x" if x: "x \<in> set g" for x
  proof -
    have "list_all (\<lambda>x. x = CHR '' '' \<or> (upper_char x = x \<and> \<not> is_space x)) (join_with '' '' isoCountryCodes)"
      unfolding isoCountryCodes_def join_split by code_simp
    moreover have "x \<in> set (join_with '' '' isoCountryCodes)"
      using split_on_chars [OF assms [unfolded isoCountryCodes_def]] x unfolding isoCountryCodes_def join_split by blast
    moreover have "x \<noteq> CHR '' ''"
      using split_on_pieces [OF assms [unfolded isoCountryCodes_def]] x by blast
    ultimately show ?thesis unfolding list_all_iff by blast
  qed
  then have "trim g = g" by (cases "g = []") (simp_all add: trim_no_space)
  with c show ?thesis by (simp add: upper_def map_idI)
qed

lemma geo_ok_passes:
  "\<lbrakk>distinct (map gt_country_code gs); \<forall>g \<in> set gs. gt_country_code g \<in> set isoCountryCodes \<and> validHTTPURL env (gt_target_url g);
    \<forall>g \<in> set gs. gt_country_code g \<notin> seen\<rbrakk> \<Longrightarrow> geo_error env seen gs = None"
proof (induction gs arbitrary: seen)
  case (Cons g gs)
  have g: "geo_country g = gt_country_code g"
    unfolding geo_country_def using Cons.prems(2) iso_codes_upper [of "gt_country_code g"] by simp
  have "geo_error env (insert (gt_country_code g) seen) gs = None"
  proof (rule Cons.IH)
    show "\<forall>h \<in> set gs. gt_country_code h \<notin> insert (gt_country_code g) seen"
      using Cons.prems(1,3) by (auto simp: image_iff)
  qed (use Cons.prems in simp_all)
  then show ?case unfolding geo_error_Cons g using Cons.prems by simp
qed simp

lemma keep_tags_length: "length (keep_tags seen ts) \<le> length ts"
  by (induction seen ts rule: keep_tags.induct) (simp_all add: Let_def le_SucI)

lemma normalizeTags_length: "length (normalizeTags ts) \<le> length ts"
  using arg_cong [OF normalizeTags_mset [of ts], of size] keep_tags_length [of "{}" ts] by simp

lemma portable_fields:
  "l_slug (portable l) = l_slug l" "l_target_url (portable l) = l_target_url l" "l_visibility (portable l) = l_visibility l"
  "l_redirect_code (portable l) = l_redirect_code l" "l_max_clicks (portable l) = l_max_clicks l"
  "l_expired_url (portable l) = l_expired_url l" "l_ios_url (portable l) = l_ios_url l"
  "l_android_url (portable l) = l_android_url l" "l_geo_targets (portable l) = l_geo_targets l"
  "l_tags (portable l) = l_tags l" "dynamic (portable l) \<Longrightarrow> dynamic l"
  by (simp_all add: portable_def dynamic_def blank_link_def) blast

lemma portable_validates:
  assumes "link_valid env l"
  shows "ValidateLink env (portable l) = None"
proof -
  have geo: "geo_error env {} (l_geo_targets l) = None"
    using assms by (intro geo_ok_passes) (simp_all add: link_valid_def geo_ok_def)
  have tags: "\<not> length (normalizeTags (l_tags l)) > 20"
    using assms normalizeTags_length [of "l_tags l"] by (simp add: link_valid_def tags_ok_def)
  have code: "l_redirect_code l \<in> set redirect_codes" "l_redirect_code l \<noteq> 0"
    using assms by (auto simp: link_valid_def redirect_codes_def)
  have dyn: "\<not> (dynamic (portable l) \<and> (l_redirect_code l = 301 \<or> l_redirect_code l = 308))"
    using assms portable_fields(11) [of l] by (auto simp: link_valid_def)
  have clicks: "\<not> (case l_max_clicks l of None \<Rightarrow> False | Some m \<Rightarrow> m < 1)"
    using assms by (auto simp: link_valid_def split: option.split)
  have vis: "\<not> str_or (l_visibility l) ''private'' \<notin> {''private'', ''department''}"
    using assms by (auto simp: link_valid_def str_or_def)
  have urls: "\<not> \<not> validHTTPURL env (l_target_url l)"
    "\<not> list_ex (\<lambda>v. v \<noteq> [] \<and> \<not> validHTTPURL env v) [l_expired_url l, l_ios_url l, l_android_url l]"
    using assms by (auto simp: link_valid_def urls_ok_def)
  have "default_code (portable l) = portable l" using code(2) by (simp add: default_code_def portable_fields)
  moreover have "validateLink env (portable l) = None"
    unfolding validateLink_def portable_fields(1-10) geo
    by (simp only: vis urls dyn clicks tags code(1) if_False option.case not_True_eq_False simp_thms)
  moreover have "slugRe (l_slug (portable l))" using assms by (simp add: link_valid_def portable_fields)
  ultimately show ?thesis by (simp add: ValidateLink_def)
qed

lemma exported_row_ok:
  assumes "csv_plain l" and "csv_codec_ok c tt l" and "link_valid env l"
  defines "v \<equiv> csv_value (csv_header csvLinkHeaders) (export_row c tt l)"
  shows "row_error env c v = None"
proof -
  note link = exported_link [OF assms(1-3), folded v_def]
  define E where "E = (case l_expires_at l of None \<Rightarrow> [] | Some t \<Rightarrow> tt t)"
  define M where "M = (case l_max_clicks l of None \<Rightarrow> [] | Some n \<Rightarrow> int_text n)"
  note cells = exported_cells [OF assms(1-3), folded v_def, unfolded csvLinkHeaders_def link_cells_def list.map list.inject,
      folded E_def M_def]
  have v: "v ''expires_at'' = E" "v ''max_clicks'' = M" "v ''forward_query'' = bool_text (l_forward_query l)"
    "v ''geo_targets'' = co_json_text c (geo_js (l_geo_targets l))" "v ''target_url'' = []"
    using cells by simp_all
  have "E = [] \<or> co_rfc3339 c E \<noteq> None" using assms(2) by (auto simp: E_def csv_codec_ok_def split: option.split)
  moreover have "M = [] \<or> parse_int64 M \<noteq> None"
  proof (cases "l_max_clicks l")
    case (Some n)
    then have "n < 2 ^ 63" "1 \<le> n" using assms(1,3) by (simp_all add: csv_plain_def link_valid_def)
    with Some parse_int64_int_text [of n] show ?thesis by (simp add: M_def)
  qed (simp add: M_def)
  moreover have "csv_geos c (co_json_text c (geo_js (l_geo_targets l))) \<noteq> None"
    using assms(2) csv_geos_back [of c _ "l_geo_targets l"] by (simp add: csv_codec_ok_def Let_def)
  ultimately show ?thesis
    unfolding row_error_def link portable_validates [OF assms(3)] v parse_bool_text(1)
    by (auto simp: last_error_def)
qed



text \<open>What the guard against formulas costs: a slug may start with a hyphen, and such a link is refused on the way back.\<close>

lemma dash_slug_refused:
  assumes "slugRe (l_slug l)" and "hd (l_slug l) = CHR ''-''"
  shows "row_error env c (csv_value (csv_header csvLinkHeaders) (export_row c tt l)) \<noteq> None"
proof -
  let ?v = "csv_value (csv_header csvLinkHeaders) (export_row c tt l)"
  obtain cs where s: "l_slug l = CHR ''-'' # cs" using assms by (cases "l_slug l") (auto simp: slugRe_def)
  have "csv_header csvLinkHeaders ''slug'' = Some 0" by code_simp
  then have "?v ''slug'' = trim (CHR 0x27 # l_slug l)"
    by (simp add: csv_value_def export_row_def link_cells_def safeCSVCell_def s)
  moreover have "CHR 0x27 \<in> set (trim (CHR 0x27 # l_slug l))"
  proof -
    have "\<not> is_space CHR 0x27" by (simp add: is_space_def)
    then show ?thesis by (simp add: trim_def dropWhile_append)
  qed
  moreover have "\<not> slugRe w" if "CHR 0x27 \<in> set w" for w
  proof -
    have "\<not> slug_char CHR 0x27" by (simp add: slug_char_def)
    with that show ?thesis by (auto simp: slugRe_def list_all_iff)
  qed
  ultimately have n: "\<not> slugRe (?v ''slug'')" "?v ''slug'' \<noteq> []" by (simp, metis list.set(1) empty_iff)
  have "l_slug (import_link c ?v) = ?v ''slug''" by (simp add: import_link_def)
  then obtain e where e: "ValidateLink env (import_link c ?v) = Some e" using n unfolding ValidateLink_def by simp
  show ?thesis unfolding row_error_def e by (simp only: last_error_def foldl.simps option.case option.distinct not_False_eq_True)
qed

text \<open>A redirect code that is no number is not reported: it counts as 0, and 0 as 302.\<close>

lemma unreadable_code:
  "atoi ''moved'' = 0" "ValidateLink env (l\<lparr>l_redirect_code := 0\<rparr>) = ValidateLink env (l\<lparr>l_redirect_code := 302\<rparr>)"
  by code_simp (simp add: ValidateLink_def default_code_def)

end
