(* ===== verification/LinkRuns.thy ===== *)
theory LinkRuns
  imports Shortio Csv
begin

text \<open>
  The requests that write links, one after the other: POST, PATCH and bulk PATCH, the CSV import, the
  creation over the Short.io interface, and the deletions of both. Whatever they are and in whatever order they come, every row of \<open>links\<close> stays a
  link the validation accepts.
\<close>

section \<open>Deleting many links\<close>

text \<open>What the two bulk deletions share, once the ids are known: the DELETE branch of \<open>bulkLinks\<close>, with the action it
  audits, the text of the target, and the ids.\<close>

definition delete_many :: "string \<Rightarrow> string \<Rightarrow> int list \<Rightarrow> request \<Rightarrow> server \<Rightarrow> LinkHandler.response \<times> server" where
  "delete_many action target ids rq sv =
     (case requireDelete rq action ''link'' target sv of
        (Some r, sv') \<Rightarrow> (r, sv')
      | (None, sv1) \<Rightarrow>
          (let u = pr_effective (rq_principal rq) in
           case linksByIDs (sv_store sv1) u ids of
             Inl e \<Rightarrow> (refuse 404 e, sv1)
           | Inr before \<Rightarrow>
               (case deleteLinksBulk (rq_now rq) (sv_store sv1) u ids of
                  Inl e \<Rightarrow> (refuse 404 e, sv1)
                | Inr s \<Rightarrow>
                    (let sv2 = changed_links s before sv1 in
                     case audit rq action ''link'' target ''success'' sv2 of
                       None \<Rightarrow> (Status 500, sv2)
                     | Some sv3 \<Rightarrow> (Status 200, sv3)))))"

definition bulkLinks_DELETE :: "request \<Rightarrow> (int list \<times> jsval) decoded \<Rightarrow> server \<Rightarrow> LinkHandler.response \<times> server" where
  "bulkLinks_DELETE rq body sv =
     (case body of TooLarge \<Rightarrow> (Status 413, sv) | BadJson \<Rightarrow> (Status 400, sv)
      | Decoded (ids, set_js) \<Rightarrow>
          (case decode_payload set_js of None \<Rightarrow> (Status 400, sv)
           | Some p \<Rightarrow>
               if length ids < 1 \<or> length ids > 500 \<or> in_slug p \<noteq> None \<or> list_ex (\<lambda>i. i < 1) ids \<or> \<not> distinct ids
               then (Status 400, sv)
               else delete_many ''link.bulk_deleted'' (join_with '','' (map int_text ids)) ids rq sv))"

section \<open>The requests\<close>

text \<open>The ids of the rows a request inserts come with it (\<open>write_env\<close>), as the identity column gave them.\<close>

datatype link_write =
    Post write_env request "jsval decoded"
  | Patch write_env request int "jsval decoded"
  | Patch_many write_env request "(int list \<times> jsval) decoded"
  | Import write_env request "string list list option" bool
  | Delete request int
  | Delete_many request "(int list \<times> jsval) decoded"
  | Shortio_delete request string string
  | Shortio_delete_many request "string list decoded"
  | Shortio_post write_env request shortio_times "tenant_domain list" "shortio_payload option"

definition link_write_step :: "codec \<Rightarrow> link_write \<Rightarrow> server \<Rightarrow> server" where
  "link_write_step c w sv =
     (case w of
        Post env rq body \<Rightarrow> snd (links_POST c env rq body sv)
      | Patch env rq i body \<Rightarrow> snd (linkByID_PATCH c env rq i body sv)
      | Patch_many env rq body \<Rightarrow> snd (bulkLinks_PATCH c env rq body sv)
      | Import env rq csv dry_run \<Rightarrow> snd (importLinks_csv c env ''POST'' rq csv dry_run sv)
      | Delete rq i \<Rightarrow> snd (linkByID_DELETE rq i sv)
      | Delete_many rq body \<Rightarrow> snd (bulkLinks_DELETE rq body sv)
      | Shortio_delete rq m path \<Rightarrow> snd (shortioLinkByID m path rq sv)
      | Shortio_delete_many rq body \<Rightarrow> snd (shortioDeleteBulk ''DELETE'' body rq sv)
      | Shortio_post env rq ti ds body \<Rightarrow> snd (shortioLinks_POST c ti env ds rq body sv))"

fun link_writes :: "codec \<Rightarrow> link_write list \<Rightarrow> server \<Rightarrow> server" where
  "link_writes c [] sv = sv"
| "link_writes c (w # ws) sv = link_writes c ws (link_write_step c w sv)"

text \<open>What the database promises: the ids of new rows are new. All requests are checked by one notion of URL.\<close>

definition write_env_ok :: "write_env \<Rightarrow> server \<Rightarrow> link_write \<Rightarrow> bool" where
  "write_env_ok env0 sv w \<longleftrightarrow>
     (case w of
        Post env _ _ \<Rightarrow> we_url env = we_url env0 \<and> fresh_ids env 1 (sv_store sv)
      | Patch env _ _ _ \<Rightarrow> we_url env = we_url env0
      | Patch_many env _ _ \<Rightarrow> we_url env = we_url env0
      | Import env _ csv _ \<Rightarrow> we_url env = we_url env0 \<and> (case csv of None \<Rightarrow> True | Some rows \<Rightarrow> fresh_ids env (length rows - 1) (sv_store sv))
      | Shortio_post env _ _ _ _ \<Rightarrow> we_url env = we_url env0 \<and> fresh_ids env 1 (sv_store sv)
      | _ \<Rightarrow> True)"

fun writes_ok :: "codec \<Rightarrow> write_env \<Rightarrow> server \<Rightarrow> link_write list \<Rightarrow> bool" where
  "writes_ok c env0 sv [] = True"
| "writes_ok c env0 sv (w # ws) = (write_env_ok env0 sv w \<and> writes_ok c env0 (link_write_step c w sv) ws)"

section \<open>Deletions\<close>

definition only_deletes :: "link list \<Rightarrow> link list \<Rightarrow> bool" where
  \<comment> \<open>the rows stay, some of them marked\<close>
  "only_deletes ls ls' \<longleftrightarrow> (\<exists>P now. ls' = map (\<lambda>l. if P l then l\<lparr>l_deleted_at := Some now\<rparr> else l) ls)"

lemma only_deletes_refl: "only_deletes ls ls"
  unfolding only_deletes_def by (rule exI [of _ "\<lambda>l. False"]) simp

lemma only_deletes_keeps:
  assumes "links_ok env s" and "only_deletes (s_links s) (s_links t)"
  shows "links_ok env t"
proof -
  from assms(2) obtain P now where t: "s_links t = map (\<lambda>l. if P l then l\<lparr>l_deleted_at := Some now\<rparr> else l) (s_links s)"
    by (auto simp: only_deletes_def)
  have v: "link_valid env (l\<lparr>l_deleted_at := d\<rparr>) = link_valid env l" for l d
    by (simp add: link_valid_def urls_ok_def dynamic_def)
  have "links_ok env (s\<lparr>s_links := map (\<lambda>l. if P l then l\<lparr>l_deleted_at := Some now\<rparr> else l) (s_links s)\<rparr>)"
    by (rule links_ok_map [OF assms(1)]) (simp_all add: v)
  moreover have "s_links t = s_links (s\<lparr>s_links := map (\<lambda>l. if P l then l\<lparr>l_deleted_at := Some now\<rparr> else l) (s_links s)\<rparr>)"
    by (simp add: t)
  ultimately show ?thesis using links_ok_cong by blast
qed

lemma only_deletesI: "only_deletes ls (map (\<lambda>l. if P l then l\<lparr>l_deleted_at := Some now\<rparr> else l) ls)"
  unfolding only_deletes_def by (rule exI [of _ P], rule exI [of _ now], rule refl)

lemma deleteLink_only: "deleteLink now s u i = Inr s' \<Longrightarrow> only_deletes (s_links s) (s_links s')"
  unfolding deleteLink_def Let_def by (auto intro!: only_deletesI split: option.splits if_splits)

lemma deleteLinksBulk_only: "deleteLinksBulk now s u ids = Inr s' \<Longrightarrow> only_deletes (s_links s) (s_links s')"
  unfolding deleteLinksBulk_def Let_def
  by (auto intro!: only_deletesI only_deletes_refl split: option.splits if_splits)

lemma requireDelete_links: "s_links (sv_store (snd (requireDelete rq a tt ti sv))) = s_links (sv_store sv)"
  by (auto simp: requireDelete_def audit_links split: option.split)

lemma requireDelete_passed: "requireDelete rq a tt ti sv = (None, sv') \<Longrightarrow> sv' = sv"
  by (auto simp: requireDelete_def split: if_splits option.splits)

lemma delete_one_only: "only_deletes (s_links (sv_store sv)) (s_links (sv_store (snd (delete_one a st rq i sv))))"
proof (cases "requireDelete rq a ''link'' (int_text i) sv")
  case (Pair r sv')
  show ?thesis
  proof (cases r)
    case (Some x)
    with Pair requireDelete_links [of rq a "''link''" "int_text i" sv] show ?thesis
      by (simp add: delete_one_def only_deletes_refl)
  next
    case None
    note p = Pair [unfolded None requireDelete_passed [OF Pair [unfolded None]]]
    let ?u = "pr_effective (rq_principal rq)"
    show ?thesis
    proof (cases "linkByID (sv_store sv) ?u i")
      case l: (Inr before)
      show ?thesis
      proof (cases "deleteLink (rq_now rq) (sv_store sv) ?u i")
        case (Inr s)
        have "s_links (sv_store (snd (delete_one a st rq i sv))) = s_links s"
          by (simp add: delete_one_def p l Inr Let_def audited_links)
        with deleteLink_only [OF Inr] show ?thesis by simp
      qed (simp add: delete_one_def p l Let_def only_deletes_refl)
    qed (simp add: delete_one_def p Let_def only_deletes_refl)
  qed
qed

lemma delete_many_only: "only_deletes (s_links (sv_store sv)) (s_links (sv_store (snd (delete_many a t ids rq sv))))"
proof (cases "requireDelete rq a ''link'' t sv")
  case (Pair r sv')
  show ?thesis
  proof (cases r)
    case (Some x)
    with Pair requireDelete_links [of rq a "''link''" t sv] show ?thesis
      by (simp add: delete_many_def only_deletes_refl)
  next
    case None
    note p = Pair [unfolded None requireDelete_passed [OF Pair [unfolded None]]]
    let ?u = "pr_effective (rq_principal rq)"
    show ?thesis
    proof (cases "linksByIDs (sv_store sv) ?u ids")
      case l: (Inr before)
      show ?thesis
      proof (cases "deleteLinksBulk (rq_now rq) (sv_store sv) ?u ids")
        case (Inr s)
        have "s_links (sv_store (snd (delete_many a t ids rq sv))) = s_links s"
          by (simp add: delete_many_def p l Inr Let_def audited_links)
        with deleteLinksBulk_only [OF Inr] show ?thesis by simp
      qed (simp add: delete_many_def p l Let_def only_deletes_refl)
    qed (simp add: delete_many_def p Let_def only_deletes_refl)
  qed
qed

lemma shortioDeleteBulk_many:
  "shortioDeleteBulk m body rq sv =
     (if m \<noteq> ''DELETE'' then (Status 405, sv)
      else case body of TooLarge \<Rightarrow> (Status 413, sv) | BadJson \<Rightarrow> (Status 400, sv)
      | Decoded texts \<Rightarrow>
        (if length texts < 1 \<or> length texts > 150 then (Status 400, sv)
         else case parseShortioLinkIDs texts of None \<Rightarrow> (Status 400, sv)
         | Some ids \<Rightarrow> delete_many ''shortio.link.bulk_deleted'' (join_with '','' (map shortioLinkID ids)) ids rq sv))"
  unfolding shortioDeleteBulk_def delete_many_def refuse_def changed_links_def Let_def ..

lemma shortioDeleteBulk_only:
  "only_deletes (s_links (sv_store sv)) (s_links (sv_store (snd (shortioDeleteBulk m body rq sv))))"
  unfolding shortioDeleteBulk_many
  by (cases body) (simp_all add: only_deletes_refl delete_many_only split: option.split)

lemma bulkLinks_DELETE_only:
  "only_deletes (s_links (sv_store sv)) (s_links (sv_store (snd (bulkLinks_DELETE rq body sv))))"
proof (cases body)
  case (Decoded x)
  then show ?thesis
    by (cases x) (simp add: bulkLinks_DELETE_def only_deletes_refl delete_many_only split: option.split)
qed (simp_all add: bulkLinks_DELETE_def only_deletes_refl)

section \<open>The import\<close>

lemma import_rows_length: "import_rows env c rows = (ls, es) \<Longrightarrow> length ls = length rows - 1"
  by (auto simp: import_rows_def Let_def)

lemma import_store:
  "s_links (sv_store (snd (importLinks_csv c env m rq csv dry sv))) = s_links (sv_store sv) \<or>
   (\<exists>rows ls u. csv = Some rows \<and> length ls = length rows - 1 \<and>
      s_links (sv_store (snd (importLinks_csv c env m rq csv dry sv))) = s_links (snd (CreateLinksBulk env (rq_now rq) (sv_store sv) u ls)))"
proof (cases "\<exists>rows ls. m = ''POST'' \<and> csv = Some rows \<and> rows \<noteq> [] \<and> length rows \<le> 10001 \<and>
    \<not> (csv_header (hd rows) ''url'' = None \<and> csv_header (hd rows) ''target_url'' = None) \<and>
    import_rows env c rows = (ls, []) \<and> \<not> dry")
  case True
  then obtain rows ls where b: "m = ''POST''" "csv = Some rows" "\<not> (rows = [] \<or> length rows > 10001)"
    "\<not> (csv_header (hd rows) ''url'' = None \<and> csv_header (hd rows) ''target_url'' = None)"
    "import_rows env c rows = (ls, [])" "\<not> dry" by auto
  let ?u = "pr_effective (rq_principal rq)"
  obtain r s where r: "CreateLinksBulk env (rq_now rq) (sv_store sv) ?u ls = (r, s)" by (meson surj_pair)
  have i: "importLinks_csv c env m rq csv dry sv =
    (case CreateLinksBulk env (rq_now rq) (sv_store sv) ?u ls of
       (Inl e, s) \<Rightarrow> (import_answer.Answer (refuse 409 e), sv\<lparr>sv_store := s\<rparr>)
     | (Inr created, s) \<Rightarrow>
        (case audit rq ''link.imported'' ''link'' (int_text (int (length created))) ''success'' (changed_links s created sv) of
           None \<Rightarrow> (import_answer.Answer (Status 500), changed_links s created sv)
         | Some sv' \<Rightarrow> (import_answer.Answer (Status 201), sv')))"
    unfolding importLinks_csv_def b(1,2) option.case if_not_P [OF b(3)] if_not_P [OF b(4)] b(5) prod.case
    by (simp add: b(6))
  have "s_links (sv_store (snd (case audit rq a tt ti out w of None \<Rightarrow> (x, w) | Some sv' \<Rightarrow> (y, sv')))) = s_links (sv_store w)"
    for a tt ti out w and x y :: import_answer by (auto simp: audit_links split: option.split)
  then have "s_links (sv_store (snd (importLinks_csv c env m rq csv dry sv))) = s_links s"
    unfolding i r by (cases r) simp_all
  moreover have "s = snd (CreateLinksBulk env (rq_now rq) (sv_store sv) ?u ls)" by (simp add: r)
  ultimately show ?thesis using b(2) import_rows_length [OF b(5)] by blast
next
  case False
  have "snd (importLinks_csv c env m rq csv dry sv) = sv"
  proof (cases csv)
    case (Some rows)
    obtain ls es where e: "import_rows env c rows = (ls, es)" by (meson surj_pair)
    have "\<not> (m = ''POST'' \<and> rows \<noteq> [] \<and> length rows \<le> 10001 \<and>
        \<not> (csv_header (hd rows) ''url'' = None \<and> csv_header (hd rows) ''target_url'' = None) \<and> es = [] \<and> \<not> dry)"
      using False Some e by blast
    then show ?thesis unfolding importLinks_csv_def Some option.case e prod.case by auto
  qed (simp add: importLinks_csv_def)
  then show ?thesis by simp
qed

section \<open>Every request keeps the table well formed\<close>

lemma import_keeps:
  assumes "links_ok env (sv_store sv)" and "\<And>rows. csv = Some rows \<Longrightarrow> fresh_ids env (length rows - 1) (sv_store sv)"
  shows "links_ok env (sv_store (snd (importLinks_csv c env m rq csv dry sv)))"
  using import_store [of c env m rq csv dry sv]
proof (elim disjE exE conjE)
  assume "s_links (sv_store (snd (importLinks_csv c env m rq csv dry sv))) = s_links (sv_store sv)"
  from links_ok_cong [OF this] assms(1) show ?thesis by simp
next
  fix rows ls u
  assume r: "csv = Some rows" "length ls = length rows - 1" and
    s: "s_links (sv_store (snd (importLinks_csv c env m rq csv dry sv))) =
      s_links (snd (CreateLinksBulk env (rq_now rq) (sv_store sv) u ls))"
  have "links_ok env (snd (CreateLinksBulk env (rq_now rq) (sv_store sv) u ls))"
    using assms(2) [OF r(1)] by (intro CreateLinksBulk_keeps [OF assms(1)]) (simp add: r(2))
  with links_ok_cong [OF s] show ?thesis by simp
qed

lemma link_write_keeps:
  assumes "links_ok env0 (sv_store sv)" and "write_env_ok env0 sv w"
  shows "links_ok env0 (sv_store (link_write_step c w sv))"
proof (cases w)
  case (Post env rq body)
  with assms have e: "we_url env = we_url env0" "fresh_ids env 1 (sv_store sv)" by (simp_all add: write_env_ok_def)
  with assms(1) show ?thesis by (simp add: Post link_write_step_def links_ok_env [OF e(1) [symmetric]] links_POST_keeps)
next
  case (Patch env rq i body)
  with assms have e: "we_url env = we_url env0" by (simp add: write_env_ok_def)
  with assms(1) show ?thesis by (simp add: Patch link_write_step_def links_ok_env [OF e [symmetric]] linkByID_PATCH_keeps)
next
  case (Patch_many env rq body)
  with assms have e: "we_url env = we_url env0" by (simp add: write_env_ok_def)
  with assms(1) show ?thesis
    by (simp add: Patch_many link_write_step_def links_ok_env [OF e [symmetric]] bulkLinks_PATCH_keeps)
next
  case (Import env rq csv dry)
  with assms have e: "we_url env = we_url env0" by (simp add: write_env_ok_def)
  have "fresh_ids env (length rows - 1) (sv_store sv)" if "csv = Some rows" for rows
    using assms(2) Import that by (simp add: write_env_ok_def)
  with assms(1) show ?thesis
    unfolding Import link_write_step_def link_write.case links_ok_env [OF e [symmetric]] by (rule import_keeps)
next
  case (Delete rq i)
  show ?thesis unfolding Delete link_write_step_def link_write.case linkByID_DELETE_def
    by (rule only_deletes_keeps [OF assms(1) delete_one_only])
next
  case (Delete_many rq body)
  show ?thesis unfolding Delete_many link_write_step_def link_write.case
    by (rule only_deletes_keeps [OF assms(1) bulkLinks_DELETE_only])
next
  case (Shortio_delete rq m path)
  have "only_deletes (s_links (sv_store sv)) (s_links (sv_store (snd (shortioLinkByID m path rq sv))))"
    by (simp add: shortioLinkByID_def delete_one_only only_deletes_refl split: option.split)
  then show ?thesis unfolding Shortio_delete link_write_step_def link_write.case by (rule only_deletes_keeps [OF assms(1)])
next
  case (Shortio_delete_many rq body)
  show ?thesis unfolding Shortio_delete_many link_write_step_def link_write.case
    by (rule only_deletes_keeps [OF assms(1) shortioDeleteBulk_only])
next
  case (Shortio_post env rq ti ds body)
  with assms have e: "we_url env = we_url env0" "fresh_ids env 1 (sv_store sv)" by (simp_all add: write_env_ok_def)
  with assms(1) show ?thesis by (simp add: Shortio_post link_write_step_def links_ok_env [OF e(1) [symmetric]] shortioLinks_POST_keeps)
qed

text \<open>C3: Stored links stay well formed. Start from a table of valid links with unique ids and slugs; after any
  sequence of requests that create, edit, import and delete links, accepted or refused, every row still has a slug of
  the right form, absolute URLs, an allowed redirect code that is not permanent on a dynamic link, a positive click
  limit, unique country routes, at most 20 clean tags, and a password flag that tells whether there is a
  password; ids and slugs are still unique.\<close>

theorem stored_links_stay_valid:
  assumes "links_ok env0 (sv_store sv)" and "writes_ok c env0 sv ws"
  shows "links_ok env0 (sv_store (link_writes c ws sv))"
  using assms
proof (induction ws arbitrary: sv)
  case (Cons w ws)
  then show ?case using link_write_keeps [of env0 sv w c] by simp
qed simp

definition sample_writes :: "link_write list" where
  "sample_writes =
     [Post sample_env sample_request (Decoded (JObj [(''url'', JStr ''https://example.com/new''), (''slug'', JStr ''new'')])),
      Patch sample_env sample_request 9 (Decoded (JObj [(''title'', JStr ''Sale'')])),
      Patch_many sample_env sample_request (Decoded ([7, 9], JObj [(''redirect_code'', JNum 307)])),
      Delete_many sample_request (Decoded ([7], JNull))]"

lemma sample_links_ok: "links_ok sample_env (sv_store sample_server)"
proof -
  have url: "validHTTPURL sample_env ''https://example.com/''" by code_simp
  have v: "link_valid sample_env l" if "l \<in> {sample_link, sample_link\<lparr>l_id := 9, l_slug := ''sale''\<rparr>,
      sample_link\<lparr>l_id := 8, l_slug := ''old'', l_deleted_at := Some 5\<rparr>}" for l
    using that url by (auto simp: link_valid_def sample_link_def urls_ok_def redirect_codes_def geo_ok_def tags_ok_def
        slugRe_def slug_char_def)
  then show ?thesis
    using wf_store_ids(2) [OF sample_server_wf]
    by (simp add: links_ok_def sample_server_def LinkStore.sample_store_def) (simp add: sample_link_def)
qed

theorem stored_links_stay_valid_witness:
  "links_ok sample_env (sv_store (link_writes berlin_codec sample_writes sample_server))"
proof (rule stored_links_stay_valid [OF sample_links_ok])
  have "fresh_ids sample_env 1 (sv_store sample_server)"
    by (simp add: fresh_ids_def sample_env_def sample_server_def LinkStore.sample_store_def sample_link_def)
  then show "writes_ok berlin_codec sample_env sample_server sample_writes"
    by (simp add: sample_writes_def write_env_ok_def)
qed

end
