(* ===== verification/Accounts.thy ===== *)
theory Accounts
  imports LinkHandler ClickRecord
begin

text \<open>
  Accounts and authentication: the users and API keys (\<open>internal/store/store.go\<close>), who a request acts as
  (\<open>withAuth\<close>, \<open>apiKeyFromRequest\<close> of \<open>internal/handlers/handlers.go\<close>, \<open>userFromSession\<close> of \<open>oidc.go\<close>), the session
  token (\<open>SignJWT\<close>, \<open>ParseJWT\<close> of \<open>internal/auth/auth.go\<close>), the sign-in (\<open>microsoftCallback\<close>, \<open>ensureSSOUser\<close>,
  \<open>devAuthLogin\<close>), and the handlers \<open>customers\<close> (POST), \<open>customerByID\<close>, \<open>apiKeys\<close> and \<open>apiKeyByID\<close>.

  Parameters: \<open>au_hash\<close> is SHA-256 in hexadecimal, \<open>au_mac\<close> the HMAC under the configured secret in Base64, \<open>au_encode\<close>
  and \<open>au_decode\<close> the claims as JSON in Base64. The exchange of the code and the check of the id token belong to the
  OpenID Connect library; its outcome is part of the callback. Random keys and the ids of new rows come with a
  call. Password hashes, \<open>last_used_at\<close> and the reset tables are left out: nothing modelled reads them.
\<close>

section \<open>State\<close>

record api_key_row =
  kr_id :: int
  kr_user_id :: int
  kr_name :: string
  kr_hash :: string
  kr_prefix :: string
  kr_scope :: string
  kr_revoked_at :: "int option"
  kr_created_at :: int

record accounts =
  ac_server :: server
  ac_keys :: "api_key_row list"
  ac_tenants :: "tenant list"

record auth_config =
  au_hash :: "string \<Rightarrow> string"
  au_mac :: "string \<Rightarrow> string"
  au_head :: string
  au_encode :: "claims \<Rightarrow> string"
  au_decode :: "string \<Rightarrow> claims option"
  au_allowed_domain :: string
  au_allowed_email :: string
  au_dev_bypass :: bool
  au_dev_email :: string

definition ac_users :: "accounts \<Rightarrow> user list" where
  "ac_users st = s_users (sv_store (ac_server st))"

definition set_users :: "user list \<Rightarrow> accounts \<Rightarrow> accounts" where
  "set_users us st = st\<lparr>ac_server := (ac_server st)\<lparr>sv_store := (sv_store (ac_server st))\<lparr>s_users := us\<rparr>\<rparr>\<rparr>"

section \<open>The session token\<close>

definition SignJWT :: "auth_config \<Rightarrow> claims \<Rightarrow> string" where
  \<comment> \<open>\<open>au_head\<close> is the encoded header of the token\<close>
  "SignJWT cfg c =
     (let head = au_head cfg; body = au_encode cfg c; sig = au_mac cfg (head @ ''.'' @ body)
      in head @ ''.'' @ body @ ''.'' @ sig)"

definition ParseJWT :: "auth_config \<Rightarrow> int \<Rightarrow> string \<Rightarrow> claims option" where
  "ParseJWT cfg now token =
     (let parts = split_on (CHR ''.'') token in
      if length parts \<noteq> 3 then None
      else if au_mac cfg (parts ! 0 @ ''.'' @ parts ! 1) \<noteq> parts ! 2 then None
      else case au_decode cfg (parts ! 1) of None \<Rightarrow> None
      | Some c \<Rightarrow> if now div 1000 > cl_exp c then None else Some c)"

definition TokenTTL :: "int \<Rightarrow> int" where
  "TokenTTL now = (now + 24 * 60 * 60 * 1000) div 1000"

definition session_for :: "int \<Rightarrow> user \<Rightarrow> claims" where
  "session_for now u = \<lparr>cl_user_id = u_id u, cl_email = u_email u, cl_mode = defaultDashboardMode u, cl_exp = TokenTTL now\<rparr>"

section \<open>Users and keys in the store\<close>

definition userByID :: "accounts \<Rightarrow> int \<Rightarrow> user option" where
  "userByID st i = find (\<lambda>u. u_id u = i) (ac_users st)"

definition userByEmail :: "accounts \<Rightarrow> string \<Rightarrow> user option" where
  "userByEmail st email = find (\<lambda>u. u_email u = lower email) (ac_users st)"

definition createUser ::
    "int \<Rightarrow> int \<Rightarrow> string \<Rightarrow> string \<Rightarrow> string \<Rightarrow> int option \<Rightarrow> accounts \<Rightarrow> (store_error + accounts)" where
  "createUser i now email name role0 tenant_id st =
     (let role = (if role0 = [] then ''customer'' else role0) in
      if i \<in> u_id ` set (ac_users st) \<or> lower email \<in> u_email ` set (ac_users st) then Inl (Invalid ''duplicate key'')
      else if runes (lower email) > 190 \<or> runes name > 120 \<or> role \<notin> {''superadmin'', ''tenant'', ''customer''} \<or>
        (case tenant_id of None \<Rightarrow> False | Some t \<Rightarrow> t \<notin> t_id ` set (ac_tenants st)) then Inl (Invalid ''value refused'')
      else Inr (set_users (ac_users st @
        [\<lparr>u_id = i, u_tenant_id = tenant_id, u_email = lower email, u_name = name, u_role = role,
          u_deletion_access = False, u_active = True, u_created_at = now\<rparr>]) st))"

definition setUserActive :: "int \<Rightarrow> int \<Rightarrow> bool \<Rightarrow> accounts \<Rightarrow> user option \<times> accounts" where
  \<comment> \<open>deactivation revokes the keys in the same transaction\<close>
  "setUserActive now i active st =
     (if i \<notin> u_id ` set (ac_users st) then (None, st)
      else
        let st1 = set_users (map (\<lambda>u. if u_id u = i then u\<lparr>u_active := active\<rparr> else u) (ac_users st)) st;
            st2 = (if active then st1
                   else st1\<lparr>ac_keys := map (\<lambda>k. if kr_user_id k = i \<and> kr_revoked_at k = None
                                              then k\<lparr>kr_revoked_at := Some now\<rparr> else k) (ac_keys st1)\<rparr>)
        in (userByID st2 i, st2))"

definition setUserDeletionAccess :: "int \<Rightarrow> bool \<Rightarrow> accounts \<Rightarrow> user option \<times> accounts" where
  "setUserDeletionAccess i enabled st =
     (if i \<notin> u_id ` set (ac_users st) then (None, st)
      else let st1 = set_users (map (\<lambda>u. if u_id u = i then u\<lparr>u_deletion_access := enabled\<rparr> else u) (ac_users st)) st
           in (userByID st1 i, st1))"

definition key_insert :: "int \<Rightarrow> int \<Rightarrow> int \<Rightarrow> string \<Rightarrow> string \<Rightarrow> string \<Rightarrow> string \<Rightarrow> api_key_row" where
  "key_insert i now uid name hash prefix scope =
     \<lparr>kr_id = i, kr_user_id = uid, kr_name = name, kr_hash = hash, kr_prefix = prefix, kr_scope = scope,
      kr_revoked_at = None, kr_created_at = now\<rparr>"

definition createAPIKey ::
    "int \<Rightarrow> int \<Rightarrow> int \<Rightarrow> string \<Rightarrow> string \<Rightarrow> string \<Rightarrow> string \<Rightarrow> accounts \<Rightarrow> (store_error + accounts)" where
  "createAPIKey i now uid name hash prefix scope0 st =
     (let scope = (if scope0 \<noteq> ''user'' then ''account'' else scope0) in
      if i \<in> kr_id ` set (ac_keys st) \<or> hash \<in> kr_hash ` set (ac_keys st) then Inl (Invalid ''duplicate key'')
      else if runes name > 120 \<or> uid \<notin> u_id ` set (ac_users st) then Inl (Invalid ''value refused'')
      else Inr (st\<lparr>ac_keys := ac_keys st @ [key_insert i now uid name hash prefix scope]\<rparr>))"

definition userByAPIKey :: "accounts \<Rightarrow> string \<Rightarrow> (user \<times> string) option" where
  "userByAPIKey st hash =
     (case find (\<lambda>k. kr_hash k = hash \<and> kr_revoked_at k = None) (ac_keys st) of None \<Rightarrow> None
      | Some k \<Rightarrow>
          (case find (\<lambda>u. u_id u = kr_user_id k \<and> u_active u) (ac_users st) of None \<Rightarrow> None
           | Some u \<Rightarrow> Some (u, kr_scope k)))"

definition listAPIKeys :: "accounts \<Rightarrow> int \<Rightarrow> string \<Rightarrow> api_key_row list" where
  "listAPIKeys st uid scope = order_desc kr_id (filter (\<lambda>k. kr_user_id k = uid \<and> kr_revoked_at k = None \<and>
     (scope = ''user'' \<longrightarrow> kr_scope k = ''user'')) (ac_keys st))"

definition revokeAPIKey :: "int \<Rightarrow> int \<Rightarrow> int \<Rightarrow> string \<Rightarrow> accounts \<Rightarrow> accounts option" where
  \<comment> \<open>a key that is revoked already gets a new date\<close>
  "revokeAPIKey now uid i scope st =
     (let hit = (\<lambda>k. kr_id k = i \<and> kr_user_id k = uid \<and> (scope = ''user'' \<longrightarrow> kr_scope k = ''user'')) in
      if filter hit (ac_keys st) = [] then None
      else Some (st\<lparr>ac_keys := map (\<lambda>k. if hit k then k\<lparr>kr_revoked_at := Some now\<rparr> else k) (ac_keys st)\<rparr>))"

section \<open>Who a request acts as\<close>

definition has_suffix :: "string \<Rightarrow> string \<Rightarrow> bool" where
  "has_suffix p s \<longleftrightarrow> has_prefix (rev p) (rev s)"

definition allowedMicrosoftUser :: "auth_config \<Rightarrow> string \<Rightarrow> bool" where
  "allowedMicrosoftUser cfg email0 =
     (let email = lower (trim email0); domain = path_after ''@'' (lower (trim (au_allowed_domain cfg)));
          allowed = lower (trim (au_allowed_email cfg))
      in (domain \<noteq> [] \<and> has_suffix (CHR ''@'' # domain) email) \<or> (allowed \<noteq> [] \<and> email = allowed))"

definition devAuthAllows :: "auth_config \<Rightarrow> string \<Rightarrow> bool" where
  "devAuthAllows cfg email \<longleftrightarrow> au_dev_bypass cfg \<and> lower (trim email) = lower (trim (au_dev_email cfg))"

text \<open>The headers and the cookie a request brings; absent ones are empty.\<close>

record credentials =
  cr_api_key :: string
  cr_authorization :: string
  cr_session :: string

definition apiKeyFromRequest :: "credentials \<Rightarrow> string" where
  "apiKeyFromRequest cr =
     (if trim (cr_api_key cr) \<noteq> [] then trim (cr_api_key cr)
      else let header = trim (cr_authorization cr) in
        if header = [] \<or> has_prefix ''Bearer '' header then [] else header)"

definition userFromSession :: "auth_config \<Rightarrow> int \<Rightarrow> credentials \<Rightarrow> accounts \<Rightarrow> principal option" where
  "userFromSession cfg now cr st =
     (if cr_session cr = [] then None
      else case ParseJWT cfg now (cr_session cr) of None \<Rightarrow> None
      | Some c \<Rightarrow>
          (case userByID st (cl_user_id c) of None \<Rightarrow> None
           | Some u \<Rightarrow>
               if \<not> u_active u then None
               else if \<not> allowedMicrosoftUser cfg (u_email u) \<and> \<not> devAuthAllows cfg (u_email u) then None
               else Some (effectivePrincipal u (cl_mode c) ''session'')))"

definition withAuth :: "auth_config \<Rightarrow> int \<Rightarrow> credentials \<Rightarrow> accounts \<Rightarrow> principal option" where
  \<comment> \<open>\<open>None\<close> is 401\<close>
  "withAuth cfg now cr st =
     (if apiKeyFromRequest cr \<noteq> [] then
        (case userByAPIKey st (au_hash cfg (apiKeyFromRequest cr)) of None \<Rightarrow> None
         | Some (u, scope) \<Rightarrow>
             if u_active u \<and> allowedMicrosoftUser cfg (u_email u)
             then Some (effectivePrincipal u (if scope = ''user'' then ''user'' else defaultDashboardMode u) ''api_key'')
             else None)
      else case userFromSession cfg now cr st of Some p \<Rightarrow> Some p
      | None \<Rightarrow>
          (case ParseJWT cfg now (path_after ''Bearer '' (cr_authorization cr)) of None \<Rightarrow> None
           | Some c \<Rightarrow>
               (case userByID st (cl_user_id c) of None \<Rightarrow> None
                | Some u \<Rightarrow> if \<not> u_active u \<or> \<not> allowedMicrosoftUser cfg (u_email u) then None
                            else Some (effectivePrincipal u (cl_mode c) ''bearer''))))"

section \<open>The handlers\<close>

definition audit_success :: "request \<Rightarrow> string \<Rightarrow> string \<Rightarrow> string \<Rightarrow> accounts \<Rightarrow> accounts option" where
  "audit_success rq action target_type target_id st =
     map_option (\<lambda>sv. st\<lparr>ac_server := sv\<rparr>) (audit rq action target_type target_id ''success'' (ac_server st))"

definition answered :: "int \<Rightarrow> accounts option \<Rightarrow> accounts \<Rightarrow> response \<times> accounts" where
  \<comment> \<open>the answer after the audit insert: 500 when it failed\<close>
  "answered ok logged st = (case logged of None \<Rightarrow> (Status 500, st) | Some st' \<Rightarrow> (Status ok, st'))"

record new_user =
  nu_email :: string
  nu_name :: string
  nu_password :: string
  nu_role :: string
  nu_tenant_id :: "int option"

definition customers_POST :: "int \<Rightarrow> request \<Rightarrow> new_user decoded \<Rightarrow> accounts \<Rightarrow> response \<times> accounts" where
  "customers_POST i rq body st =
     (let u = pr_effective (rq_principal rq) in
      if u_role u = ''customer'' then (Status 403, st)
      else case body of TooLarge \<Rightarrow> (Status 413, st) | BadJson \<Rightarrow> (Status 400, st)
      | Decoded nu \<Rightarrow>
          (let role0 = (if nu_role nu = [] then ''customer'' else nu_role nu);
               role = (if u_role u = ''tenant'' then ''customer'' else role0);
               tenant_id = (if u_role u = ''tenant'' then u_tenant_id u else nu_tenant_id nu)
           in if u_role u = ''superadmin'' \<and> role = ''superadmin'' then (Status 400, st)
              else if role \<notin> {''customer'', ''tenant''} \<or> tenant_id = None then (Status 400, st)
              else if length (nu_password nu) < 8 then (Status 400, st)
              else case createUser i (rq_now rq) (nu_email nu) (nu_name nu) role tenant_id st of
                Inl e \<Rightarrow> (Status 400, st)
              | Inr st' \<Rightarrow>
                  (let created = (case userByEmail st' (nu_email nu) of None \<Rightarrow> 0 | Some c \<Rightarrow> u_id c)
                   in answered 201 (audit_success rq ''user.created'' ''user'' (int_text created) st') st')))"

definition drop_suffix :: "string \<Rightarrow> string \<Rightarrow> string" where
  "drop_suffix p s = (if has_suffix p s then take (length s - length p) s else s)"

definition user_path_id :: "string \<Rightarrow> string \<Rightarrow> int option" where
  "user_path_id suffix path =
     (case parse_int64 (strip_char (CHR ''/'') (drop_suffix suffix (path_after ''/api/v1/customers/'' path))) of
        None \<Rightarrow> None | Some i \<Rightarrow> if i < 1 then None else Some i)"

text \<open>The two branches of \<open>customerByID\<close> differ in the suffix of the path, the action and the update.\<close>

definition change_user ::
    "request \<Rightarrow> string \<Rightarrow> string \<Rightarrow> (int \<Rightarrow> bool \<Rightarrow> accounts \<Rightarrow> user option \<times> accounts) \<Rightarrow> string \<Rightarrow> bool decoded \<Rightarrow> accounts
     \<Rightarrow> response \<times> accounts" where
  "change_user rq suffix action change path body st =
     (case user_path_id suffix path of None \<Rightarrow> (Status 400, st)
      | Some i \<Rightarrow>
          (case body of TooLarge \<Rightarrow> (Status 413, st) | BadJson \<Rightarrow> (Status 400, st)
           | Decoded v \<Rightarrow>
               if userByID st i = None then (Status 404, st)
               else case change i v st of (None, st') \<Rightarrow> (Status 500, st')
               | (Some u, st') \<Rightarrow> answered 200 (audit_success rq action ''user'' (int_text i) st') st'))"

definition customerByID :: "request \<Rightarrow> string \<Rightarrow> string \<Rightarrow> bool decoded \<Rightarrow> accounts \<Rightarrow> response \<times> accounts" where
  "customerByID rq http_method path body st =
     (if u_role (pr_effective (rq_principal rq)) \<noteq> ''superadmin'' then (Status 403, st)
      else if http_method = ''PATCH'' \<and> has_suffix ''/active'' path
      then change_user rq ''/active'' ''user.active_changed'' (setUserActive (rq_now rq)) path body st
      else if http_method \<noteq> ''PATCH'' \<or> \<not> has_suffix ''/deletion-access'' path then (Status 405, st)
      else change_user rq ''/deletion-access'' ''user.deletion_access_changed'' setUserDeletionAccess path body st)"

definition key_scope :: "principal \<Rightarrow> string" where
  "key_scope p = (if pr_mode p = ''user'' then ''user'' else ''account'')"

definition apiKeys_GET :: "principal \<Rightarrow> accounts \<Rightarrow> api_key_row list" where
  "apiKeys_GET p st = listAPIKeys st (u_id (pr_actual p)) (key_scope p)"

text \<open>A key comes with its random text, its prefix and the id of its row. If the audit row cannot be written the
  new key is revoked again.\<close>

definition apiKeys_POST ::
    "auth_config \<Rightarrow> int \<Rightarrow> string \<Rightarrow> string \<Rightarrow> request \<Rightarrow> string decoded \<Rightarrow> accounts \<Rightarrow> response \<times> accounts" where
  "apiKeys_POST cfg i key prefix rq body st =
     (let p = rq_principal rq in
      if pr_auth_type p \<noteq> ''session'' then (Status 403, st)
      else case body of TooLarge \<Rightarrow> (Status 413, st) | BadJson \<Rightarrow> (Status 400, st)
      | Decoded name0 \<Rightarrow>
          (let name = trim name0 in
           if name = [] \<or> length name > 120 then (Status 400, st)
           else case createAPIKey i (rq_now rq) (u_id (pr_actual p)) name (au_hash cfg key) prefix (key_scope p) st of
             Inl e \<Rightarrow> (Status 500, st)
           | Inr st' \<Rightarrow>
               (case audit_success rq ''api_key.created'' ''api_key'' prefix st' of
                  None \<Rightarrow> (Status 500, case revokeAPIKey (rq_now rq) (u_id (pr_actual p)) i (key_scope p) st' of
                                         None \<Rightarrow> st' | Some st'' \<Rightarrow> st'')
                | Some st'' \<Rightarrow> (Status 201, st''))))"

definition apiKeyByID :: "request \<Rightarrow> string \<Rightarrow> int \<Rightarrow> accounts \<Rightarrow> response \<times> accounts" where
  "apiKeyByID rq http_method i st =
     (if http_method \<noteq> ''DELETE'' then (Status 405, st)
      else case requireDelete rq ''api_key.revoked'' ''api_key'' (int_text i) (ac_server st) of
        (Some r, sv) \<Rightarrow> (r, st\<lparr>ac_server := sv\<rparr>)
      | (None, sv) \<Rightarrow>
          (let p = rq_principal rq; st1 = st\<lparr>ac_server := sv\<rparr> in
           case revokeAPIKey (rq_now rq) (u_id (pr_actual p)) i (key_scope p) st1 of None \<Rightarrow> (Status 404, st1)
           | Some st2 \<Rightarrow> answered 204 (audit_success rq ''api_key.revoked'' ''api_key'' (int_text i) st2) st2))"

section \<open>Signing in\<close>

definition ensureSSOUser :: "int \<Rightarrow> int \<Rightarrow> string \<Rightarrow> string \<Rightarrow> accounts \<Rightarrow> (user \<times> accounts) option" where
  "ensureSSOUser i now email name st =
     (case userByEmail st email of Some u \<Rightarrow> Some (u, st)
      | None \<Rightarrow>
          (case find (\<lambda>t. t_slug t = ''alva'') (ac_tenants st) of None \<Rightarrow> None
           | Some t \<Rightarrow>
               (case createUser i now email (if trim name = [] then email else name) ''customer'' (Some (t_id t)) st of
                  Inl e \<Rightarrow> None
                | Inr st' \<Rightarrow> map_option (\<lambda>u. (u, st')) (userByEmail st' email))))"

record sso_claims =
  sc_email :: string
  sc_preferred_username :: string
  sc_name :: string
  sc_nonce :: string

text \<open>The cookies and parameters of the callback, and what the library makes of the code: the status of a failure, or
  the claims of a verified id token.\<close>

record callback =
  cb_state_cookie :: string
  cb_state :: string
  cb_nonce_cookie :: string
  cb_token :: "int + sso_claims"

definition callback_email :: "sso_claims \<Rightarrow> string" where
  "callback_email c =
     (let email = lower (trim (sc_email c)) in if email = [] then lower (trim (sc_preferred_username c)) else email)"

definition microsoftCallback ::
    "auth_config \<Rightarrow> int \<Rightarrow> int \<Rightarrow> string \<Rightarrow> bool \<Rightarrow> callback \<Rightarrow> accounts \<Rightarrow> response \<times> string option \<times> accounts" where
  \<comment> \<open>the text is the new session cookie\<close>
  "microsoftCallback cfg i now ip audit_up cb st =
     (if cb_state_cookie cb = [] \<or> cb_state cb \<noteq> cb_state_cookie cb then (Status 400, None, st)
      else if cb_nonce_cookie cb = [] then (Status 400, None, st)
      else case cb_token cb of Inl status \<Rightarrow> (Status status, None, st)
      | Inr c \<Rightarrow>
         (let email = callback_email c
          in if sc_nonce c \<noteq> cb_nonce_cookie cb then (Status 401, None, st)
             else if \<not> allowedMicrosoftUser cfg email then (Status 403, None, st)
             else case ensureSSOUser i now email (sc_name c) st of None \<Rightarrow> (Status 500, None, st)
             | Some (u, st') \<Rightarrow>
                 (let rq = \<lparr>rq_principal = effectivePrincipal u [] ''session'', rq_ip = ip, rq_now = now, rq_audit_up = audit_up\<rparr>
                  in if userByEmail st email \<noteq> None then (Status 302, Some (SignJWT cfg (session_for now u)), st')
                     else case audit_success rq ''user.provisioned'' ''user'' (int_text (u_id u)) st' of
                       None \<Rightarrow> (Status 500, None, st')
                     | Some st'' \<Rightarrow> (Status 302, Some (SignJWT cfg (session_for now u)), st''))))"

definition devAuthLogin :: "auth_config \<Rightarrow> int \<Rightarrow> accounts \<Rightarrow> response \<times> string option" where
  "devAuthLogin cfg now st =
     (let email = lower (trim (au_dev_email cfg)) in
      if email = [] then (Status 500, None)
      else case userByEmail st email of None \<Rightarrow> (Status 500, None)
      | Some u \<Rightarrow> (Status 302, Some (SignJWT cfg (session_for now u))))"

definition switch_mode ::
    "auth_config \<Rightarrow> string \<Rightarrow> int \<Rightarrow> credentials \<Rightarrow> string decoded \<Rightarrow> accounts \<Rightarrow> mode_response \<times> string option" where
  \<comment> \<open>\<open>sessionMode\<close> with the session it reads and the cookie it sets\<close>
  "switch_mode cfg http_method now cr body st =
     (let r = sessionMode http_method (userFromSession cfg now cr st) body (TokenTTL now)
      in (r, map_option (SignJWT cfg) (mr_session r)))"

section \<open>Runs\<close>

datatype account_op =
    Create_user int "new_user decoded"
  | Change_user string string "bool decoded"
  | New_key int string string "string decoded"
  | Drop_key string int

record call =
  ca_credentials :: credentials
  ca_now :: int
  ca_ip :: string
  ca_audit_up :: bool

datatype account_event = Call call account_op | Sign_in int int string bool callback

definition account_call :: "auth_config \<Rightarrow> request \<Rightarrow> account_op \<Rightarrow> accounts \<Rightarrow> response \<times> accounts" where
  "account_call cfg rq op st =
     (case op of
        Create_user i body \<Rightarrow> customers_POST i rq body st
      | Change_user m path body \<Rightarrow> customerByID rq m path body st
      | New_key i key prefix body \<Rightarrow> apiKeys_POST cfg i key prefix rq body st
      | Drop_key m i \<Rightarrow> apiKeyByID rq m i st)"

definition request_of :: "principal \<Rightarrow> call \<Rightarrow> request" where
  "request_of p ca = \<lparr>rq_principal = p, rq_ip = ca_ip ca, rq_now = ca_now ca, rq_audit_up = ca_audit_up ca\<rparr>"

definition account_step :: "auth_config \<Rightarrow> account_event \<Rightarrow> accounts \<Rightarrow> response \<times> accounts" where
  "account_step cfg e st =
     (case e of
        Call ca op \<Rightarrow>
          (case withAuth cfg (ca_now ca) (ca_credentials ca) st of None \<Rightarrow> (Status 401, st)
           | Some p \<Rightarrow> account_call cfg (request_of p ca) op st)
      | Sign_in i now ip up cb \<Rightarrow>
          (case microsoftCallback cfg i now ip up cb st of (r, c, st') \<Rightarrow> (r, st')))"

fun account_run :: "auth_config \<Rightarrow> account_event list \<Rightarrow> accounts \<Rightarrow> accounts" where
  "account_run cfg [] st = st"
| "account_run cfg (e # es) st = account_run cfg es (snd (account_step cfg e st))"

section \<open>What the operations do to the tables\<close>

lemma set_users_simps [simp]:
  "ac_users (set_users us st) = us" "ac_keys (set_users us st) = ac_keys st" "ac_tenants (set_users us st) = ac_tenants st"
  by (simp_all add: ac_users_def set_users_def)

lemma keys_update_simps [simp]:
  "ac_users (st\<lparr>ac_keys := ks\<rparr>) = ac_users st"
  by (simp add: ac_users_def)

lemma audit_success_keeps:
  "audit_success rq a t i st = Some st' \<Longrightarrow> ac_users st' = ac_users st \<and> ac_keys st' = ac_keys st"
  by (auto simp: audit_success_def audit_cases ac_users_def split: if_splits)

lemma answered_keeps [simp]:
  "ac_users (snd (answered ok (audit_success rq a t i st) st)) = ac_users st"
  "ac_keys (snd (answered ok (audit_success rq a t i st) st)) = ac_keys st"
  by (auto simp: answered_def audit_success_keeps split: option.splits)

lemma answered_tables:
  "answered ok (audit_success rq a t i st) st = (r, st') \<Longrightarrow> ac_users st' = ac_users st \<and> ac_keys st' = ac_keys st"
  using answered_keeps [of ok rq a t i st] by simp

lemma createUser_Inr:
  assumes "createUser i now email name role tid st = Inr st'"
  obtains u where "ac_users st' = ac_users st @ [u]" "ac_keys st' = ac_keys st" "u_id u = i" "u_tenant_id u = tid"
    "u_email u = lower email" "u_role u = (if role = [] then ''customer'' else role)" "u_active u" "\<not> u_deletion_access u"
    "i \<notin> u_id ` set (ac_users st)" "lower email \<notin> u_email ` set (ac_users st)"
proof -
  note created = assms [unfolded createUser_def Let_def]
  show ?thesis
    by (rule that [of "\<lparr>u_id = i, u_tenant_id = tid, u_email = lower email, u_name = name,
        u_role = (if role = [] then ''customer'' else role), u_deletion_access = False, u_active = True, u_created_at = now\<rparr>"])
      (use created in \<open>auto split: if_splits\<close>)
qed

definition switched :: "user \<Rightarrow> user \<Rightarrow> bool" where
  \<comment> \<open>the same account, but for its activation and its deletion access\<close>
  "switched u u' \<longleftrightarrow> u' = u\<lparr>u_active := u_active u', u_deletion_access := u_deletion_access u'\<rparr>"

lemma switched_refl [simp]: "switched u u"
  by (simp add: switched_def)

lemma switched_changes [simp]: "switched u (u\<lparr>u_active := b\<rparr>)" "switched u (u\<lparr>u_deletion_access := b\<rparr>)"
  by (simp_all add: switched_def)

lemma list_all2_switched_refl: "list_all2 switched us us"
  by (simp add: list_all2_same)

lemma setUserActive_users: "list_all2 switched (ac_users st) (ac_users (snd (setUserActive now i b st)))"
  by (auto simp: setUserActive_def Let_def list_all2_conv_all_nth)

lemma setUserDeletionAccess_users: "list_all2 switched (ac_users st) (ac_users (snd (setUserDeletionAccess i b st)))"
  by (auto simp: setUserDeletionAccess_def Let_def list_all2_conv_all_nth)

text \<open>A handler either leaves the tables or carries out its one change.\<close>

lemma change_user_effect:
  assumes "change_user rq suffix action change path body st = (r, st')"
  shows "ac_users st' = ac_users st \<and> ac_keys st' = ac_keys st \<or>
    (\<exists>i v. user_path_id suffix path = Some i \<and> body = Decoded v \<and> ac_users st' = ac_users (snd (change i v st)) \<and>
       ac_keys st' = ac_keys (snd (change i v st)))"
proof -
  have "st' = snd (change_user rq suffix action change path body st)" using assms by simp
  then show ?thesis
    by (auto simp: change_user_def split: option.split decoded.split prod.split)
qed

lemma customerByID_effect:
  assumes "customerByID rq m path body st = (r, st')"
  shows "ac_users st' = ac_users st \<and> ac_keys st' = ac_keys st \<or>
    u_role (pr_effective (rq_principal rq)) = ''superadmin'' \<and>
    (\<exists>i v. ac_users st' = ac_users (snd (setUserActive (rq_now rq) i v st)) \<and>
             ac_keys st' = ac_keys (snd (setUserActive (rq_now rq) i v st)) \<or>
           ac_users st' = ac_users (snd (setUserDeletionAccess i v st)) \<and> ac_keys st' = ac_keys (snd (setUserDeletionAccess i v st)))"
  using assms by (auto simp: customerByID_def split: if_splits dest!: change_user_effect)

lemma customers_POST_effect:
  assumes "customers_POST i rq body st = (r, st')"
  shows "ac_users st' = ac_users st \<and> ac_keys st' = ac_keys st \<or>
    u_role (pr_effective (rq_principal rq)) \<noteq> ''customer'' \<and> ac_keys st' = ac_keys st \<and>
    (\<exists>u. ac_users st' = ac_users st @ [u] \<and> u_role u \<in> {''customer'', ''tenant''} \<and> \<not> u_deletion_access u \<and>
       (u_role (pr_effective (rq_principal rq)) = ''tenant'' \<longrightarrow>
          u_role u = ''customer'' \<and> u_tenant_id u = u_tenant_id (pr_effective (rq_principal rq))))"
proof -
  let ?u = "pr_effective (rq_principal rq)"
  have unchanged: ?thesis if "st' = st" using that by simp
  consider nu where "body = Decoded nu" | "st' = st"
    using assms by (cases body) (auto simp: customers_POST_def Let_def split: if_splits)
  then show ?thesis
  proof cases
    case (1 nu)
    define role where "role = (if u_role ?u = ''tenant'' then ''customer'' else if nu_role nu = [] then ''customer'' else nu_role nu)"
    define tid where "tid = (if u_role ?u = ''tenant'' then u_tenant_id ?u else nu_tenant_id nu)"
    note run = assms [unfolded 1 customers_POST_def Let_def decoded.case, folded role_def tid_def]
    consider (off) "st' = st" | (on) st1 where "u_role ?u \<noteq> ''customer''" "role \<in> {''customer'', ''tenant''}"
      "createUser i (rq_now rq) (nu_email nu) (nu_name nu) role tid st = Inr st1"
      "ac_users st' = ac_users st1" "ac_keys st' = ac_keys st1"
    proof (cases "createUser i (rq_now rq) (nu_email nu) (nu_name nu) role tid st")
      case (Inl e)
      with run off show thesis by (simp split: if_splits)
    next
      case (Inr st1)
      with run have "st' = st \<or> u_role ?u \<noteq> ''customer'' \<and> role \<in> {''customer'', ''tenant''} \<and>
          ac_users st' = ac_users st1 \<and> ac_keys st' = ac_keys st1"
        by (simp split: if_splits) (auto dest: answered_tables)
      with Inr off on show thesis by blast
    qed
    then show ?thesis
    proof cases
      case off
      then show ?thesis by (rule unchanged)
    next
      case (on st1)
      from on(3) obtain u where "ac_users st1 = ac_users st @ [u]" "ac_keys st1 = ac_keys st" "u_tenant_id u = tid"
        "u_role u = (if role = [] then ''customer'' else role)" "\<not> u_deletion_access u"
        by (rule createUser_Inr)
      with on show ?thesis by (auto simp: role_def tid_def split: if_splits)
    qed
  qed (rule unchanged)
qed

lemma revokeAPIKey_users [simp]: "revokeAPIKey now uid i scope st = Some st' \<Longrightarrow> ac_users st' = ac_users st"
  by (auto simp: revokeAPIKey_def Let_def split: if_splits)

lemma createAPIKey_users [simp]: "createAPIKey i now uid name h p scope st = Inr st' \<Longrightarrow> ac_users st' = ac_users st"
  by (auto simp: createAPIKey_def Let_def split: if_splits)

lemma apiKeys_POST_users: "ac_users (snd (apiKeys_POST cfg i key prefix rq body st)) = ac_users st"
  by (auto simp: apiKeys_POST_def Let_def audit_success_keeps split: decoded.split sum.split option.split)

lemma requireDelete_keeps:
  "requireDelete rq a t i (ac_server st) = (x, sv) \<Longrightarrow> ac_users (st\<lparr>ac_server := sv\<rparr>) = ac_users st"
  by (auto simp: requireDelete_def audit_cases ac_users_def split: if_splits)

lemma apiKeyByID_users: "ac_users (snd (apiKeyByID rq m i st)) = ac_users st"
  by (auto simp: apiKeyByID_def Let_def dest!: requireDelete_keeps split: option.split prod.split)

lemma ensureSSOUser_effect:
  assumes "ensureSSOUser i now email name st = Some (u, st')"
  shows "st' = st \<or> ac_keys st' = ac_keys st \<and>
    (\<exists>u. ac_users st' = ac_users st @ [u] \<and> u_role u = ''customer'' \<and> \<not> u_deletion_access u \<and> u_email u = lower email)"
proof (cases "userByEmail st email")
  case (Some a)
  with assms show ?thesis by (simp add: ensureSSOUser_def)
next
  case None
  obtain t :: tenant where "createUser i now email (if trim name = [] then email else name) ''customer'' (Some (t_id t)) st = Inr st'"
    using assms None unfolding ensureSSOUser_def by (auto split: option.splits sum.splits)
  then show ?thesis by (rule createUser_Inr) auto
qed

lemma lower_idem [simp]: "lower (lower s) = lower s"
proof -
  have "lower_char (lower_char c) = lower_char c" for c
    by (simp add: lower_char_def)
  then show ?thesis by (simp add: lower_def)
qed

lemma callback_email_lower [simp]: "lower (callback_email c) = callback_email c"
  by (simp add: callback_email_def Let_def)

lemma microsoftCallback_effect:
  assumes "microsoftCallback cfg i now ip up cb st = (r, c, st')"
  shows "ac_keys st' = ac_keys st \<and> (ac_users st' = ac_users st \<or>
    (\<exists>u. ac_users st' = ac_users st @ [u] \<and> u_role u = ''customer'' \<and> \<not> u_deletion_access u \<and> allowedMicrosoftUser cfg (u_email u)))"
proof (cases "st' = st")
  case False
  then obtain c1 where tok: "cb_token cb = Inr c1"
    using assms by (cases "cb_token cb") (auto simp: microsoftCallback_def split: if_splits)
  note run = assms [unfolded microsoftCallback_def tok sum.case Let_def]
  with False have allowed: "allowedMicrosoftUser cfg (callback_email c1)" by (auto split: if_splits)
  from run False obtain u st1 where ens: "ensureSSOUser i now (callback_email c1) (sc_name c1) st = Some (u, st1)"
    and tables: "ac_users st' = ac_users st1 \<and> ac_keys st' = ac_keys st1"
    by (auto split: if_splits option.splits dest!: audit_success_keeps)
  show ?thesis using ensureSSOUser_effect [OF ens] tables allowed by auto
qed simp

section \<open>Who a request acts as\<close>

lemma find_in: "find P xs = Some x \<Longrightarrow> x \<in> set xs \<and> P x"
  by (auto simp: find_Some_iff)

lemma userByID_in: "userByID st i = Some u \<Longrightarrow> u \<in> set (ac_users st) \<and> u_id u = i"
  by (auto simp: userByID_def dest: find_in)

lemma userByAPIKey_in: "userByAPIKey st h = Some (u, scope) \<Longrightarrow> u \<in> set (ac_users st) \<and> u_active u"
  by (auto simp: userByAPIKey_def split: option.splits dest: find_in)

definition acts_for :: "accounts \<Rightarrow> principal \<Rightarrow> bool" where
  \<comment> \<open>an active account of the table, in a mode it may have\<close>
  "acts_for st p \<longleftrightarrow> pr_actual p \<in> set (ac_users st) \<and> u_active (pr_actual p) \<and> (\<exists>m t. p = effectivePrincipal (pr_actual p) m t)"

lemma acts_for_effective [intro]: "u \<in> set (ac_users st) \<Longrightarrow> u_active u \<Longrightarrow> acts_for st (effectivePrincipal u m t)"
  by (auto simp: acts_for_def)

lemma userFromSession_user: "userFromSession cfg now cr st = Some p \<Longrightarrow> acts_for st p"
  by (auto simp: userFromSession_def split: option.splits if_splits dest!: userByID_in)

lemma withAuth_user:
  assumes "withAuth cfg now cr st = Some p"
  shows "acts_for st p"
proof (cases "apiKeyFromRequest cr = []")
  case False
  show ?thesis
  proof (cases "userByAPIKey st (au_hash cfg (apiKeyFromRequest cr))")
    case None
    with assms False show ?thesis by (simp add: withAuth_def)
  next
    case (Some q)
    obtain u scope where q: "q = (u, scope)" by (cases q)
    have "p = effectivePrincipal u (if scope = ''user'' then ''user'' else defaultDashboardMode u) ''api_key''"
      using assms False Some unfolding q withAuth_def by (cases "u_active u \<and> allowedMicrosoftUser cfg (u_email u)") simp_all
    then show ?thesis using userByAPIKey_in [OF Some [unfolded q]] by (simp add: acts_for_effective)
  qed
next
  case True
  note auth = assms [unfolded withAuth_def True, simplified]
  show ?thesis
  proof (cases "userFromSession cfg now cr st")
    case (Some q)
    with auth show ?thesis by (auto dest: userFromSession_user)
  next
    case None
    with auth show ?thesis by (auto split: option.splits if_splits dest!: userByID_in)
  qed
qed

lemma effective_admin:
  "u_role (pr_effective (effectivePrincipal a m t)) \<noteq> ''customer'' \<Longrightarrow>
     pr_mode (effectivePrincipal a m t) = ''admin'' \<and> pr_effective (effectivePrincipal a m t) = a"
  by (cases "canSwitchMode a"; cases "m = ''admin''"; cases "m = ''user''")
    (simp_all add: effectivePrincipal_def Let_def defaultDashboardMode_def)

lemma acts_for_admin:
  "acts_for st p \<Longrightarrow> u_role (pr_effective p) \<noteq> ''customer'' \<Longrightarrow> pr_mode p = ''admin'' \<and> pr_effective p = pr_actual p"
  unfolding acts_for_def by (elim conjE exE) (metis effective_admin)

section \<open>Who can change rights\<close>

definition authorised :: "auth_config \<Rightarrow> account_event \<Rightarrow> accounts \<Rightarrow> principal \<Rightarrow> bool" where
  \<comment> \<open>the request acts in Admin mode, for an active account of the table that may\<close>
  "authorised cfg e st p \<longleftrightarrow>
     (\<exists>ca op. e = Call ca op \<and> withAuth cfg (ca_now ca) (ca_credentials ca) st = Some p) \<and>
     acts_for st p \<and> pr_mode p = ''admin'' \<and> pr_effective p = pr_actual p"

definition superadmins :: "accounts \<Rightarrow> (int \<times> string) list" where
  "superadmins st = map (\<lambda>u. (u_id u, u_email u)) (filter (\<lambda>u. u_role u = ''superadmin'') (ac_users st))"

definition may_add :: "auth_config \<Rightarrow> account_event \<Rightarrow> accounts \<Rightarrow> user \<Rightarrow> bool" where
  "may_add cfg e st u \<longleftrightarrow> u_role u \<in> {''customer'', ''tenant''} \<and> \<not> u_deletion_access u \<and>
     ((\<exists>i now ip up cb. e = Sign_in i now ip up cb) \<and> u_role u = ''customer'' \<and> allowedMicrosoftUser cfg (u_email u) \<or>
      (\<exists>p. authorised cfg e st p \<and> u_role (pr_actual p) \<noteq> ''customer'' \<and>
         (u_role (pr_actual p) = ''tenant'' \<longrightarrow> u_role u = ''customer'' \<and> u_tenant_id u = u_tenant_id (pr_actual p))))"

definition step_allowed :: "auth_config \<Rightarrow> account_event \<Rightarrow> accounts \<Rightarrow> user list \<Rightarrow> bool" where
  "step_allowed cfg e st us' \<longleftrightarrow>
     (\<exists>us news. us' = us @ news \<and> list_all2 switched (ac_users st) us \<and>
        (us = ac_users st \<or> (\<exists>p. authorised cfg e st p \<and> u_role (pr_actual p) = ''superadmin'')) \<and>
        (\<forall>u \<in> set news. may_add cfg e st u))"

lemma step_allowed_same [simp]: "step_allowed cfg e st (ac_users st)"
  unfolding step_allowed_def by (rule exI [of _ "ac_users st"], rule exI [of _ "[]"]) (simp add: list_all2_switched_refl)

lemma step_allowed_add: "may_add cfg e st u \<Longrightarrow> step_allowed cfg e st (ac_users st @ [u])"
  unfolding step_allowed_def by (rule exI [of _ "ac_users st"], rule exI [of _ "[u]"]) (simp add: list_all2_switched_refl)

lemma step_allowed_switch:
  "authorised cfg e st p \<Longrightarrow> u_role (pr_actual p) = ''superadmin'' \<Longrightarrow> list_all2 switched (ac_users st) us \<Longrightarrow> step_allowed cfg e st us"
  unfolding step_allowed_def by (rule exI [of _ us], rule exI [of _ "[]"]) auto

lemma account_call_allowed:
  assumes auth: "withAuth cfg (ca_now ca) (ca_credentials ca) st = Some p"
  shows "step_allowed cfg (Call ca op) st (ac_users (snd (account_call cfg (request_of p ca) op st)))"
proof -
  note acts = withAuth_user [OF auth]
  have admin: "authorised cfg (Call ca op) st p" if "u_role (pr_effective p) \<noteq> ''customer''"
    using acts_for_admin [OF acts that] acts auth by (auto simp: authorised_def)
  have same: "pr_effective p = pr_actual p" if "u_role (pr_effective p) \<noteq> ''customer''"
    using acts_for_admin [OF acts that] by simp
  have p: "rq_principal (request_of p ca) = p" by (simp add: request_of_def)
  show ?thesis
  proof (cases op)
    case (Create_user i body)
    obtain r st' where c: "customers_POST i (request_of p ca) body st = (r, st')" by fastforce
    from customers_POST_effect [OF c] show ?thesis
    proof (elim disjE conjE exE)
      fix u
      assume a: "u_role (pr_effective (rq_principal (request_of p ca))) \<noteq> ''customer''" "ac_users st' = ac_users st @ [u]"
        "u_role u \<in> {''customer'', ''tenant''}" "\<not> u_deletion_access u"
        "u_role (pr_effective (rq_principal (request_of p ca))) = ''tenant'' \<longrightarrow>
          u_role u = ''customer'' \<and> u_tenant_id u = u_tenant_id (pr_effective (rq_principal (request_of p ca)))"
      then have "may_add cfg (Call ca op) st u"
        using admin same unfolding may_add_def p by metis
      with a(2) c show ?thesis by (simp add: account_call_def Create_user step_allowed_add)
    qed (simp add: account_call_def Create_user c)
  next
    case (Change_user m path body)
    obtain r st' where c: "customerByID (request_of p ca) m path body st = (r, st')" by fastforce
    from customerByID_effect [OF c] have "ac_users st' = ac_users st \<or>
        u_role (pr_effective p) = ''superadmin'' \<and> list_all2 switched (ac_users st) (ac_users st')"
      unfolding p using setUserActive_users setUserDeletionAccess_users by (elim disjE conjE exE) simp_all
    then show ?thesis
    proof (elim disjE conjE)
      assume r: "u_role (pr_effective p) = ''superadmin''" and l: "list_all2 switched (ac_users st) (ac_users st')"
      then have "authorised cfg (Call ca op) st p" "u_role (pr_actual p) = ''superadmin''" using admin same by auto
      with l c show ?thesis by (simp add: account_call_def Change_user step_allowed_switch)
    qed (simp add: account_call_def Change_user c)
  next
    case (New_key i key prefix body)
    then show ?thesis by (simp add: account_call_def apiKeys_POST_users)
  next
    case (Drop_key m i)
    then show ?thesis by (simp add: account_call_def apiKeyByID_users)
  qed
qed

lemma account_step_allowed: "step_allowed cfg e st (ac_users (snd (account_step cfg e st)))"
proof (cases e)
  case (Call ca op)
  then show ?thesis
    by (cases "withAuth cfg (ca_now ca) (ca_credentials ca) st")
      (simp_all add: account_step_def account_call_allowed)
next
  case (Sign_in i now ip up cb)
  obtain r c st' where m: "microsoftCallback cfg i now ip up cb st = (r, c, st')" by (metis prod_cases3)
  from microsoftCallback_effect [OF m] show ?thesis
  proof (elim conjE disjE exE)
    fix u
    assume u: "ac_users st' = ac_users st @ [u]" "u_role u = ''customer''" "\<not> u_deletion_access u" "allowedMicrosoftUser cfg (u_email u)"
    then have "may_add cfg e st u" by (auto simp: may_add_def Sign_in)
    with u(1) m show ?thesis by (simp add: account_step_def Sign_in step_allowed_add)
  qed (simp add: account_step_def Sign_in m)
qed

lemma switched_superadmins:
  "list_all2 switched us us' \<Longrightarrow>
   map (\<lambda>u. (u_id u, u_email u)) (filter (\<lambda>u. u_role u = ''superadmin'') us') =
   map (\<lambda>u. (u_id u, u_email u)) (filter (\<lambda>u. u_role u = ''superadmin'') us)"
proof (induction rule: list_all2_induct)
  case (Cons u us u' us')
  then have "u_role u' = u_role u" "u_id u' = u_id u" "u_email u' = u_email u"
    unfolding switched_def by (metis user.select_convs(1,3,5) user.update_convs(6,7) user.surjective)+
  with Cons show ?case by simp
qed simp

lemma account_step_superadmins: "superadmins (snd (account_step cfg e st)) = superadmins st"
proof -
  obtain us news where s: "ac_users (snd (account_step cfg e st)) = us @ news" "list_all2 switched (ac_users st) us"
    "\<forall>u \<in> set news. may_add cfg e st u"
    using account_step_allowed [of cfg e st] unfolding step_allowed_def by blast
  then have "filter (\<lambda>u. u_role u = ''superadmin'') news = []"
    by (auto simp: filter_empty_conv may_add_def)
  then show ?thesis using switched_superadmins [OF s(2)] by (simp add: superadmins_def s(1))
qed

lemma account_run_superadmins: "superadmins (account_run cfg es st) = superadmins st"
  by (induction es arbitrary: st) (simp_all add: account_step_superadmins)

section \<open>Revoked keys\<close>

definition keys_ok :: "accounts \<Rightarrow> bool" where
  \<comment> \<open>the primary key and the unique column of \<open>api_keys\<close>\<close>
  "keys_ok st \<longleftrightarrow> distinct (map kr_id (ac_keys st)) \<and> distinct (map kr_hash (ac_keys st))"

definition dead :: "string \<Rightarrow> accounts \<Rightarrow> bool" where
  "dead h st \<longleftrightarrow> keys_ok st \<and> (\<exists>k \<in> set (ac_keys st). kr_hash k = h \<and> kr_revoked_at k \<noteq> None)"

lemma dead_cong: "ac_keys st' = ac_keys st \<Longrightarrow> dead h st' = dead h st"
  by (simp add: dead_def keys_ok_def)

lemma dead_refused:
  assumes "dead h st"
  shows "userByAPIKey st h = None"
proof -
  obtain k where k: "k \<in> set (ac_keys st)" "kr_hash k = h" "kr_revoked_at k \<noteq> None" and d: "inj_on kr_hash (set (ac_keys st))"
    using assms by (auto simp: dead_def keys_ok_def distinct_map)
  have "\<not> (kr_hash k' = h \<and> kr_revoked_at k' = None)" if "k' \<in> set (ac_keys st)" for k'
    using inj_onD [OF d _ that k(1)] k by auto
  then have "find (\<lambda>k. kr_hash k = h \<and> kr_revoked_at k = None) (ac_keys st) = None"
    by (auto simp: find_None_iff)
  then show ?thesis by (simp add: userByAPIKey_def)
qed

lemma dead_map:
  assumes d: "dead h st" and ks: "ac_keys st' = map f (ac_keys st)"
    and f: "\<And>k. kr_id (f k) = kr_id k \<and> kr_hash (f k) = kr_hash k \<and> (kr_revoked_at k \<noteq> None \<longrightarrow> kr_revoked_at (f k) \<noteq> None)"
  shows "dead h st'"
proof -
  have "map kr_id (ac_keys st') = map kr_id (ac_keys st)" "map kr_hash (ac_keys st') = map kr_hash (ac_keys st)"
    using f by (simp_all add: ks)
  with d f show ?thesis unfolding dead_def keys_ok_def ks by (metis imageI list.set_map)
qed

lemma dead_setUserActive: "dead h st \<Longrightarrow> dead h (snd (setUserActive now i b st))"
  by (rule dead_map [where f = "\<lambda>k. if b = False \<and> i \<in> u_id ` set (ac_users st) \<and> kr_user_id k = i \<and> kr_revoked_at k = None
        then k\<lparr>kr_revoked_at := Some now\<rparr> else k"]) (auto simp: setUserActive_def Let_def cong: map_cong)

lemma dead_setUserDeletionAccess: "dead h st \<Longrightarrow> dead h (snd (setUserDeletionAccess i b st))"
  by (simp add: setUserDeletionAccess_def Let_def dead_def keys_ok_def)

lemma dead_revoke: "revokeAPIKey now uid i scope st = Some st' \<Longrightarrow> dead h st \<Longrightarrow> dead h st'"
  by (rule dead_map [where f = "\<lambda>k. if kr_id k = i \<and> kr_user_id k = uid \<and> (scope = ''user'' \<longrightarrow> kr_scope k = ''user'')
        then k\<lparr>kr_revoked_at := Some now\<rparr> else k"]) (auto simp: revokeAPIKey_def Let_def split: if_splits)

lemma createAPIKey_Inr:
  assumes "createAPIKey i now uid name h' p scope st = Inr st'"
  obtains row where "ac_keys st' = ac_keys st @ [row]" "kr_id row \<notin> kr_id ` set (ac_keys st)" "kr_hash row \<notin> kr_hash ` set (ac_keys st)"
proof -
  define row where "row = key_insert i now uid name h' p (if scope \<noteq> ''user'' then ''account'' else scope)"
  have row: "kr_id row = i" "kr_hash row = h'" by (simp_all add: row_def key_insert_def)
  note created = assms [unfolded createAPIKey_def Let_def, folded row_def]
  then have new: "\<not> (i \<in> kr_id ` set (ac_keys st) \<or> h' \<in> kr_hash ` set (ac_keys st))" by (metis Inl_Inr_False)
  with created have "\<not> (runes name > 120 \<or> uid \<notin> u_id ` set (ac_users st))" by (metis Inl_Inr_False)
  with created new have "st\<lparr>ac_keys := ac_keys st @ [row]\<rparr> = st'" by (simp only: if_False sum.inject)
  then have "ac_keys st' = ac_keys st @ [row]" by force
  then show ?thesis by (rule that) (use new row in blast)+
qed

lemma dead_create: 
  assumes "createAPIKey i now uid name h' p scope st = Inr st'" and "dead h st"
  shows "dead h st'"
  using assms(1) by (rule createAPIKey_Inr) (use assms(2) in \<open>auto simp: dead_def keys_ok_def\<close>)

lemma dead_apiKeys_POST: 
  assumes "dead h st"
  shows "dead h (snd (apiKeys_POST cfg i key prefix rq body st))"
proof -
  have logged: "dead h st''" if "audit_success rq a t n st' = Some st''" "dead h st'" for a t n st' st''
    using that audit_success_keeps dead_cong by blast
  have all_ways: "dead h (snd (case createAPIKey i now uid name h' prefix scope st of Inl e \<Rightarrow> (Status 500, st)
      | Inr st' \<Rightarrow> (case audit_success rq a t n st' of
          None \<Rightarrow> (Status 500, case revokeAPIKey now uid i scope st' of None \<Rightarrow> st' | Some st'' \<Rightarrow> st'')
        | Some st'' \<Rightarrow> (Status 201, st''))))" for now uid name h' scope a t n
    using assms by (simp add: dead_create dead_revoke logged split: sum.split option.split)
  show ?thesis
    using assms all_ways unfolding apiKeys_POST_def Let_def by (simp split: decoded.split)
qed

lemma requireDelete_keys:
  "requireDelete rq a t i (ac_server st) = (x, sv) \<Longrightarrow> ac_keys (st\<lparr>ac_server := sv\<rparr>) = ac_keys st"
  by simp

lemma dead_apiKeyByID:
  assumes "dead h st"
  shows "dead h (snd (apiKeyByID rq m i st))"
proof -
  have d: "dead h (st\<lparr>ac_server := sv\<rparr>)" for sv using assms by (simp add: dead_def keys_ok_def)
  have e: "dead h (snd (answered ok (audit_success rq a t n st2) st2))" if "dead h st2" for ok a t n st2
    using that dead_cong [OF answered_keeps(2)] by blast
  show ?thesis
    using d assms by (auto simp: apiKeyByID_def Let_def intro!: e intro: dead_revoke split: option.split prod.split)
qed

lemma dead_step: "dead h st \<Longrightarrow> dead h (snd (account_step cfg e st))"
proof (cases e)
  case (Sign_in i now ip up cb)
  assume d: "dead h st"
  obtain r c st' where m: "microsoftCallback cfg i now ip up cb st = (r, c, st')" by (metis prod_cases3)
  then show ?thesis
    using dead_cong [of st' st] microsoftCallback_effect [OF m] d by (simp add: account_step_def Sign_in)
next
  case (Call ca op)
  assume d: "dead h st"
  show ?thesis
  proof (cases "withAuth cfg (ca_now ca) (ca_credentials ca) st")
    case None
    with d show ?thesis by (simp add: account_step_def Call)
  next
    case (Some p)
    have "dead h (snd (account_call cfg (request_of p ca) op st))"
    proof (cases op)
      case (Create_user i body)
      obtain r st' where c: "customers_POST i (request_of p ca) body st = (r, st')" by fastforce
      then show ?thesis
        using customers_POST_effect [OF c] dead_cong [of st' st] d by (auto simp: account_call_def Create_user)
    next
      case (Change_user m path body)
      obtain r st' where c: "customerByID (request_of p ca) m path body st = (r, st')" by fastforce
      from customerByID_effect [OF c] have "dead h st'"
        by (elim disjE conjE exE)
          (simp_all add: d dead_setUserActive [OF d] dead_setUserDeletionAccess [OF d] dead_cong [of st' st]
             dead_cong [of st' "snd (setUserActive _ _ _ st)"] dead_cong [of st' "snd (setUserDeletionAccess _ _ st)"])
      with c show ?thesis by (simp add: account_call_def Change_user)
    next
      case (New_key i key prefix body)
      then show ?thesis using d by (simp add: account_call_def dead_apiKeys_POST)
    next
      case (Drop_key m i)
      then show ?thesis using d by (simp add: account_call_def dead_apiKeyByID)
    qed
    with Some show ?thesis by (simp add: account_step_def Call)
  qed
qed

lemma dead_run: "dead h st \<Longrightarrow> dead h (account_run cfg es st)"
  by (induction es arbitrary: st) (simp_all add: dead_step)

lemma setUserActive_found:
  assumes "i \<in> u_id ` set (ac_users st)"
  shows "ac_users (snd (setUserActive now i b st)) = map (\<lambda>u. if u_id u = i then u\<lparr>u_active := b\<rparr> else u) (ac_users st)"
    and "\<not> b \<Longrightarrow> ac_keys (snd (setUserActive now i b st)) =
           map (\<lambda>k. if kr_user_id k = i \<and> kr_revoked_at k = None then k\<lparr>kr_revoked_at := Some now\<rparr> else k) (ac_keys st)"
  using assms by (auto simp: setUserActive_def Let_def)

lemma deactivated:
  assumes "customerByID rq ''PATCH'' path (Decoded False) st = (Status 200, st1)"
    and "has_suffix ''/active'' path" "user_path_id ''/active'' path = Some i"
  shows "i \<in> u_id ` set (ac_users st) \<and> ac_users st1 = ac_users (snd (setUserActive (rq_now rq) i False st)) \<and>
    ac_keys st1 = ac_keys (snd (setUserActive (rq_now rq) i False st))"
proof -
  have run: "change_user rq ''/active'' ''user.active_changed'' (setUserActive (rq_now rq)) path (Decoded False) st = (Status 200, st1)"
    using assms by (simp add: customerByID_def split: if_split_asm)
  obtain x st2 where c: "setUserActive (rq_now rq) i False st = (x, st2)" by fastforce
  obtain u where u: "userByID st i = Some u"
    using run assms(3) by (cases "userByID st i") (simp_all add: change_user_def)
  have "i \<in> u_id ` set (ac_users st)" using userByID_in [OF u] by auto
  moreover from run u c assms(3) have "ac_users st1 = ac_users st2 \<and> ac_keys st1 = ac_keys st2"
    by (cases x) (auto simp: change_user_def dest: answered_tables)
  ultimately show ?thesis by (simp add: c)
qed

lemma keys_mapped:
  assumes ok: "keys_ok st" and k: "k \<in> set (ac_keys st)" and ks: "ac_keys st' = map f (ac_keys st)"
    and f: "\<And>k. kr_id (f k) = kr_id k \<and> kr_hash (f k) = kr_hash k" and r: "kr_revoked_at (f k) \<noteq> None"
  shows "dead (kr_hash k) st'"
proof -
  have "map kr_id (ac_keys st') = map kr_id (ac_keys st)" "map kr_hash (ac_keys st') = map kr_hash (ac_keys st)"
    using f by (simp_all add: ks)
  then have "keys_ok st'" using ok by (simp add: keys_ok_def)
  moreover have "f k \<in> set (ac_keys st')" using k by (simp add: ks)
  ultimately show ?thesis using f r unfolding dead_def by blast
qed

lemma deactivation_kills:
  assumes "keys_ok st" "k \<in> set (ac_keys st)" "kr_user_id k \<in> u_id ` set (ac_users st)"
  shows "dead (kr_hash k) (snd (setUserActive now (kr_user_id k) False st))"
  by (rule keys_mapped [OF assms(1,2) setUserActive_found(2) [OF assms(3)]]) simp_all

lemma revocation_kills:
  assumes ok: "keys_ok st" and k: "k \<in> set (ac_keys st)" and r: "revokeAPIKey now uid (kr_id k) scope st = Some st'"
  shows "dead (kr_hash k) st'"
proof -
  define hit where "hit = (\<lambda>k' :: api_key_row. kr_id k' = kr_id k \<and> kr_user_id k' = uid \<and> (scope = ''user'' \<longrightarrow> kr_scope k' = ''user''))"
  note run = r [unfolded revokeAPIKey_def Let_def, folded hit_def]
  then have some: "filter hit (ac_keys st) \<noteq> []" by (metis option.distinct(1))
  with run have "st\<lparr>ac_keys := map (\<lambda>k'. if hit k' then k'\<lparr>kr_revoked_at := Some now\<rparr> else k') (ac_keys st)\<rparr> = st'"
    by (simp only: hit_def if_False option.inject)
  then have ks: "ac_keys st' = map (\<lambda>k'. if hit k' then k'\<lparr>kr_revoked_at := Some now\<rparr> else k') (ac_keys st)" by force
  obtain k' where k': "k' \<in> set (ac_keys st)" "hit k'" using some by (auto simp: filter_empty_conv)
  then have "kr_id k' = kr_id k" by (simp add: hit_def)
  with k' k ok have "k' = k" unfolding keys_ok_def distinct_map by (blast dest: inj_onD)
  with k' show ?thesis by (intro keys_mapped [OF ok k ks]) simp_all
qed

lemma dropped:
  assumes "apiKeyByID rq ''DELETE'' i st = (Status 204, st1)"
  shows "\<exists>sv uid scope st2. revokeAPIKey (rq_now rq) uid i scope (st\<lparr>ac_server := sv\<rparr>) = Some st2 \<and> ac_keys st1 = ac_keys st2"
proof -
  obtain x sv where d: "requireDelete rq ''api_key.revoked'' ''api_key'' (int_text i) (ac_server st) = (x, sv)" by fastforce
  have "x = None"
    using assms d by (cases x) (auto simp: apiKeyByID_def requireDelete_def audit_cases split: if_splits)
  with assms d show ?thesis
    by (auto simp: apiKeyByID_def Let_def split: option.splits dest!: answered_tables)
qed

definition takes_back :: "api_key_row \<Rightarrow> account_op \<Rightarrow> response \<Rightarrow> bool" where
  \<comment> \<open>its owner is deactivated, or the key is deleted\<close>
  "takes_back k op r \<longleftrightarrow>
     (\<exists>path. op = Change_user ''PATCH'' path (Decoded False) \<and> has_suffix ''/active'' path \<and>
        user_path_id ''/active'' path = Some (kr_user_id k) \<and> r = Status 200) \<or>
     op = Drop_key ''DELETE'' (kr_id k) \<and> r = Status 204"

lemma takes_back_kills:
  assumes ok: "keys_ok st" and k: "k \<in> set (ac_keys st)"
    and step: "account_step cfg (Call ca op) st = (r, st1)" and gone: "takes_back k op r"
  shows "dead (kr_hash k) st1"
proof -
  have "r \<noteq> Status 401" using gone by (auto simp: takes_back_def)
  then obtain p where call: "account_call cfg (request_of p ca) op st = (r, st1)"
    using step by (cases "withAuth cfg (ca_now ca) (ca_credentials ca) st") (auto simp: account_step_def)
  from gone show ?thesis unfolding takes_back_def
  proof (elim disjE exE conjE)
    fix path
    assume "op = Change_user ''PATCH'' path (Decoded False)" "has_suffix ''/active'' path"
      "user_path_id ''/active'' path = Some (kr_user_id k)" "r = Status 200"
    with call have "customerByID (request_of p ca) ''PATCH'' path (Decoded False) st = (Status 200, st1)"
      by (simp add: account_call_def)
    from deactivated [OF this \<open>has_suffix _ _\<close> \<open>user_path_id _ _ = _\<close>] show ?thesis
      using deactivation_kills [OF ok k] dead_cong by metis
  next
    assume "op = Drop_key ''DELETE'' (kr_id k)" "r = Status 204"
    with call have "apiKeyByID (request_of p ca) ''DELETE'' (kr_id k) st = (Status 204, st1)"
      by (simp add: account_call_def)
    from dropped [OF this] obtain sv uid scope st2 where r: "ac_keys st1 = ac_keys st2"
      "revokeAPIKey (rq_now (request_of p ca)) uid (kr_id k) scope (st\<lparr>ac_server := sv\<rparr>) = Some st2" by blast
    have "dead (kr_hash k) st2"
      by (rule revocation_kills [OF _ _ r(2)]) (use ok k in \<open>simp_all add: keys_ok_def\<close>)
    with r(1) show ?thesis using dead_cong by metis
  qed
qed

lemma switched_off: "u \<in> set (map (\<lambda>u. if u_id u = i then u\<lparr>u_active := False\<rparr> else u) us) \<Longrightarrow> \<not> u_active u \<or> u_id u \<noteq> i"
proof -
  assume "u \<in> set (map (\<lambda>u. if u_id u = i then u\<lparr>u_active := False\<rparr> else u) us)"
  then obtain x where "u = (if u_id x = i then x\<lparr>u_active := False\<rparr> else x)" unfolding set_map by blast
  then show ?thesis by (cases "u_id x = i") simp_all
qed

lemma deactivated_out:
  assumes step: "account_step cfg (Call ca (Change_user ''PATCH'' path (Decoded False))) st = (Status 200, st1)"
    and path: "has_suffix ''/active'' path" "user_path_id ''/active'' path = Some i"
    and auth: "withAuth cfg now cr st1 = Some p"
  shows "u_id (pr_actual p) \<noteq> i"
proof -
  obtain q where "customerByID (request_of q ca) ''PATCH'' path (Decoded False) st = (Status 200, st1)"
    using step by (cases "withAuth cfg (ca_now ca) (ca_credentials ca) st") (auto simp: account_step_def account_call_def)
  note d = deactivated [OF this path]
  have "ac_users st1 = map (\<lambda>u. if u_id u = i then u\<lparr>u_active := False\<rparr> else u) (ac_users st)"
    by (rule trans [OF conjunct1 [OF conjunct2 [OF d]] setUserActive_found(1) [OF conjunct1 [OF d]]])
  then have "pr_actual p \<in> set (map (\<lambda>u. if u_id u = i then u\<lparr>u_active := False\<rparr> else u) (ac_users st))"
    using withAuth_user [OF auth] unfolding acts_for_def by (elim conjE) (erule subst)
  then have "\<not> u_active (pr_actual p) \<or> u_id (pr_actual p) \<noteq> i" by (rule switched_off)
  moreover have "u_active (pr_actual p)" using withAuth_user [OF auth] unfolding acts_for_def by (elim conjE)
  ultimately show ?thesis by blast
qed

section \<open>Sessions\<close>

definition token_codec :: "auth_config \<Rightarrow> claims \<Rightarrow> bool" where
  \<comment> \<open>Base64 has no dot, and JSON in Base64 gives the claims back\<close>
  "token_codec cfg c \<longleftrightarrow> au_decode cfg (au_encode cfg c) = Some c \<and> CHR ''.'' \<notin> set (au_encode cfg c) \<and>
     CHR ''.'' \<notin> set (au_head cfg) \<and> (\<forall>t. CHR ''.'' \<notin> set (au_mac cfg t))"

lemma ParseJWT_SignJWT:
  assumes "token_codec cfg c"
  shows "ParseJWT cfg now (SignJWT cfg c) = (if now div 1000 > cl_exp c then None else Some c)"
proof -
  have "split_on (CHR ''.'') (SignJWT cfg c) = [au_head cfg, au_encode cfg c, au_mac cfg (au_head cfg @ ''.'' @ au_encode cfg c)]"
    using assms by (simp add: SignJWT_def Let_def token_codec_def split_on_append_sep)
  then show ?thesis using assms by (simp add: ParseJWT_def token_codec_def)
qed

lemma SignJWT_not_Nil [simp]: "SignJWT cfg c \<noteq> []"
  by (simp add: SignJWT_def Let_def)

definition cookie :: "string \<Rightarrow> credentials" where
  "cookie token = \<lparr>cr_api_key = [], cr_authorization = [], cr_session = token\<rparr>"

lemma no_bearer: "ParseJWT cfg now [] = None"
  by (simp add: ParseJWT_def)

lemma withAuth_cookie: "withAuth cfg now (cookie token) st = userFromSession cfg now (cookie token) st"
proof -
  have "apiKeyFromRequest (cookie token) = []" "path_after ''Bearer '' (cr_authorization (cookie token)) = []"
    by (simp_all add: apiKeyFromRequest_def cookie_def trim_def path_after_def has_prefix_def)
  then show ?thesis by (simp add: withAuth_def no_bearer split: option.split)
qed

lemma userByID_distinct: "distinct (map u_id (ac_users st)) \<Longrightarrow> u \<in> set (ac_users st) \<Longrightarrow> userByID st (u_id u) = Some u"
proof -
  assume d: "distinct (map u_id (ac_users st))" and u: "u \<in> set (ac_users st)"
  then obtain v where v: "userByID st (u_id u) = Some v"
    unfolding userByID_def by (metis (mono_tags, lifting) find_None_iff not_None_eq)
  from userByID_in [OF v] u d have "v = u" unfolding distinct_map by (blast dest: inj_onD)
  with v show ?thesis by simp
qed

lemma signed_session:
  assumes "distinct (map u_id (ac_users st))" "u \<in> set (ac_users st)" "token_codec cfg (session_for now u)"
    "allowedMicrosoftUser cfg (u_email u)"
  shows "withAuth cfg later (cookie (SignJWT cfg (session_for now u))) st =
    (if u_active u \<and> later div 1000 \<le> TokenTTL now then Some (effectivePrincipal u (defaultDashboardMode u) ''session'') else None)"
proof -
  have "cr_session (cookie (SignJWT cfg (session_for now u))) = SignJWT cfg (session_for now u)" by (simp add: cookie_def)
  moreover have "cl_exp (session_for now u) = TokenTTL now" "cl_user_id (session_for now u) = u_id u"
    "cl_mode (session_for now u) = defaultDashboardMode u"
    by (simp_all add: session_for_def)
  ultimately show ?thesis
    using assms by (simp add: withAuth_cookie userFromSession_def ParseJWT_SignJWT userByID_distinct not_le)
qed

lemma ensureSSOUser_user:
  assumes "ensureSSOUser i now email name st = Some (u, st')"
  shows "u \<in> set (ac_users st') \<and> u_email u = lower email"
proof -
  have "userByEmail st' email = Some u"
  proof (cases "userByEmail st email")
    case (Some a)
    with assms show ?thesis by (simp add: ensureSSOUser_def)
  next
    case None
    with assms show ?thesis by (auto simp: ensureSSOUser_def split: option.splits sum.splits)
  qed
  then show ?thesis by (auto simp: userByEmail_def dest: find_in)
qed

lemma ensureSSOUser_ids:
  assumes "ensureSSOUser i now email name st = Some (u, st')" and "distinct (map u_id (ac_users st))"
  shows "distinct (map u_id (ac_users st'))"
proof (cases "userByEmail st email")
  case (Some a)
  with assms show ?thesis by (simp add: ensureSSOUser_def)
next
  case None
  obtain t :: tenant where "createUser i now email (if trim name = [] then email else name) ''customer'' (Some (t_id t)) st = Inr st'"
    using assms(1) None unfolding ensureSSOUser_def by (auto split: option.splits sum.splits)
  then show ?thesis by (rule createUser_Inr) (use assms(2) in auto)
qed

lemma callback_session:
  assumes "microsoftCallback cfg i now ip up cb st = (r, Some token, st')"
  obtains c u st1 where "cb_token cb = Inr c" "allowedMicrosoftUser cfg (callback_email c)"
    "ensureSSOUser i now (callback_email c) (sc_name c) st = Some (u, st1)" "ac_users st' = ac_users st1"
    "token = SignJWT cfg (session_for now u)" "r = Status 302"
proof -
  obtain c where tok: "cb_token cb = Inr c"
    using assms by (cases "cb_token cb") (auto simp: microsoftCallback_def split: if_splits)
  note run = assms [unfolded microsoftCallback_def tok sum.case Let_def]
  show ?thesis
  proof (cases "ensureSSOUser i now (callback_email c) (sc_name c) st")
    case None
    with run show ?thesis by (simp split: if_splits)
  next
    case (Some q)
    obtain u st1 where q: "q = (u, st1)" by (cases q)
    with run Some have "allowedMicrosoftUser cfg (callback_email c) \<and> token = SignJWT cfg (session_for now u) \<and> r = Status 302 \<and>
        ac_users st' = ac_users st1"
      by (auto split: if_splits option.splits dest: audit_success_keeps)
    with tok Some q show ?thesis by (intro that [of c u st1]) simp_all
  qed
qed

section \<open>Properties\<close>

text \<open>C4: Rights come from superadmins alone. No request and no sign-in changes an existing account but for its
  activation and its deletion access, and those only for an active superadmin in Admin mode; whoever is
  added has no deletion access and is no superadmin, was added by the sign-in as a department user with an allowed
  address, or by an administrator in Admin mode, who as a department admin adds department users of the own
  department only. So no sequence of requests and sign-ins changes who the superadmins are.\<close>

theorem rights_come_from_superadmins:
  "superadmins (account_run cfg es st) = superadmins st \<and>
   (\<exists>us news. ac_users (snd (account_step cfg e st)) = us @ news \<and>
      list_all2 (\<lambda>u u'. u' = u\<lparr>u_active := u_active u', u_deletion_access := u_deletion_access u'\<rparr>) (ac_users st) us \<and>
      (us = ac_users st \<or> (\<exists>p. authorised cfg e st p \<and> u_role (pr_actual p) = ''superadmin'')) \<and>
      (\<forall>u \<in> set news. u_role u \<in> {''customer'', ''tenant''} \<and> \<not> u_deletion_access u \<and>
         ((\<exists>i now ip up cb. e = Sign_in i now ip up cb) \<and> u_role u = ''customer'' \<and> allowedMicrosoftUser cfg (u_email u) \<or>
          (\<exists>p. authorised cfg e st p \<and> u_role (pr_actual p) \<noteq> ''customer'' \<and>
             (u_role (pr_actual p) = ''tenant'' \<longrightarrow>
                u_role u = ''customer'' \<and> u_tenant_id u = u_tenant_id (pr_actual p))))))"
  using account_run_superadmins account_step_allowed [of cfg e st, unfolded step_allowed_def may_add_def switched_def] by simp

definition sample_member :: user where
  "sample_member = sample_admin\<lparr>u_id := 2, u_email := ''mia@example.com'', u_role := ''customer''\<rparr>"

definition sample_boss :: user where
  "sample_boss = sample_admin\<lparr>u_tenant_id := None, u_role := ''superadmin''\<rparr>"

definition sample_accounts :: accounts where
  "sample_accounts =
     \<lparr>ac_server = \<lparr>sv_store = \<lparr>s_users = [sample_boss, sample_member], s_links = [], s_clicks = [], s_audit = [], s_audit_seq = 0\<rparr>,
                   sv_invalidated = []\<rparr>,
      ac_keys = [key_insert 1 0 (u_id sample_boss) ''ci'' ''K1'' ''sq_live_a'' ''account'', key_insert 2 0 2 ''my key'' ''K2'' ''sq_live_b'' ''user''],
      ac_tenants = [\<lparr>t_id = 1, t_name = ''Alva'', t_slug = ''alva''\<rparr>]\<rparr>"

definition sample_auth :: auth_config where
  "sample_auth =
     \<lparr>au_hash = upper, au_mac = (\<lambda>t. ''mac''), au_head = ''head'', au_encode = (\<lambda>c. ''claims''),
      au_decode = (\<lambda>t. Some (session_for 0 sample_member)), au_allowed_domain = ''example.com'', au_allowed_email = [],
      au_dev_bypass = False, au_dev_email = []\<rparr>"

definition api_call :: "string \<Rightarrow> call" where
  "api_call key = \<lparr>ca_credentials = \<lparr>cr_api_key = key, cr_authorization = [], cr_session = []\<rparr>, ca_now = 7,
     ca_ip = ''192.0.2.1'', ca_audit_up = True\<rparr>"

definition deactivation :: account_op where
  "deactivation = Change_user ''PATCH'' ''/api/v1/customers/2/active'' (Decoded False)"

theorem rights_come_from_superadmins_witness:
  "superadmins (account_run sample_auth [Call (api_call ''k1'') deactivation] sample_accounts) = superadmins sample_accounts \<and>
   (\<exists>us news. ac_users (snd (account_step sample_auth (Call (api_call ''k1'') deactivation) sample_accounts)) = us @ news \<and>
      list_all2 (\<lambda>u u'. u' = u\<lparr>u_active := u_active u', u_deletion_access := u_deletion_access u'\<rparr>) (ac_users sample_accounts) us \<and>
      (us = ac_users sample_accounts \<or>
         (\<exists>p. authorised sample_auth (Call (api_call ''k1'') deactivation) sample_accounts p \<and> u_role (pr_actual p) = ''superadmin''))) \<and>
   map u_active (ac_users (snd (account_step sample_auth (Call (api_call ''k1'') deactivation) sample_accounts))) = [True, False]"
proof -
  have "map u_active (ac_users (snd (account_step sample_auth (Call (api_call ''k1'') deactivation) sample_accounts))) = [True, False]"
    by code_simp
  then show ?thesis
    using rights_come_from_superadmins [of sample_auth "[Call (api_call ''k1'') deactivation]" sample_accounts
      "Call (api_call ''k1'') deactivation"] by blast
qed

text \<open>C5: A key taken back stays dead. Once an administrator has deactivated the owner of a key, or its owner has
  deleted it, and the answer said so, the key is refused after every later sequence of requests and sign-ins,
  also after the owner was activated again; and a deactivated user is let in by no key, session or bearer token.\<close>

theorem revoked_keys_stay_dead:
  assumes "keys_ok st" and "k \<in> set (ac_keys st)"
    and "account_step cfg (Call ca op) st = (r, st1)" and "takes_back k op r"
    and "apiKeyFromRequest cr \<noteq> []" and "au_hash cfg (apiKeyFromRequest cr) = kr_hash k"
  shows "withAuth cfg now cr (account_run cfg es st1) = None \<and>
    (\<forall>cr' p. r = Status 200 \<and> withAuth cfg now cr' st1 = Some p \<longrightarrow> u_id (pr_actual p) \<noteq> kr_user_id k)"
proof
  have "dead (kr_hash k) (account_run cfg es st1)"
    by (rule dead_run [OF takes_back_kills [OF assms(1-4)]])
  from dead_refused [OF this] show "withAuth cfg now cr (account_run cfg es st1) = None"
    using assms(5,6) by (simp add: withAuth_def)
  show "\<forall>cr' p. r = Status 200 \<and> withAuth cfg now cr' st1 = Some p \<longrightarrow> u_id (pr_actual p) \<noteq> kr_user_id k"
    using assms(3,4) deactivated_out unfolding takes_back_def by auto
qed

theorem revoked_keys_stay_dead_witness:
  "withAuth sample_auth 9 (ca_credentials (api_call ''k2''))
     (account_run sample_auth [Call (api_call ''k1'') (Change_user ''PATCH'' ''/api/v1/customers/2/active'' (Decoded True))]
       (snd (account_step sample_auth (Call (api_call ''k1'') deactivation) sample_accounts))) = None \<and>
   withAuth sample_auth 9 (ca_credentials (api_call ''k2'')) sample_accounts \<noteq> None"
proof -
  let ?k = "key_insert 2 0 2 ''my key'' ''K2'' ''sq_live_b'' ''user''"
  let ?step = "account_step sample_auth (Call (api_call ''k1'') deactivation) sample_accounts"
  have "fst ?step = Status 200" by code_simp
  then have step: "?step = (Status 200, snd ?step)" by (metis prod.collapse)
  have "takes_back ?k deactivation (Status 200)"
    unfolding takes_back_def deactivation_def
    by (rule disjI1, rule exI [of _ "''/api/v1/customers/2/active''"]) code_simp
  moreover have "keys_ok sample_accounts" by code_simp
  moreover have "?k \<in> set (ac_keys sample_accounts)" by (simp add: sample_accounts_def)
  moreover have "apiKeyFromRequest (ca_credentials (api_call ''k2'')) \<noteq> []" by code_simp
  moreover have "au_hash sample_auth (apiKeyFromRequest (ca_credentials (api_call ''k2''))) = kr_hash ?k" by code_simp
  ultimately have "withAuth sample_auth 9 (ca_credentials (api_call ''k2''))
     (account_run sample_auth [Call (api_call ''k1'') (Change_user ''PATCH'' ''/api/v1/customers/2/active'' (Decoded True))]
       (snd ?step)) = None"
    using revoked_keys_stay_dead [OF _ _ step] by blast
  moreover have "withAuth sample_auth 9 (ca_credentials (api_call ''k2'')) sample_accounts \<noteq> None" by code_simp
  ultimately show ?thesis by blast
qed

text \<open>C6: The session of a sign-in is the signed-in user. The cookie the callback sets is accepted for a day by every
  later request and stands for the account of the verified address, in its default mode, as long as that account is
  active; after a day, or for a deactivated account, it is refused.\<close>

theorem session_is_accepted:
  assumes "microsoftCallback cfg i now ip up cb st = (r, Some token, st')"
    and "distinct (map u_id (ac_users st))" and "\<forall>u \<in> set (ac_users st'). token_codec cfg (session_for now u)"
  shows "r = Status 302 \<and> (\<exists>c u. cb_token cb = Inr c \<and> u \<in> set (ac_users st') \<and> u_email u = callback_email c \<and>
    withAuth cfg later (cookie token) st' =
      (if u_active u \<and> later div 1000 \<le> TokenTTL now then Some (effectivePrincipal u (defaultDashboardMode u) ''session'') else None))"
proof -
  obtain c u st1 where s: "cb_token cb = Inr c" "allowedMicrosoftUser cfg (callback_email c)"
    "ensureSSOUser i now (callback_email c) (sc_name c) st = Some (u, st1)" "ac_users st' = ac_users st1"
    "token = SignJWT cfg (session_for now u)" "r = Status 302"
    using assms(1) by (rule callback_session)
  have u: "u \<in> set (ac_users st')" "u_email u = callback_email c"
    using ensureSSOUser_user [OF s(3)] s(4) by simp_all
  have "distinct (map u_id (ac_users st'))" using ensureSSOUser_ids [OF s(3) assms(2)] s(4) by simp
  from signed_session [OF this u(1)] assms(3) u s show ?thesis by auto
qed

definition sample_callback :: callback where
  "sample_callback = \<lparr>cb_state_cookie = ''s'', cb_state = ''s'', cb_nonce_cookie = ''n'',
     cb_token = Inr \<lparr>sc_email = '' Mia@Example.com'', sc_preferred_username = [], sc_name = ''Mia'', sc_nonce = ''n''\<rparr>\<rparr>"

definition only_member :: accounts where
  "only_member = set_users [sample_member] sample_accounts"

theorem session_is_accepted_witness:
  "\<exists>token. snd (snd (microsoftCallback sample_auth 3 0 ''192.0.2.1'' True sample_callback only_member)) = only_member \<and>
     (\<exists>c u. cb_token sample_callback = Inr c \<and> u \<in> set (ac_users only_member) \<and> u_email u = callback_email c \<and>
       withAuth sample_auth 86400000 (cookie token) only_member =
         (if u_active u \<and> 86400000 div 1000 \<le> TokenTTL 0 then Some (effectivePrincipal u (defaultDashboardMode u) ''session'') else None))"
proof -
  have "userByEmail only_member (callback_email \<lparr>sc_email = '' Mia@Example.com'', sc_preferred_username = [], sc_name = ''Mia'', sc_nonce = ''n''\<rparr>) = Some sample_member"
    "allowedMicrosoftUser sample_auth (callback_email \<lparr>sc_email = '' Mia@Example.com'', sc_preferred_username = [], sc_name = ''Mia'', sc_nonce = ''n''\<rparr>)"
    by code_simp+
  then have run: "microsoftCallback sample_auth 3 0 ''192.0.2.1'' True sample_callback only_member =
      (Status 302, Some (SignJWT sample_auth (session_for 0 sample_member)), only_member)"
    by (simp add: microsoftCallback_def sample_callback_def Let_def ensureSSOUser_def)
  have "distinct (map u_id (ac_users only_member))" by (simp add: only_member_def)
  moreover have "\<forall>u \<in> set (ac_users only_member). token_codec sample_auth (session_for 0 u)"
    by (simp add: only_member_def token_codec_def sample_auth_def)
  ultimately show ?thesis
    using session_is_accepted [OF run, of 86400000] run by (intro exI [of _ "SignJWT sample_auth (session_for 0 sample_member)"]) simp
qed

end
