(* ===== verification/UserStore.thy ===== *)
theory UserStore
  imports Database "HOL-Library.Sublist"
begin

text \<open>
  The user directory: \<open>ListUsersPage\<close> (\<open>internal/store/store.go\<close>) and the GET branch of the
  handler \<open>customers\<close>. The search is an SQL \<open>LIKE\<close> pattern built from the text the administrator
  typed; \<open>like\<close> is PostgreSQL's matching, and for a text without wildcards it is shown to be
  \<open>contains\<close>. Names and addresses are taken to be ASCII where the case is folded.
\<close>

section \<open>Case folding and LIKE\<close>

function like :: "string \<Rightarrow> string \<Rightarrow> bool" where
  "like [] s = (s = [])"
| "like (p # ps) s =
     (if p = CHR ''%'' then like ps s \<or> (case s of [] \<Rightarrow> False | c # t \<Rightarrow> like (p # ps) t)
      else if p = CHR ''_'' then (case s of [] \<Rightarrow> False | c # t \<Rightarrow> like ps t)
      else if p = CHR 0x5C then
        (case ps of [] \<Rightarrow> False | e # qs \<Rightarrow> (case s of [] \<Rightarrow> False | c # t \<Rightarrow> c = e \<and> like qs t))
      else (case s of [] \<Rightarrow> False | c # t \<Rightarrow> c = p \<and> like ps t))"
  by pat_completeness auto

termination by (relation "measure (\<lambda>(p, s). length p + length s)") auto

declare like.simps [simp del]

definition plain_text :: "string \<Rightarrow> bool" where
  "plain_text s \<longleftrightarrow> CHR ''%'' \<notin> set s \<and> CHR ''_'' \<notin> set s \<and> CHR 0x5C \<notin> set s"

section \<open>The query\<close>

definition user_search :: "query \<Rightarrow> string" where
  "user_search q = trim (lower (q ''search''))"

definition user_match :: "user \<Rightarrow> query \<Rightarrow> user \<Rightarrow> bool" where
  "user_match scope q u \<longleftrightarrow>
     (u_role scope = ''tenant'' \<longrightarrow> u_tenant_id u = u_tenant_id scope \<and> u_role u = ''customer'') \<and>
     (user_search q \<noteq> [] \<longrightarrow>
        like (''%'' @ user_search q @ ''%'') (lower (u_name u)) \<or>
        like (''%'' @ user_search q @ ''%'') (lower (u_email u))) \<and>
     (q ''role'' \<noteq> [] \<and> u_role scope = ''superadmin'' \<longrightarrow> u_role u = q ''role'') \<and>
     (q ''active'' \<noteq> [] \<longrightarrow> u_active u = (q ''active'' = ''true''))"

definition listUsersPage :: "store \<Rightarrow> user \<Rightarrow> int \<Rightarrow> int \<Rightarrow> query \<Rightarrow> store_error + user page" where
  "listUsersPage s scope limit0 cursor q =
     (let limit = nat (if limit0 < 1 \<or> limit0 > 500 then 10 else limit0) in
      if u_role scope = ''tenant'' \<and> u_tenant_id scope = None then Inl Panicked
      else Inr (probe_page u_id limit (take (limit + 1)
        (order_desc u_id (filter (\<lambda>u. user_match scope q u \<and> (cursor > 0 \<longrightarrow> u_id u < cursor)) (s_users s))))))"

definition customers_GET :: "store \<Rightarrow> user \<Rightarrow> query \<Rightarrow> int \<times> user page option" where
  "customers_GET s u q =
     (if u_role u = ''customer'' then (403, None)
      else case limit_param 10 100 q of None \<Rightarrow> (400, None)
      | Some limit \<Rightarrow>
        (case cursor_param q of None \<Rightarrow> (400, None)
         | Some cursor \<Rightarrow>
             if q ''role'' \<notin> {[], ''superadmin'', ''tenant'', ''customer''} then (400, None)
             else if q ''active'' \<notin> {[], ''true'', ''false''} then (400, None)
             else case listUsersPage s u limit cursor q of Inl _ \<Rightarrow> (500, None)
                  | Inr page \<Rightarrow> (200, Some page)))"

section \<open>The listing meets the contract\<close>

type_synonym user_request = "store \<times> user \<times> query"

definition user_request_ok :: "user_request \<Rightarrow> bool" where
  "user_request_ok = (\<lambda>(s, u, q).
     wf_store s \<and> u_role u \<noteq> ''customer'' \<and> (u_role u = ''tenant'' \<longrightarrow> u_tenant_id u \<noteq> None) \<and>
     limit_param 10 100 q \<noteq> None \<and> q ''role'' \<in> {[], ''superadmin'', ''tenant'', ''customer''} \<and>
     q ''active'' \<in> {[], ''true'', ''false''})"

definition user_rows :: "user_request \<Rightarrow> user list" where
  "user_rows = (\<lambda>(s, u, q). order_desc u_id (filter (user_match u q) (s_users s)))"

definition user_fetch :: "user_request \<Rightarrow> int \<Rightarrow> user page" where
  "user_fetch = (\<lambda>(s, u, q) c. case snd (customers_GET s u (with_cursor c q)) of
     None \<Rightarrow> \<lparr>items = [], next_cursor = 0\<rparr> | Some p \<Rightarrow> p)"

definition user_limit :: "user_request \<Rightarrow> nat" where
  "user_limit = (\<lambda>(s, u, q). nat (the (limit_param 10 100 q)))"

lemma user_match_with_cursor [simp]: "user_match u (with_cursor c q) = user_match u q"
  by (simp add: user_match_def user_search_def fun_eq_iff)

lemma filter_after_cursor:
  "0 \<le> c \<Longrightarrow> order_desc f (filter (\<lambda>x. P x \<and> (c > 0 \<longrightarrow> f x < c)) xs) =
     after_cursor f c (order_desc f (filter P xs))"
  unfolding after_cursor_def filter_order_desc filter_filter
  by (intro arg_cong [of _ _ "order_desc f"] filter_cong) auto

interpretation user_pages: probe_listing user_request_ok user_rows u_id user_fetch user_limit
proof
  fix k :: user_request and c :: int
  assume k: "user_request_ok k"
  obtain s u q where kk: "k = (s, u, q)" by (cases k) auto
  have wf: "wf_ids u_id (filter (user_match u q) (s_users s))"
    using k by (auto simp: kk user_request_ok_def intro: wf_ids_filter)
  show "sorted_wrt (\<lambda>x y. u_id y < u_id x) (user_rows k)"
    using wf_ids_sorted [OF wf] by (simp add: user_rows_def kk)
  show "0 < u_id x \<and> u_id x < 2 ^ 53" if "x \<in> set (user_rows k)" for x
    using wf_ids_range [OF wf] that by (simp add: user_rows_def kk)
  obtain lim where lim: "limit_param 10 100 q = Some lim" "1 \<le> lim" "lim \<le> 100"
    using k limit_param_range [of 10 100 q] by (auto simp: user_request_ok_def kk)
  then show "0 < user_limit k" by (simp add: user_limit_def kk)
  assume c: "cursor_ok c"
  then have "0 \<le> c" by (simp add: cursor_ok_def)
  have role: "u_role u \<noteq> ''customer''" "\<not> (u_role u = ''tenant'' \<and> u_tenant_id u = None)"
      "q ''role'' \<in> {[], ''superadmin'', ''tenant'', ''customer''}" "q ''active'' \<in> {[], ''true'', ''false''}"
    using k unfolding user_request_ok_def kk by blast+
  show "user_fetch k c = probe_page u_id (user_limit k)
      (take (Suc (user_limit k)) (after_cursor u_id c (user_rows k)))"
    using lim role filter_after_cursor [OF \<open>0 \<le> c\<close>, of u_id "user_match u q" "s_users s"]
    by (simp add: user_fetch_def user_limit_def user_rows_def kk customers_GET_def listUsersPage_def
        with_cursor_param [OF c] Let_def del: insert_iff) (use role(2) in blast)
qed

section \<open>What the search finds\<close>

lemma like_percent: "like (CHR ''%'' # ps) s \<longleftrightarrow> (\<exists>t. suffix t s \<and> like ps t)"
proof (induction s)
  case Nil
  then show ?case by (simp add: like.simps)
next
  case (Cons c s)
  have "like (CHR ''%'' # ps) (c # s) \<longleftrightarrow> like ps (c # s) \<or> like (CHR ''%'' # ps) s"
    by (subst like.simps(2)) simp
  with Cons show ?case by (auto simp: suffix_Cons)
qed

lemma like_plain:
  "plain_text p \<Longrightarrow> like (p @ ps) s \<longleftrightarrow> (\<exists>t. s = p @ t \<and> like ps t)"
proof (induction p arbitrary: s)
  case Nil
  then show ?case by simp
next
  case (Cons c p)
  then have "like ((c # p) @ ps) s \<longleftrightarrow> (case s of [] \<Rightarrow> False | d # t \<Rightarrow> d = c \<and> like (p @ ps) t)"
    by (subst append_Cons, subst like.simps) (auto simp: plain_text_def)
  with Cons show ?case by (cases s) (auto simp: plain_text_def)
qed

lemma like_any: "like ''%'' s"
  unfolding like_percent by (intro exI [of _ "[]"]) (simp add: like.simps)

lemma like_contains: "plain_text p \<Longrightarrow> like (''%'' @ p @ ''%'') s \<longleftrightarrow> sublist p s"
proof -
  assume p: "plain_text p"
  have "like (''%'' @ p @ ''%'') s \<longleftrightarrow> (\<exists>t. suffix t s \<and> like (p @ ''%'') t)"
    by (simp add: like_percent)
  also have "\<dots> \<longleftrightarrow> (\<exists>t. suffix t s \<and> (\<exists>r. t = p @ r))"
    by (simp add: like_plain [OF p] like_any)
  also have "\<dots> \<longleftrightarrow> sublist p s" by (auto simp: sublist_def suffix_def)
  finally show ?thesis .
qed

section \<open>Properties\<close>

text \<open>C21: The user directory pages through exactly the users the administrator may see and asked for.
  Put together, the pages hold every user of the table that passes the filters once, newest
  first: a department admin sees the users (role user) of the own department only, and a search
  text without SQL wildcards selects the users whose name or address contains it, ignoring case.\<close>

theorem user_directory_complete:
  assumes "user_request_ok (s, u, q)" and "plain_text (user_search q)"
    and "length (s_users s) < n"
  shows "let shown = concat (visit (user_fetch (s, u, q)) n reset_pager) in
    sorted_wrt (\<lambda>x y. u_id y < u_id x) shown \<and>
    (\<forall>v. v \<in> set shown \<longleftrightarrow> v \<in> set (s_users s) \<and>
      (u_role u = ''tenant'' \<longrightarrow> u_tenant_id v = u_tenant_id u \<and> u_role v = ''customer'') \<and>
      (sublist (user_search q) (lower (u_name v)) \<or> sublist (user_search q) (lower (u_email v))) \<and>
      (q ''role'' \<noteq> [] \<and> u_role u = ''superadmin'' \<longrightarrow> u_role v = q ''role'') \<and>
      (q ''active'' \<noteq> [] \<longrightarrow> u_active v = (q ''active'' = ''true'')))"
proof -
  have "length (user_rows (s, u, q)) < n"
    using le_less_trans [OF length_filter_le assms(3)] by (simp add: user_rows_def)
  then have shown: "concat (visit (user_fetch (s, u, q)) n reset_pager) = user_rows (s, u, q)"
    by (rule user_pages.visit_complete [OF assms(1)])
  have "v \<in> set (user_rows (s, u, q)) \<longleftrightarrow> v \<in> set (s_users s) \<and> user_match u q v" for v
    by (simp add: user_rows_def)
  then show ?thesis
    using user_pages.newest_first [OF assms(1)]
    unfolding shown Let_def user_match_def like_contains [OF assms(2)] by fastforce
qed

definition sample_query :: query where
  "sample_query = (\<lambda>_. [])(''search'' := ''  BOS'', ''limit'' := ''1'')"

theorem user_directory_complete_witness:
  "let shown = concat (visit (user_fetch (\<lparr>s_users = [sample_admin], s_links = [], s_clicks = [],
       s_audit = [], s_audit_seq = 1\<rparr>, sample_admin\<lparr>u_role := ''superadmin''\<rparr>, sample_query)) 2 reset_pager) in
    sorted_wrt (\<lambda>x y. u_id y < u_id x) shown \<and>
    (\<forall>v. v \<in> set shown \<longleftrightarrow> v \<in> set [sample_admin] \<and>
      (''superadmin'' = ''tenant'' \<longrightarrow> u_tenant_id v = Some 1 \<and> u_role v = ''customer'') \<and>
      (sublist (user_search sample_query) (lower (u_name v)) \<or>
       sublist (user_search sample_query) (lower (u_email v))) \<and>
      (sample_query ''role'' \<noteq> [] \<and> ''superadmin'' = ''superadmin'' \<longrightarrow> u_role v = sample_query ''role'') \<and>
      (sample_query ''active'' \<noteq> [] \<longrightarrow> u_active v = (sample_query ''active'' = ''true'')))"
proof -
  let ?s = "\<lparr>s_users = [sample_admin], s_links = [], s_clicks = [], s_audit = [], s_audit_seq = 1\<rparr>"
  have ok: "user_request_ok (?s, sample_admin\<lparr>u_role := ''superadmin''\<rparr>, sample_query)"
    by (simp add: user_request_ok_def wf_store_def wf_ids_def sample_admin_def sample_query_def
        limit_param_def parse_int64_def parse_nat_def digit_val_def)
  have plain: "plain_text (user_search sample_query)"
    by code_simp
  show ?thesis
    using user_directory_complete [OF ok plain, of 2] by (simp add: sample_admin_def)
qed

end
