(* ===== verification/Encoding.thy ===== *)
theory Encoding
  imports JsValue
begin

text \<open>
  How the dashboard puts parameters into a URL (\<open>URLSearchParams.toString()\<close>, used by every
  listing, report and QR request of \<open>web/app.js\<close> and \<open>web/reports.js\<close>) and how the server reads
  them back (\<open>r.URL.Query()\<close> and \<open>Values.Get\<close>, used by \<open>internal/handlers/handlers.go\<close>). Both are
  library code of the two languages; what the program relies on is that they fit together, which
  is proved here for every text.
\<close>

section \<open>Writing\<close>

definition hex_upper :: "nat \<Rightarrow> char" where
  "hex_upper d = (if d < 10 then char_of (48 + d) else char_of (55 + d))"

definition form_safe :: "char \<Rightarrow> bool" where
  "form_safe c \<longleftrightarrow> (let n = (of_char c :: nat) in
     (48 \<le> n \<and> n \<le> 57) \<or> (65 \<le> n \<and> n \<le> 90) \<or> (97 \<le> n \<and> n \<le> 122) \<or> n \<in> {42, 45, 46, 95})"

definition form_char :: "char \<Rightarrow> string" where
  "form_char c =
     (let n = (of_char c :: nat) in
      if form_safe c then [c] else if n = 32 then ''+''
      else [CHR ''%'', hex_upper (n div 16), hex_upper (n mod 16)])"

definition form_encode :: "string \<Rightarrow> string" where
  "form_encode s = concat (map form_char s)"

definition search_params :: "(string \<times> string) list \<Rightarrow> string" where
  "search_params kvs = join_with ''&'' (map (\<lambda>(k, v). form_encode k @ ''='' @ form_encode v) kvs)"

text \<open>\<open>URLSearchParams.set\<close>: the first pair of that name gets the value, the others go; a new name
  is added at the end.\<close>

fun params_set :: "string \<Rightarrow> string \<Rightarrow> (string \<times> string) list \<Rightarrow> (string \<times> string) list" where
  "params_set k v [] = [(k, v)]"
| "params_set k v (p # ps) =
     (if fst p = k then (k, v) # filter (\<lambda>p. fst p \<noteq> k) ps else p # params_set k v ps)"

section \<open>Reading\<close>

definition hex_val :: "char \<Rightarrow> nat option" where
  "hex_val c = (let n = (of_char c :: nat) in
     if 48 \<le> n \<and> n \<le> 57 then Some (n - 48) else if 65 \<le> n \<and> n \<le> 70 then Some (n - 55)
     else if 97 \<le> n \<and> n \<le> 102 then Some (n - 87) else None)"

text \<open>\<open>url.QueryUnescape\<close>; \<open>None\<close> is its error.\<close>

fun query_unescape :: "string \<Rightarrow> string option" where
  "query_unescape [] = Some []"
| "query_unescape (c # cs) =
     (if c = CHR ''+'' then map_option ((#) (CHR '' '')) (query_unescape cs)
      else if c = CHR ''%'' then
        (case cs of
           a # b # rest \<Rightarrow>
             (case (hex_val a, hex_val b) of
                (Some x, Some y) \<Rightarrow> map_option ((#) (char_of (16 * x + y))) (query_unescape rest)
              | _ \<Rightarrow> None)
         | _ \<Rightarrow> None)
      else map_option ((#) c) (query_unescape cs))"

text \<open>\<open>url.ParseQuery\<close>: pieces between ampersands, empty ones skipped, malformed ones dropped.\<close>

definition cut_at :: "char \<Rightarrow> string \<Rightarrow> string \<times> string" where
  "cut_at c s = (takeWhile (\<lambda>x. x \<noteq> c) s, drop 1 (dropWhile (\<lambda>x. x \<noteq> c) s))"

definition parse_pair :: "string \<Rightarrow> (string \<times> string) option" where
  "parse_pair piece =
     (if CHR '';'' \<in> set piece then None
      else case cut_at (CHR ''='') piece of (k, v) \<Rightarrow>
        (case (query_unescape k, query_unescape v) of (Some k', Some v') \<Rightarrow> Some (k', v') | _ \<Rightarrow> None))"

definition parse_query :: "string \<Rightarrow> (string \<times> string) list" where
  "parse_query raw =
     concat (map (\<lambda>p. if p = [] then [] else case parse_pair p of None \<Rightarrow> [] | Some kv \<Rightarrow> [kv])
       (split_on (CHR ''&'') raw))"

text \<open>\<open>Values.Get\<close>: the first value of that name, the empty text when there is none.\<close>

definition query_get :: "(string \<times> string) list \<Rightarrow> string \<Rightarrow> string" where
  "query_get kvs k = (case map_of kvs k of None \<Rightarrow> [] | Some v \<Rightarrow> v)"

section \<open>The two fit together\<close>

lemma hex_val_upper: "d < 16 \<Longrightarrow> hex_val (hex_upper d) = Some d"
  by (auto simp: hex_val_def hex_upper_def Let_def)

lemma unescape_form_char:
  "query_unescape (form_char c @ rest) = map_option ((#) c) (query_unescape rest)"
proof (cases "form_safe c")
  case True
  then have "c \<noteq> CHR ''+''" "c \<noteq> CHR ''%''" by (auto simp: form_safe_def)
  with True show ?thesis by (simp add: form_char_def)
next
  case False
  have n: "(of_char c :: nat) < 256" by simp
  show ?thesis
  proof (cases "(of_char c :: nat) = 32")
    case True
    moreover have "(of_char (CHR '' '') :: nat) = 32" by simp
    ultimately have "c = CHR '' ''" by (metis char_of_char)
    then show ?thesis using False by (simp add: form_char_def)
  next
    case no: False
    have "16 * ((of_char c :: nat) div 16) + of_char c mod 16 = of_char c" by simp
    moreover have "char_of (of_char c :: nat) = c" by simp
    ultimately have eq: "char_of (16 * ((of_char c :: nat) div 16) + of_char c mod 16) = c"
      by presburger
    have "(of_char c :: nat) div 16 < 16" using n by (simp add: div_less_iff_less_mult)
    with False no eq show ?thesis
      by (simp add: form_char_def Let_def hex_val_upper)
  qed
qed

lemma unescape_encode: "query_unescape (form_encode s) = Some s"
  by (induction s) (simp_all add: form_encode_def unescape_form_char)

lemma form_encode_chars:
  assumes "x \<in> set (form_encode s)"
  shows "x \<noteq> CHR ''&'' \<and> x \<noteq> CHR ''='' \<and> x \<noteq> CHR '';''"
proof -
  have hex: "hex_upper d \<noteq> CHR ''&'' \<and> hex_upper d \<noteq> CHR ''='' \<and> hex_upper d \<noteq> CHR '';''" if "d < 16" for d
  proof -
    have "(of_char (hex_upper d) :: nat) \<in> {48..57} \<union> {65..70}"
      using that by (auto simp: hex_upper_def)
    then show ?thesis by auto
  qed
  obtain c where c: "x \<in> set (form_char c)" using assms by (auto simp: form_encode_def)
  have n: "(of_char c :: nat) div 16 < 16"
    using nat_of_char_less_256 [of c] by (simp add: div_less_iff_less_mult)
  from c consider "x = c" "form_safe c" | "x = CHR ''+''" | "x = CHR ''%''"
    | "x = hex_upper ((of_char c :: nat) div 16)" | "x = hex_upper ((of_char c :: nat) mod 16)"
    by (auto simp: form_char_def Let_def split: if_splits)
  then show ?thesis
    using hex [OF n] hex [of "(of_char c :: nat) mod 16"] by cases (auto simp: form_safe_def)
qed

lemma cut_at_append: "c \<notin> set xs \<Longrightarrow> cut_at c (xs @ c # ys) = (xs, ys)"
  by (induction xs) (auto simp: cut_at_def)

lemma parse_encoded_pair: "parse_pair (form_encode k @ ''='' @ form_encode v) = Some (k, v)"
proof -
  have "CHR ''='' \<notin> set (form_encode k)" using form_encode_chars by blast
  then have "cut_at (CHR ''='') (form_encode k @ ''='' @ form_encode v) = (form_encode k, form_encode v)"
    unfolding append_Cons append_Nil by (rule cut_at_append)
  moreover have "CHR '';'' \<notin> set (form_encode k @ ''='' @ form_encode v)"
    using form_encode_chars [of "CHR '';''"] by auto
  ultimately show ?thesis by (simp add: parse_pair_def unescape_encode)
qed

lemma parse_search_params: "parse_query (search_params kvs) = kvs"
proof (cases "kvs = []")
  case True
  then show ?thesis by (simp add: search_params_def parse_query_def)
next
  case False
  let ?ps = "map (\<lambda>(k, v). form_encode k @ ''='' @ form_encode v) kvs"
  have "\<forall>p \<in> set ?ps. CHR ''&'' \<notin> set p" using form_encode_chars [of "CHR ''&''"] by auto
  with False have "split_on (CHR ''&'') (search_params kvs) = ?ps"
    unfolding search_params_def by (intro split_join) simp_all
  then have "parse_query (search_params kvs) =
      concat (map (\<lambda>p. if p = [] then [] else case parse_pair p of None \<Rightarrow> [] | Some kv \<Rightarrow> [kv]) ?ps)"
    by (simp only: parse_query_def)
  also have "\<dots> = kvs"
    by (induction kvs) (auto simp: parse_encoded_pair [simplified])
  finally show ?thesis .
qed

lemma map_of_filter_other: "j \<noteq> k \<Longrightarrow> map_of (filter (\<lambda>p. fst p \<noteq> k) kvs) j = map_of kvs j"
  by (induction kvs) auto

lemma params_set_get:
  "query_get (params_set k v kvs) j = (if j = k then v else query_get kvs j)"
proof -
  have "map_of (params_set k v kvs) j = (if j = k then Some v else map_of kvs j)"
    by (induction kvs) (auto simp: map_of_filter_other)
  then show ?thesis by (simp add: query_get_def)
qed

section \<open>What is written is what is read\<close>

text \<open>What the dashboard asks for is what the server reads. For every list of parameters, with
  any text in names and values (ampersands, equals signs, percent signs, plus signs, white
  space, non-ASCII text), reading the query string back gives exactly the list.\<close>

lemma query_roundtrip:
  "parse_query (search_params kvs) = kvs \<and>
   query_get (parse_query (search_params (params_set k v kvs))) j = (if j = k then v else query_get kvs j)"
  by (simp add: parse_search_params params_set_get)

end
