(* ===== verification/Browser.thy ===== *)
theory Browser
  imports Rows Paging Encoding
begin

text \<open>
  The page the dashboard runs in (\<open>web/app.js\<close>): its global variables, the parts of the DOM it
  writes, the requests it sends and the answers it receives, and the helpers every handler uses
  (\<open>api\<close>, \<open>showMsg\<close>, \<open>confirmAction\<close>, \<open>setAuthNav\<close>, \<open>showLogin\<close>, \<open>showApp\<close>).

  A handler is a function from the state of the page to a result and the new state; the result is
  a returned value (\<open>Inr\<close>) or a thrown JavaScript value (\<open>Inl\<close>). The outside world is two queues:
  \<open>b_answers\<close> holds the answers of the server and \<open>b_confirms\<close> the user's decisions in the
  confirmation dialog, each taken in the order the handler asks. A theorem about a handler
  quantifies over both. When a queue is empty the request fails, the dialog is dismissed.

  An element is named by its id. Where the code writes to all elements of a selector, the map has
  one entry per element (\<open>view:home\<close>, \<open>nav:home\<close> and so on).
\<close>

section \<open>State\<close>

record dom =
  dm_text :: "string \<Rightarrow> string"
  dm_html :: "string \<Rightarrow> string"
  dm_hidden :: "string \<Rightarrow> bool"
  dm_disabled :: "string \<Rightarrow> bool"
  dm_value :: "string \<Rightarrow> string"
  dm_class :: "string \<Rightarrow> string \<Rightarrow> bool"
  dm_default :: "string \<Rightarrow> string"

text \<open>A request as the server sees it. The bodies of the handlers modelled here are JSON objects.\<close>

record sent =
  rq_method :: string
  rq_path :: string
  rq_body :: jsval

text \<open>The JSON a successful answer carries, by the endpoint that sends it; \<open>Plain\<close> is every other
  body, a JSON value or (as \<open>JStr\<close>) a text that is not JSON.\<close>

datatype payload =
    Links_page "link page"
  | Users_page "user page"
  | Audit_page "audit_event page"
  | Clicks_page "click_event page"
  | Points "point list"
  | Keys "api_key list"
  | Tenants "tenant list"
  | Domains "tenant_domain list"
  | Counters "(string \<times> int) list"
  | Signed_in me
  | A_link link
  | A_report report
  | Plain jsval

datatype answer = Net_fail | Answer int string payload
  \<comment> \<open>a rejected fetch, or status, status text and body\<close>

record browser =
  b_user :: "me option"
  b_tenants :: "tenant list"
  b_links :: "link list"
  b_recent :: "link list"
  b_loaded :: "string list"
  b_last_hash :: string
  b_link_pager :: pager
  b_user_pager :: pager
  b_click_pager :: pager
  b_audit_pager :: pager
  b_report :: "(string \<times> string) option"
  b_hash :: string
  b_hrefs :: "string list"
  b_dom :: dom
  b_sent :: "sent list"
  b_answers :: "answer list"
  b_confirms :: "bool list"

type_synonym 'a act = "browser \<Rightarrow> (jsval + 'a) \<times> browser"

section \<open>Statements\<close>

definition ret :: "'a \<Rightarrow> 'a act" where
  "ret x b = (Inr x, b)"

definition throw :: "jsval \<Rightarrow> 'a act" where
  "throw e b = (Inl e, b)"

definition andThen :: "'a act \<Rightarrow> ('a \<Rightarrow> 'b act) \<Rightarrow> 'b act" where
  "andThen m k b = (case m b of (Inl e, b') \<Rightarrow> (Inl e, b') | (Inr x, b') \<Rightarrow> k x b')"

definition modify :: "(browser \<Rightarrow> browser) \<Rightarrow> unit act" where
  "modify f b = (Inr (), f b)"

definition reading :: "(browser \<Rightarrow> 'a act) \<Rightarrow> 'a act" where
  "reading f b = f b b"

definition try_catch :: "'a act \<Rightarrow> (jsval \<Rightarrow> 'a act) \<Rightarrow> 'a act" where
  "try_catch m h b = (case m b of (Inl e, b') \<Rightarrow> h e b' | (Inr x, b') \<Rightarrow> (Inr x, b'))"

text \<open>Statements in sequence, and \<open>if (...) ...;\<close> without an else.\<close>

fun steps :: "unit act list \<Rightarrow> unit act" where
  "steps [] b = (Inr (), b)"
| "steps (m # ms) b = (case m b of (Inl e, b') \<Rightarrow> (Inl e, b') | (Inr _, b') \<Rightarrow> steps ms b')"

definition only_if :: "bool \<Rightarrow> unit act \<Rightarrow> unit act" where
  "only_if c m = (if c then m else ret ())"

text \<open>\<open>await Promise.all([m, n])\<close>: both run, whatever becomes of the other; the first rejection is
  the result. The actions it is used for write different parts of the state.\<close>

definition both :: "'a act \<Rightarrow> 'c act \<Rightarrow> ('a \<times> 'c) act" where
  "both m n b = (case m b of (r, b1) \<Rightarrow> (case n b1 of (r', b2) \<Rightarrow>
     ((case r of Inl e \<Rightarrow> Inl e | Inr x \<Rightarrow> (case r' of Inl e \<Rightarrow> Inl e | Inr y \<Rightarrow> Inr (x, y))), b2)))"

definition finish :: "'a act \<Rightarrow> unit act" where
  \<comment> \<open>an awaited value that is not used\<close>
  "finish m = andThen m (\<lambda>_. ret ())"

definition set_text :: "string \<Rightarrow> string \<Rightarrow> unit act" where
  "set_text i t = modify (\<lambda>b. b\<lparr>b_dom := (b_dom b)\<lparr>dm_text := (dm_text (b_dom b))(i := t)\<rparr>\<rparr>)"

definition set_html :: "string \<Rightarrow> string \<Rightarrow> unit act" where
  "set_html i t = modify (\<lambda>b. b\<lparr>b_dom := (b_dom b)\<lparr>dm_html := (dm_html (b_dom b))(i := t)\<rparr>\<rparr>)"

definition set_hidden :: "string \<Rightarrow> bool \<Rightarrow> unit act" where
  "set_hidden i v = modify (\<lambda>b. b\<lparr>b_dom := (b_dom b)\<lparr>dm_hidden := (dm_hidden (b_dom b))(i := v)\<rparr>\<rparr>)"

definition set_disabled :: "string \<Rightarrow> bool \<Rightarrow> unit act" where
  "set_disabled i v = modify (\<lambda>b. b\<lparr>b_dom := (b_dom b)\<lparr>dm_disabled := (dm_disabled (b_dom b))(i := v)\<rparr>\<rparr>)"

definition set_value :: "string \<Rightarrow> string \<Rightarrow> unit act" where
  "set_value i t = modify (\<lambda>b. b\<lparr>b_dom := (b_dom b)\<lparr>dm_value := (dm_value (b_dom b))(i := t)\<rparr>\<rparr>)"

definition toggle_class :: "string \<Rightarrow> string \<Rightarrow> bool \<Rightarrow> unit act" where
  "toggle_class i c v = modify (\<lambda>b. b\<lparr>b_dom := (b_dom b)\<lparr>dm_class :=
     (dm_class (b_dom b))(i := (dm_class (b_dom b) i)(c := v))\<rparr>\<rparr>)"

definition go_to :: "string \<Rightarrow> unit act" where
  \<comment> \<open>\<open>location.href = ...\<close>\<close>
  "go_to url = modify (\<lambda>b. b\<lparr>b_hrefs := b_hrefs b @ [url]\<rparr>)"

definition reset_controls :: "string list \<Rightarrow> unit act" where
  \<comment> \<open>\<open>form.reset()\<close>: the controls of a form go back to the values of the page's HTML\<close>
  "reset_controls ids = modify (\<lambda>b. b\<lparr>b_dom := (b_dom b)\<lparr>dm_value :=
     (\<lambda>i. if i \<in> set ids then dm_default (b_dom b) i else dm_value (b_dom b) i)\<rparr>\<rparr>)"

lemmas dom_ops = set_text_def set_html_def set_hidden_def set_disabled_def set_value_def
  toggle_class_def go_to_def reset_controls_def modify_def

lemma steps_Cons: "steps (m # ms) = andThen m (\<lambda>_. steps ms)"
  by (simp add: fun_eq_iff andThen_def)

lemma steps_append: "steps (ms @ ns) b = (case steps ms b of (Inl e, b') \<Rightarrow> (Inl e, b') | (Inr _, b') \<Rightarrow> steps ns b')"
  by (induction ms arbitrary: b) (auto split: prod.split sum.split)

section \<open>Requests\<close>

definition payload_js :: "payload \<Rightarrow> jsval" where
  \<comment> \<open>an error body; the typed payloads are objects or arrays without the properties the code reads\<close>
  "payload_js p = (case p of Plain v \<Rightarrow> v | _ \<Rightarrow> JObj [])"

definition js_field :: "jsval \<Rightarrow> string \<Rightarrow> jsval" where
  \<comment> \<open>\<open>v && v.k\<close> for a truthy v\<close>
  "js_field v k = (case js_get v k of None \<Rightarrow> JUndef | Some w \<Rightarrow> w)"

text \<open>\<open>None\<close> is \<open>null\<close> (status 204) or \<open>undefined\<close> (after the jump to the sign-in page), which the
  callers treat alike.\<close>

definition api :: "string \<Rightarrow> string \<Rightarrow> jsval \<Rightarrow> payload option act" where
  "api http_method path body b =
     (let b1 = b\<lparr>b_sent := b_sent b @ [\<lparr>rq_method = http_method, rq_path = path, rq_body = body\<rparr>],
                b_answers := tl (b_answers b)\<rparr> in
      case b_answers b of
        [] \<Rightarrow> (Inl (JObj []), b1)
      | Net_fail # _ \<Rightarrow> (Inl (JObj []), b1)
      | Answer status status_text p # _ \<Rightarrow>
          if status = 204 then (Inr None, b1)
          else if status = 401 \<and> truthy (payload_js p) \<and> truthy (js_field (payload_js p) ''login_url'')
          then (case go_to (js_string (js_field (payload_js p) ''login_url'')) b1 of (_, b2) \<Rightarrow> (Inr None, b2))
          else if status < 200 \<or> 299 < status
          then (Inl (js_or (payload_js p) (JObj [(''error'', JStr status_text)])), b1)
          else (Inr (Some p), b1))"

definition api_get :: "string \<Rightarrow> payload option act" where
  "api_get path = api ''GET'' path JUndef"

section \<open>Messages and the confirmation dialog\<close>

definition message_text :: "jsval \<Rightarrow> string" where
  "message_text x =
     (case x of JStr s \<Rightarrow> s
      | _ \<Rightarrow> js_string (js_or (js_field x ''error'') (JStr (json_pretty 0 x))))"

definition showMsg :: "jsval \<Rightarrow> string \<Rightarrow> unit act" where
  "showMsg x kind =
     (if \<not> truthy x then steps [set_text ''msg'' [], set_text ''msg.class'' ''notice'']
      else steps [set_text ''msg'' (message_text x), set_text ''msg.class'' (''notice '' @ kind)])"

definition showErr :: "jsval \<Rightarrow> unit act" where
  \<comment> \<open>\<open>showMsg(x)\<close> with its default type\<close>
  "showErr x = showMsg x ''error''"

definition showOk :: "string \<Rightarrow> unit act" where
  "showOk t = showMsg (JStr t) ''ok''"

definition confirmAction :: "string \<Rightarrow> string \<Rightarrow> string \<Rightarrow> bool \<Rightarrow> bool act" where
  "confirmAction title message label danger =
     andThen (steps [set_text ''confirmTitle'' title, set_text ''confirmMessage'' message,
                     set_text ''confirmButton'' label, toggle_class ''confirmButton'' ''danger'' danger])
       (\<lambda>_. reading (\<lambda>b. andThen (modify (\<lambda>b. b\<lparr>b_confirms := tl (b_confirms b)\<rparr>))
          (\<lambda>_. ret (b_confirms b \<noteq> [] \<and> hd (b_confirms b)))))"

section \<open>Signed in and signed out\<close>

definition setAuthNav :: "bool \<Rightarrow> unit act" where
  "setAuthNav loggedIn = steps [set_hidden ''loginTab'' loggedIn, set_hidden ''logoutTab'' (\<not> loggedIn)]"

definition showLogin :: "unit act" where
  "showLogin = steps [setAuthNav False, set_hidden ''dash'' True, set_hidden ''forms'' False]"

definition showApp :: "unit act" where
  "showApp = steps [setAuthNav True, set_hidden ''forms'' True, set_hidden ''dash'' False]"

definition login :: "unit act" where
  "login = go_to ''/auth/microsoft/login''"

definition logout :: "unit act" where
  "logout = go_to ''/auth/logout''"

definition changePass :: "unit act" where
  "changePass = showErr (JStr ''Password auth disabled. Use Microsoft SSO.'')"

text \<open>The role of the signed-in user; \<open>None\<close> before \<open>/api/v1/me\<close> has answered.\<close>

definition role_is :: "browser \<Rightarrow> string \<Rightarrow> bool" where
  "role_is b r \<longleftrightarrow> (case b_user b of None \<Rightarrow> False | Some u \<Rightarrow> me_role u = r)"

definition type_error :: "'a act" where
  \<comment> \<open>reading a property of \<open>null\<close> or \<open>undefined\<close>: an error object without enumerable properties\<close>
  "type_error = throw (JObj [])"

definition the_user :: "(me \<Rightarrow> 'a act) \<Rightarrow> 'a act" where
  "the_user k b = (case b_user b of None \<Rightarrow> type_error b | Some u \<Rightarrow> k u b)"

section \<open>Effects\<close>

text \<open>\<open>keeps g m\<close>: the handler never changes what \<open>g\<close> reads. \<open>sends P m\<close>: it only appends to the
  requests sent, and every request it sends satisfies \<open>P\<close>. Both are proved by following the
  structure of the handler, whatever the server answers and the user decides.\<close>

definition keeps :: "(browser \<Rightarrow> 'x) \<Rightarrow> 'a act \<Rightarrow> bool" where
  "keeps g m \<longleftrightarrow> (\<forall>b. g (snd (m b)) = g b)"

definition sent_more :: "(sent \<Rightarrow> bool) \<Rightarrow> browser \<Rightarrow> browser \<Rightarrow> bool" where
  "sent_more P b b' \<longleftrightarrow> (\<exists>rs. b_sent b' = b_sent b @ rs \<and> list_all P rs)"

definition sends :: "(sent \<Rightarrow> bool) \<Rightarrow> 'a act \<Rightarrow> bool" where
  "sends P m \<longleftrightarrow> (\<forall>b. sent_more P b (snd (m b)))"

lemma sent_more_refl [simp]: "b_sent b' = b_sent b \<Longrightarrow> sent_more P b b'"
  by (simp add: sent_more_def)

lemma sent_more_trans: "sent_more P b b1 \<Longrightarrow> sent_more P b1 b2 \<Longrightarrow> sent_more P b b2"
  unfolding sent_more_def by (metis append.assoc list_all_append)

lemma keeps_basic [effects]:
  "keeps g (ret x)" "keeps g (throw e)" "keeps g type_error"
  by (simp_all add: keeps_def ret_def throw_def type_error_def)

lemma keeps_modify: "(\<And>b. g (f b) = g b) \<Longrightarrow> keeps g (modify f)"
  by (simp add: keeps_def modify_def)

lemma keeps_reading [effects]: "(\<And>b. keeps g (f b)) \<Longrightarrow> keeps g (reading f)"
  by (simp add: keeps_def reading_def)

lemma keeps_andThen [effects]: "keeps g m \<Longrightarrow> (\<And>x. keeps g (k x)) \<Longrightarrow> keeps g (andThen m k)"
  by (simp add: keeps_def andThen_def split: prod.split sum.split) (metis snd_conv)

lemma keeps_try_catch [effects]: "keeps g m \<Longrightarrow> (\<And>x. keeps g (h x)) \<Longrightarrow> keeps g (try_catch m h)"
  by (simp add: keeps_def try_catch_def split: prod.split sum.split) (metis snd_conv)

lemma keeps_steps [effects]: "(\<And>m. m \<in> set ms \<Longrightarrow> keeps g m) \<Longrightarrow> keeps g (steps ms)"
proof (induction ms)
  case Nil
  then show ?case by (simp add: keeps_def)
next
  case (Cons m ms)
  then have "keeps g m" "keeps g (steps ms)" by simp_all
  then show ?case unfolding steps_Cons by (intro keeps_andThen)
qed

lemma keeps_only_if [effects]: "(c \<Longrightarrow> keeps g m) \<Longrightarrow> keeps g (only_if c m)"
  by (simp add: only_if_def keeps_basic)

lemma keeps_both [effects]: "keeps g m \<Longrightarrow> keeps g n \<Longrightarrow> keeps g (both m n)"
  by (simp add: keeps_def both_def split: prod.split) (metis snd_conv)

lemma keeps_finish [effects]: "keeps g m \<Longrightarrow> keeps g (finish m)"
  unfolding finish_def by (intro keeps_andThen keeps_basic)

lemma keeps_the_user [effects]: "(\<And>u. keeps g (k u)) \<Longrightarrow> keeps g (the_user k)"
  by (simp add: keeps_def the_user_def type_error_def throw_def split: option.split)

lemma sends_basic [effects]:
  "sends P (ret x)" "sends P (throw e)" "sends P type_error"
  by (simp_all add: sends_def ret_def throw_def type_error_def)

lemma sends_keeps: "keeps b_sent m \<Longrightarrow> sends P m"
  by (simp add: keeps_def sends_def)

lemma sends_modify: "(\<And>b. b_sent (f b) = b_sent b) \<Longrightarrow> sends P (modify f)"
  by (simp add: sends_def modify_def)

lemma sends_reading [effects]: "(\<And>b. sends P (f b)) \<Longrightarrow> sends P (reading f)"
  by (simp add: sends_def reading_def)

text \<open>One handler after another: the requests of the second follow those of the first.\<close>

lemma sendsD: "sends P m \<Longrightarrow> m b = (r, b') \<Longrightarrow> sent_more P b b'"
  by (metis sends_def snd_conv)

lemma sends_after: "sends P m \<Longrightarrow> sent_more P b b1 \<Longrightarrow> sent_more P b (snd (m b1))"
  by (metis sends_def sent_more_trans)

lemma sends_andThen [effects]:
  assumes "sends P m" and "\<And>x. sends P (k x)"
  shows "sends P (andThen m k)"
  unfolding sends_def andThen_def
  by (auto split: prod.split sum.split dest: sendsD [OF assms(1)] intro: sends_after [OF assms(2)])

lemma sends_try_catch [effects]:
  assumes "sends P m" and "\<And>x. sends P (h x)"
  shows "sends P (try_catch m h)"
  unfolding sends_def try_catch_def
  by (auto split: prod.split sum.split dest: sendsD [OF assms(1)] intro: sends_after [OF assms(2)])

lemma sends_steps [effects]:
  assumes "\<And>m. m \<in> set ms \<Longrightarrow> sends P m"
  shows "sends P (steps ms)"
  using assms
proof (induction ms)
  case Nil
  then show ?case by (simp add: sends_def)
next
  case (Cons m ms)
  then have "sends P m" "sends P (steps ms)" by simp_all
  then show ?case unfolding steps_Cons by (intro sends_andThen)
qed

lemma sends_only_if [effects]: "(c \<Longrightarrow> sends P m) \<Longrightarrow> sends P (only_if c m)"
  by (simp add: only_if_def sends_basic)

lemma sends_both [effects]:
  assumes "sends P m" and "sends P n"
  shows "sends P (both m n)"
  unfolding sends_def both_def
  by (auto split: prod.split dest: sendsD [OF assms(1)] sendsD [OF assms(2)] intro: sent_more_trans)

lemma sends_finish [effects]: "sends P m \<Longrightarrow> sends P (finish m)"
  unfolding finish_def by (intro sends_andThen sends_basic)

lemma sends_the_user [effects]: "(\<And>u. sends P (k u)) \<Longrightarrow> sends P (the_user k)"
  by (simp add: sends_def the_user_def type_error_def throw_def split: option.split)

text \<open>Requests, and writing to the page.\<close>

lemma api_sent:
  "b_sent (snd (api http_method path body b)) =
     b_sent b @ [\<lparr>rq_method = http_method, rq_path = path, rq_body = body\<rparr>]"
  by (simp add: api_def Let_def go_to_def modify_def split: list.split answer.split)

lemma sends_api [effects]:
  "P \<lparr>rq_method = http_method, rq_path = path, rq_body = body\<rparr> \<Longrightarrow> sends P (api http_method path body)"
  by (simp add: sends_def sent_more_def api_sent)

lemma sends_api_get [effects]:
  "P \<lparr>rq_method = ''GET'', rq_path = path, rq_body = JUndef\<rparr> \<Longrightarrow> sends P (api_get path)"
  unfolding api_get_def by (rule sends_api)

lemma sends_dom [effects]:
  "sends P (set_text i t)" "sends P (set_html i t)" "sends P (set_hidden i v)"
  "sends P (set_disabled i v)" "sends P (set_value i t)" "sends P (toggle_class i c v)" "sends P (go_to u)"
  "sends P (reset_controls ids)"
  by (simp_all add: sends_def dom_ops)

lemma sends_showMsg [effects]: "sends P (showMsg x k)" "sends P (showErr x)" "sends P (showOk t)"
  by (auto simp: showErr_def showOk_def showMsg_def intro!: effects)

lemma sends_confirmAction [effects]: "sends P (confirmAction t m l d)"
  unfolding confirmAction_def by (intro effects sends_modify) (auto intro: effects)

text \<open>Of the page itself most theorems follow one flag, the visibility of an element.\<close>

definition hidden_at :: "string \<Rightarrow> browser \<Rightarrow> bool" where
  "hidden_at i b = dm_hidden (b_dom b) i"

lemma keeps_hidden_dom [effects]:
  "keeps (hidden_at j) (set_text i t)" "keeps (hidden_at j) (set_html i t)"
  "i \<noteq> j \<Longrightarrow> keeps (hidden_at j) (set_hidden i v)" "keeps (hidden_at j) (set_disabled i v)"
  "keeps (hidden_at j) (set_value i t)" "keeps (hidden_at j) (toggle_class i c v)" "keeps (hidden_at j) (go_to u)"
  by (simp_all add: keeps_def hidden_at_def dom_ops)

lemma keeps_hidden_api [effects]: "keeps (hidden_at j) (api mth path body)" "keeps (hidden_at j) (api_get path)"
  by (simp_all add: keeps_def hidden_at_def api_get_def api_def Let_def go_to_def modify_def
      split: list.split answer.split)

lemma keeps_hidden_showMsg [effects]:
  "keeps (hidden_at j) (showMsg x k)" "keeps (hidden_at j) (showErr x)" "keeps (hidden_at j) (showOk t)"
  by (auto simp: showErr_def showOk_def showMsg_def intro!: effects)

end
