(* ===== verification/Charts.thy ===== *)
theory Charts
  imports Rows
begin

text \<open>
  The charts of the report view (\<open>web/reports.js\<close>): \<open>lineChartCard\<close>, \<open>barChartCard\<close>,
  \<open>compositionChartCard\<close>, \<open>chartDataTable\<close>, \<open>chartCard\<close>, \<open>reportCard\<close>. Coordinates and shares are
  rational numbers, where the code has doubles; how a number is printed is a parameter.

  A chart is a template in the sense of \<open>Html\<close>. The lemmas show that coordinates stay inside the
  drawing, that bars and shares stay within 100 percent, and that no key, day or title changes
  the markup.
\<close>

text \<open>The formatting functions of the browser: \<open>Date.toLocaleString\<close>, \<open>Number.toLocaleString\<close> with a
  maximum of fraction digits, \<open>String\<close> of a number, \<open>toFixed(1)\<close>.\<close>

record fmt =
  f_date :: "int \<Rightarrow> string"
  f_number :: "rat \<Rightarrow> nat \<Rightarrow> string"
  f_text :: "rat \<Rightarrow> string"
  f_fixed1 :: "rat \<Rightarrow> string"

definition fmt_inert :: "fmt \<Rightarrow> bool" where
  "fmt_inert f \<longleftrightarrow> (\<forall>t. inert (f_date f t)) \<and> (\<forall>v d. inert (f_number f v d)) \<and>
     (\<forall>v. inert (f_text f v)) \<and> (\<forall>v. inert (f_fixed1 f v))"

lemma fmt_inertD [simp]:
  assumes "fmt_inert f"
  shows "inert (f_date f t)" "inert (f_number f v d)" "inert (f_text f v)" "inert (f_fixed1 f v)"
  using assms by (simp_all add: fmt_inert_def)

definition reportNumber :: "fmt \<Rightarrow> rat \<Rightarrow> nat option \<Rightarrow> string" where
  "reportNumber f v digits = f_number f v (case digits of None \<Rightarrow> 0 | Some d \<Rightarrow> d)"

lemma inert_reportNumber [simp]: "fmt_inert f \<Longrightarrow> inert (reportNumber f v d)"
  by (simp add: reportNumber_def)

section \<open>Cards and tables\<close>

definition reportCard :: "string \<Rightarrow> string \<Rightarrow> string \<Rightarrow> piece list" where
  \<open>reportCard label v note =
     [Lit ''<article><span>'', Expr (esc_text label), Lit ''</span><b>'', Expr (esc_text v),
      Lit ''</b><small>'', Expr (esc_text note), Lit ''</small></article>'']\<close>

definition chartCard :: "string \<Rightarrow> string \<Rightarrow> piece list \<Rightarrow> piece list" where
  \<open>chartCard title subtitle body =
     [Lit ''<section class="card chart-card"><h3>'', Expr (esc_text title), Lit ''</h3><p class="muted">'',
      Expr (esc_text subtitle), Lit ''</p>''] @ body @ [Lit ''</section>'']\<close>

definition chartDataRow :: "fmt \<Rightarrow> string \<times> int \<Rightarrow> piece list" where
  \<open>chartDataRow f p =
     [Lit ''<tr><td>'', Expr (esc_text (fst p)), Lit ''</td><td>'',
      Expr (reportNumber f (of_int (snd p)) None), Lit ''</td></tr>'']\<close>

definition chartDataTable :: "fmt \<Rightarrow> (string \<times> int) list \<Rightarrow> piece list" where
  \<comment> \<open>the label is \<open>point[labelKey]\<close>: the key, or the day\<close>
  \<open>chartDataTable f ps =
     [Lit ''<details class="chart-data"><summary>View data</summary><table><thead><tr><th>Label</th><th>Clicks</th></tr></thead><tbody>''] @
     concat (map (chartDataRow f) ps) @ [Lit ''</tbody></table></details>'']\<close>

section \<open>The line chart\<close>

definition chart_width :: int where "chart_width = 720"
definition chart_height :: int where "chart_height = 230"
definition chart_left :: int where "chart_left = 42"
definition chart_right :: int where "chart_right = 18"
definition chart_top :: int where "chart_top = 18"
definition chart_bottom :: int where "chart_bottom = 34"

lemmas chart_box = chart_width_def chart_height_def chart_left_def chart_right_def chart_top_def
  chart_bottom_def

definition max_clicks :: "int list \<Rightarrow> int" where
  \<comment> \<open>\<open>Math.max.apply(null, [1].concat(...))\<close>\<close>
  "max_clicks cs = fold max cs 1"

record coord =
  co_x :: rat
  co_y :: rat
  co_day :: string
  co_clicks :: int

definition line_coord :: "nat \<Rightarrow> int \<Rightarrow> nat \<Rightarrow> daily_point \<Rightarrow> coord" where
  "line_coord n mx i p =
     (let span = max 1 (int n - 1) in
      \<lparr>co_x = of_int chart_left + (of_nat i / of_int span) * of_int (chart_width - chart_left - chart_right),
       co_y = of_int chart_top +
         (1 - of_int (dp_clicks p) / of_int mx) * of_int (chart_height - chart_top - chart_bottom),
       co_day = dp_day p, co_clicks = dp_clicks p\<rparr>)"

definition line_coords :: "daily_point list \<Rightarrow> coord list" where
  "line_coords ps =
     map (\<lambda>(i, p). line_coord (length ps) (max_clicks (map dp_clicks ps)) i p) (enumerate 0 ps)"

definition label_index :: "nat \<Rightarrow> nat \<Rightarrow> bool" where
  "label_index n i \<longleftrightarrow> i = 0 \<or> i = n - 1 \<or> i = n div 2"

definition line_labels :: "coord list \<Rightarrow> coord list" where
  "line_labels cs = map snd (filter (\<lambda>(i, c). label_index (length cs) i) (enumerate 0 cs))"

definition label_anchor :: "coord \<Rightarrow> string" where
  "label_anchor c =
     (if co_x c = of_int chart_left then ''start''
      else if co_x c > of_int chart_width / 2 then ''end'' else ''middle'')"

definition polyline_text :: "fmt \<Rightarrow> coord list \<Rightarrow> string" where
  "polyline_text f cs = join_with '' '' (map (\<lambda>c. f_fixed1 f (co_x c) @ '','' @ f_fixed1 f (co_y c)) cs)"

definition line_tag :: "int \<Rightarrow> int \<Rightarrow> int \<Rightarrow> int \<Rightarrow> string \<Rightarrow> piece list" where
  \<open>line_tag x1 y1 x2 y2 cls =
     [Lit ''<line x1="'', Expr (int_text x1), Lit ''" y1="'', Expr (int_text y1), Lit ''" x2="'',
      Expr (int_text x2), Lit ''" y2="'', Expr (int_text y2), Lit (''" class="'' @ cls @ ''"/>'')]\<close>

definition point_tag :: "fmt \<Rightarrow> coord \<Rightarrow> piece list" where
  \<open>point_tag f c =
     [Lit ''<circle cx="'', Expr (f_text f (co_x c)), Lit ''" cy="'', Expr (f_text f (co_y c)),
      Lit ''" r="3.5" class="chart-point"><title>'', Expr (esc_text (co_day c)), Lit '': '',
      Expr (reportNumber f (of_int (co_clicks c)) None), Lit '' clicks</title></circle>'']\<close>

definition label_tag :: "fmt \<Rightarrow> coord \<Rightarrow> piece list" where
  \<open>label_tag f c =
     [Lit ''<text x="'', Expr (f_text f (co_x c)), Lit ''" y="'', Expr (int_text (chart_height - 10)),
      Lit ''" text-anchor="'', Expr (label_anchor c), Lit ''" class="chart-label">'',
      Expr (esc_text (drop 5 (co_day c))), Lit ''</text>'']\<close>

definition axis_label :: "int \<Rightarrow> piece \<Rightarrow> piece list" where
  \<open>axis_label y label =
     [Lit ''<text x="'', Expr (int_text (chart_left - 8)), Lit ''" y="'', Expr (int_text y),
      Lit ''" text-anchor="end" class="chart-label">'', label, Lit ''</text>'']\<close>

definition lineChartCard :: "fmt \<Rightarrow> string \<Rightarrow> string \<Rightarrow> daily_point list \<Rightarrow> piece list" where
  \<open>lineChartCard f title subtitle ps =
     (let cs = line_coords ps in
      if length ps < 2 then chartCard title subtitle [Lit ''<div class="empty">Not enough days for a trend.</div>'']
      else chartCard title subtitle
        ([Lit ''<svg class="chart-svg" viewBox="0 0 '', Expr (int_text chart_width), Lit '' '',
          Expr (int_text chart_height), Lit ''" role="img" aria-label="'', Expr (esc_text title), Lit ''">''] @
         line_tag chart_left (chart_height - chart_bottom) (chart_width - chart_right)
           (chart_height - chart_bottom) ''chart-axis'' @
         line_tag chart_left chart_top chart_left (chart_height - chart_bottom) ''chart-axis'' @
         line_tag chart_left chart_top (chart_width - chart_right) chart_top ''chart-grid'' @
         axis_label (chart_top + 4) (Expr (reportNumber f (of_int (max_clicks (map dp_clicks ps))) None)) @
         axis_label (chart_height - chart_bottom + 4) (Lit ''0'') @
         [Lit ''<polyline points="'', Expr (polyline_text f cs), Lit ''" class="chart-line"/>''] @
         concat (map (point_tag f) cs) @ concat (map (label_tag f) (line_labels cs)) @ [Lit ''</svg>''] @
         chartDataTable f (map (\<lambda>p. (dp_day p, dp_clicks p)) ps)))\<close>

section \<open>The bar chart\<close>

definition bar_width :: "int \<Rightarrow> int \<Rightarrow> rat" where
  "bar_width mx clicks = max 2 (of_int clicks / of_int mx * 100)"

definition bar_row :: "fmt \<Rightarrow> int \<Rightarrow> point \<Rightarrow> piece list" where
  \<open>bar_row f mx p =
     [Lit ''<div class="bar-row"><span title="'', Expr (esc_text (p_key p)), Lit ''">'', Expr (esc_text (p_key p)),
      Lit ''</span><div><i style="width:'', Expr (f_text f (bar_width mx (p_clicks p))),
      Lit ''%"></i></div><b>'', Expr (reportNumber f (of_int (p_clicks p)) None), Lit ''</b></div>'']\<close>

definition points_table :: "point list \<Rightarrow> (string \<times> int) list" where
  "points_table ps = map (\<lambda>p. (p_key p, p_clicks p)) ps"

definition barChartCard :: "fmt \<Rightarrow> string \<Rightarrow> string \<Rightarrow> point list \<Rightarrow> piece list" where
  \<open>barChartCard f title subtitle ps =
     (let shown = take 8 ps; mx = max_clicks (map p_clicks shown) in
      if shown = [] then chartCard title subtitle [Lit ''<div class="empty">No data in this period.</div>'']
      else chartCard title subtitle
        ([Lit ''<div class="bar-chart">''] @ concat (map (bar_row f mx) shown) @ [Lit ''</div>''] @
         chartDataTable f (points_table shown)))\<close>

section \<open>The composition chart\<close>

definition last_value :: "string \<Rightarrow> point list \<Rightarrow> int" where
  \<comment> \<open>\<open>values[key] || 0\<close> after the loop has stored every point under its key\<close>
  "last_value key ps = (case find (\<lambda>p. p_key p = key) (rev ps) of None \<Rightarrow> 0 | Some p \<Rightarrow> p_clicks p)"

definition human_share :: "int \<Rightarrow> int \<Rightarrow> rat" where
  "human_share human bots = of_int human / of_int (human + bots) * 100"

definition compositionChartCard :: "fmt \<Rightarrow> string \<Rightarrow> string \<Rightarrow> point list \<Rightarrow> piece list" where
  \<open>compositionChartCard f title subtitle ps =
     (let human = last_value ''human'' ps; bots = last_value ''bot'' ps; share = human_share human bots in
      if human + bots = 0
      then chartCard title subtitle [Lit ''<div class="empty">No successful redirects in this period.</div>'']
      else chartCard title subtitle
        ([Lit ''<div class="composition-chart" role="img" aria-label="'', Expr (reportNumber f share (Some 1)),
          Lit '' percent human and '', Expr (reportNumber f (100 - share) (Some 1)),
          Lit '' percent bot traffic"><i style="width:'', Expr (f_text f share), Lit ''%"></i><em style="width:'',
          Expr (f_text f (100 - share)),
          Lit ''%"></em></div><div class="composition-legend"><span><i></i>Human '',
          Expr (reportNumber f (of_int human) None), Lit '' ('', Expr (reportNumber f share (Some 1)),
          Lit ''%)</span><span><em></em>Bot '', Expr (reportNumber f (of_int bots) None), Lit '' ('',
          Expr (reportNumber f (100 - share) (Some 1)), Lit ''%)</span></div>''] @
         chartDataTable f (points_table ps)))\<close>

section \<open>The geometry\<close>

lemma max_clicks_ge: "c \<in> set cs \<Longrightarrow> c \<le> max_clicks cs" "1 \<le> max_clicks cs"
proof -
  have m: "max_clicks cs = Max (set (1 # cs))"
    unfolding max_clicks_def by (rule Max.set_eq_fold [symmetric])
  show "c \<in> set cs \<Longrightarrow> c \<le> max_clicks cs" "1 \<le> max_clicks cs"
    unfolding m by (auto intro!: Max_ge)
qed

lemma length_line_coords [simp]: "length (line_coords ps) = length ps"
  by (simp add: line_coords_def)

lemma line_coords_nth:
  "i < length ps \<Longrightarrow> line_coords ps ! i =
     line_coord (length ps) (max_clicks (map dp_clicks ps)) i (ps ! i)"
  by (simp add: line_coords_def nth_enumerate_eq)

lemma frac_bounds:
  "0 \<le> (a :: int) \<Longrightarrow> a \<le> b \<Longrightarrow> 0 < b \<Longrightarrow>
   0 \<le> (of_int a / of_int b :: rat) \<and> (of_int a / of_int b :: rat) \<le> 1"
  by (simp add: divide_le_eq)

lemma scaled: "0 \<le> r \<and> r \<le> 1 \<Longrightarrow> 0 \<le> w \<Longrightarrow> (a :: rat) \<le> a + r * w \<and> a + r * w \<le> a + w"
  by (simp add: mult_left_le_one_le)

lemma line_coord_x:
  assumes "i < n"
  shows "42 \<le> co_x (line_coord n mx i p) \<and> co_x (line_coord n mx i p) \<le> 702"
proof -
  have "0 \<le> (of_int (int i) / of_int (max 1 (int n - 1)) :: rat) \<and>
        (of_int (int i) / of_int (max 1 (int n - 1)) :: rat) \<le> 1"
    using assms by (intro frac_bounds) auto
  from scaled [OF this, of 660 42] show ?thesis
    by (simp add: line_coord_def Let_def chart_box)
qed

lemma line_coord_y:
  assumes "0 \<le> dp_clicks p" and "dp_clicks p \<le> mx" and "0 < mx"
  shows "18 \<le> co_y (line_coord n mx i p) \<and> co_y (line_coord n mx i p) \<le> 196"
proof -
  have "0 \<le> 1 - (of_int (dp_clicks p) / of_int mx :: rat) \<and> 1 - (of_int (dp_clicks p) / of_int mx :: rat) \<le> 1"
    using frac_bounds [OF assms] by simp
  from scaled [OF this, of 178 18] show ?thesis
    by (simp add: line_coord_def Let_def chart_box)
qed

lemma line_coord_x_mono:
  assumes "i < j" and "j < n"
  shows "co_x (line_coord n mx i p) < co_x (line_coord n mx j q)"
proof -
  have "(of_nat i * 660 :: rat) / of_int (max 1 (int n - 1)) < of_nat j * 660 / of_int (max 1 (int n - 1))"
    using assms by (intro divide_strict_right_mono) auto
  then show ?thesis by (simp add: line_coord_def Let_def chart_box)
qed

lemma bar_width_bounds:
  assumes "0 \<le> c" and "c \<le> mx" and "0 < mx"
  shows "2 \<le> bar_width mx c \<and> bar_width mx c \<le> 100"
  using scaled [OF frac_bounds [OF assms], of 100 0] by (simp add: bar_width_def)

lemma human_share_bounds:
  assumes "0 \<le> h" and "0 \<le> k" and "h + k \<noteq> 0"
  shows "0 \<le> human_share h k \<and> human_share h k \<le> 100"
  using scaled [OF frac_bounds [of h "h + k"], of 100 0] assms by (simp add: human_share_def)

section \<open>The markup\<close>

lemma label_anchor_inert [simp]: "inert (label_anchor c)"
  by (simp add: label_anchor_def)

lemma inert_join: "inert sep \<Longrightarrow> (\<And>x. x \<in> set xs \<Longrightarrow> inert x) \<Longrightarrow> inert (join_with sep xs)"
  by (induction sep xs rule: join_with.induct) auto

lemma polyline_inert [simp]: "fmt_inert f \<Longrightarrow> inert (polyline_text f cs)"
  by (auto simp: polyline_text_def intro!: inert_join)

lemma chartDataTable_safe: "fmt_inert f \<Longrightarrow> safe_template InText (chartDataTable f ps) = Some InText"
  by (simp add: chartDataTable_def safe_template_append safe_template_concat chartDataRow_def)

lemma chartCard_safe:
  "safe_template InText body = Some InText \<Longrightarrow> safe_template InText (chartCard t s body) = Some InText"
  by (simp add: chartCard_def safe_template_append)

lemma bar_row_safe: "fmt_inert f \<Longrightarrow> safe_template InText (bar_row f mx p) = Some InText"
  by (simp add: bar_row_def)

lemma barChartCard_safe: "fmt_inert f \<Longrightarrow> safe_template InText (barChartCard f t s ps) = Some InText"
  by (simp add: barChartCard_def Let_def chartCard_safe safe_template_append safe_template_concat
      bar_row_safe chartDataTable_safe)

lemma compositionChartCard_safe:
  "fmt_inert f \<Longrightarrow> safe_template InText (compositionChartCard f t s ps) = Some InText"
  by (simp add: compositionChartCard_def Let_def chartCard_safe safe_template_append chartDataTable_safe)

lemma line_tag_safe:
  "cls \<in> {''chart-axis'', ''chart-grid''} \<Longrightarrow> safe_template InText (line_tag x1 y1 x2 y2 cls) = Some InText"
  by (auto simp: line_tag_def)

lemma axis_label_safe:
  "label = Lit ''0'' \<or> (\<exists>t. label = Expr t \<and> inert t) \<Longrightarrow> safe_template InText (axis_label y label) = Some InText"
  by (auto simp: axis_label_def)

lemma point_tag_safe: "fmt_inert f \<Longrightarrow> safe_template InText (point_tag f c) = Some InText"
  by (simp add: point_tag_def)

lemma label_tag_safe: "fmt_inert f \<Longrightarrow> safe_template InText (label_tag f c) = Some InText"
  by (simp add: label_tag_def)

lemma lineChartCard_safe: "fmt_inert f \<Longrightarrow> safe_template InText (lineChartCard f t s ps) = Some InText"
  by (simp add: lineChartCard_def Let_def chartCard_safe safe_template_append safe_template_concat
      line_tag_safe axis_label_safe point_tag_safe label_tag_safe chartDataTable_safe)

lemmas chart_safe = lineChartCard_safe barChartCard_safe compositionChartCard_safe

text \<open>What decides the structure of a chart: the number of points, and for the composition chart
  whether there is any traffic.\<close>

lemma concat_same_shape:
  "length xs = length ys \<Longrightarrow> (\<And>x y. template_shape (g x) = template_shape (h y)) \<Longrightarrow>
   template_shape (concat (map g xs)) = template_shape (concat (map h ys))"
  by (rule template_shape_concat) (simp add: list_all2_conv_all_nth)

lemma chartDataTable_shape:
  "length ps = length qs \<Longrightarrow> template_shape (chartDataTable f ps) = template_shape (chartDataTable f' qs)"
  by (simp add: chartDataTable_def concat_same_shape [of ps qs "chartDataRow f" "chartDataRow f'"] chartDataRow_def)

lemma chartCard_shape:
  "template_shape body = template_shape body' \<Longrightarrow>
   template_shape (chartCard t s body) = template_shape (chartCard t' s' body')"
  by (simp add: chartCard_def)

lemma barChartCard_shape:
  assumes "length ps = length qs"
  shows "template_shape (barChartCard f t s ps) = template_shape (barChartCard f' t' s' qs)"
proof -
  have "length (take 8 ps) = length (take 8 qs)" "ps = [] \<longleftrightarrow> qs = []" using assms by auto
  then show ?thesis
    using concat_same_shape [of "take 8 ps" "take 8 qs" "bar_row f (max_clicks (map p_clicks (take 8 ps)))"
        "bar_row f' (max_clicks (map p_clicks (take 8 qs)))"]
      chartDataTable_shape [of "points_table (take 8 ps)" "points_table (take 8 qs)" f f']
    by (auto simp: barChartCard_def Let_def bar_row_def points_table_def intro!: chartCard_shape)
qed

lemma compositionChartCard_shape:
  assumes "length ps = length qs"
    and "last_value ''human'' ps + last_value ''bot'' ps = 0 \<longleftrightarrow> last_value ''human'' qs + last_value ''bot'' qs = 0"
  shows "template_shape (compositionChartCard f t s ps) = template_shape (compositionChartCard f' t' s' qs)"
  using assms chartDataTable_shape [of "points_table ps" "points_table qs" f f']
  by (auto simp: compositionChartCard_def Let_def points_table_def intro!: chartCard_shape)

lemma length_line_labels: "length (line_labels cs) = length (filter (label_index (length cs)) [0..<length cs])"
proof -
  have "map fst (filter (\<lambda>(i, c). P i) (enumerate n cs)) = filter P [n..<n + length cs]" for P n
    by (induction cs arbitrary: n) (auto simp: upt_conv_Cons simp del: upt_Suc)
  from arg_cong [where f = length, OF this [of "label_index (length cs)" 0]] show ?thesis
    by (simp add: line_labels_def)
qed

lemma lineChartCard_shape:
  assumes "length ps = length qs"
  shows "template_shape (lineChartCard f t s ps) = template_shape (lineChartCard f' t' s' qs)"
proof -
  have l: "length (line_labels (line_coords ps)) = length (line_labels (line_coords qs))"
    using assms by (simp add: length_line_labels)
  show ?thesis
    using assms l concat_same_shape [of "line_coords ps" "line_coords qs" "point_tag f" "point_tag f'"]
      concat_same_shape [OF l, of "label_tag f" "label_tag f'"]
      chartDataTable_shape [of "map (\<lambda>p. (dp_day p, dp_clicks p)) ps" "map (\<lambda>p. (dp_day p, dp_clicks p)) qs" f f']
    by (auto simp: lineChartCard_def Let_def line_tag_def axis_label_def point_tag_def label_tag_def
        intro!: chartCard_shape)
qed

section \<open>Properties\<close>

text \<open>C23: The line chart stays inside its drawing. For any series of at least two days with counts that
  are not negative, every point lies within the axes, the days run strictly from left to right
  from the left axis to the right edge, more clicks are never drawn lower, and the first label
  is anchored at its start and the last at its end, so that neither leaves the drawing.\<close>

theorem line_chart_inside:
  assumes "2 \<le> length ps" and "\<forall>p \<in> set ps. 0 \<le> dp_clicks p"
  shows "(\<forall>c \<in> set (line_coords ps). 42 \<le> co_x c \<and> co_x c \<le> 702 \<and> 18 \<le> co_y c \<and> co_y c \<le> 196) \<and>
    sorted_wrt (\<lambda>c d. co_x c < co_x d) (line_coords ps) \<and>
    (\<forall>c \<in> set (line_coords ps). \<forall>d \<in> set (line_coords ps). co_clicks c \<le> co_clicks d \<longrightarrow> co_y d \<le> co_y c) \<and>
    co_x (hd (line_coords ps)) = 42 \<and> co_x (last (line_coords ps)) = 702 \<and>
    label_anchor (hd (line_coords ps)) = ''start'' \<and> label_anchor (last (line_coords ps)) = ''end''"
proof -
  let ?n = "length ps" and ?mx = "max_clicks (map dp_clicks ps)"
  have mx: "0 < ?mx" using max_clicks_ge(2) [of "map dp_clicks ps"] by simp
  have at: "\<exists>i p. i < ?n \<and> p \<in> set ps \<and> c = line_coord ?n ?mx i p" if c: "c \<in> set (line_coords ps)" for c
  proof -
    obtain i where i: "i < ?n" "c = line_coords ps ! i" using c by (metis in_set_conv_nth length_line_coords)
    then show ?thesis by (intro exI [of _ i] exI [of _ "ps ! i"]) (simp add: line_coords_nth)
  qed
  have box: "42 \<le> co_x c \<and> co_x c \<le> 702 \<and> 18 \<le> co_y c \<and> co_y c \<le> 196" if c: "c \<in> set (line_coords ps)" for c
  proof -
    obtain i p where p: "i < ?n" "p \<in> set ps" "c = line_coord ?n ?mx i p" using at [OF c] by blast
    have "dp_clicks p \<le> ?mx" using max_clicks_ge(1) [of "dp_clicks p"] p(2) by simp
    then show ?thesis using line_coord_x [OF p(1)] line_coord_y [OF _ _ mx] assms(2) p by auto
  qed
  have srt: "sorted_wrt (\<lambda>c d. co_x c < co_x d) (line_coords ps)"
    by (simp add: sorted_wrt_iff_nth_less line_coords_nth line_coord_x_mono)
  have low: "co_y d \<le> co_y c"
    if cd: "c \<in> set (line_coords ps)" "d \<in> set (line_coords ps)" "co_clicks c \<le> co_clicks d" for c d
  proof -
    obtain i p j q where "c = line_coord ?n ?mx i p" "d = line_coord ?n ?mx j q" using at cd(1,2) by blast
    moreover have "(of_int (dp_clicks p) * 178 :: rat) / of_int ?mx \<le> of_int (dp_clicks q) * 178 / of_int ?mx"
      using cd(3) calculation mx by (intro divide_right_mono) (simp_all add: line_coord_def Let_def)
    ultimately show ?thesis by (simp add: line_coord_def Let_def chart_box)
  qed
  have ne: "line_coords ps \<noteq> []" using assms(1) by (metis length_line_coords list.size(3) not_numeral_le_zero)
  have hd0: "hd (line_coords ps) = line_coord ?n ?mx 0 (ps ! 0)"
    using ne assms(1) line_coords_nth [of 0 ps] by (cases ps) (simp_all add: hd_conv_nth)
  have lst: "last (line_coords ps) = line_coord ?n ?mx (?n - 1) (ps ! (?n - 1))"
    using ne assms(1) by (simp add: last_conv_nth line_coords_nth)
  have "co_x (hd (line_coords ps)) = 42" by (simp add: hd0 line_coord_def Let_def chart_box)
  moreover have "co_x (last (line_coords ps)) = 702"
  proof -
    obtain k where k: "?n = k + 2" using assms(1) le_Suc_ex by (metis add.commute)
    have "(1 + rat_of_nat k) \<noteq> 0" by (simp add: add_nonneg_eq_0_iff)
    then have "(of_nat (?n - 1) :: rat) / of_int (max 1 (int ?n - 1)) = 1"
      by (simp add: k max_def)
    then show ?thesis unfolding lst line_coord_def Let_def coord.simps using assms(1) by (simp add: chart_box)
  qed
  ultimately show ?thesis
    using box srt low by (simp add: label_anchor_def chart_box)
qed

definition sample_days :: "daily_point list" where
  "sample_days = [\<lparr>dp_day = ''2026-01-01'', dp_clicks = 3\<rparr>, \<lparr>dp_day = ''2026-01-02'', dp_clicks = 0\<rparr>,
                  \<lparr>dp_day = ''2026-01-03'', dp_clicks = 9\<rparr>]"

theorem line_chart_inside_witness:
  "list_all (\<lambda>c. 42 \<le> co_x c \<and> co_x c \<le> 702 \<and> 18 \<le> co_y c \<and> co_y c \<le> 196) (line_coords sample_days) \<and>
    sorted_wrt (\<lambda>c d. co_x c < co_x d) (line_coords sample_days) \<and>
    co_x (hd (line_coords sample_days)) = 42 \<and> co_x (last (line_coords sample_days)) = 702 \<and>
    label_anchor (hd (line_coords sample_days)) = ''start'' \<and>
    label_anchor (last (line_coords sample_days)) = ''end''"
proof -
  have "2 \<le> length sample_days" "\<forall>p \<in> set sample_days. 0 \<le> dp_clicks p" by (simp_all add: sample_days_def)
  from line_chart_inside [OF this] show ?thesis unfolding list_all_iff by blast
qed

text \<open>Bars and shares stay within 100 percent. For counts that are not negative every bar of a bar
  chart is between 2 and 100 percent wide, and the human and bot shares of the composition chart
  are between 0 and 100 percent and add up to 100.\<close>

theorem shares_within_bounds:
  assumes "\<forall>p \<in> set ps. 0 \<le> p_clicks p"
  shows "(\<forall>p \<in> set (take 8 ps). 2 \<le> bar_width (max_clicks (map p_clicks (take 8 ps))) (p_clicks p) \<and>
       bar_width (max_clicks (map p_clicks (take 8 ps))) (p_clicks p) \<le> 100) \<and>
    (last_value ''human'' ps + last_value ''bot'' ps \<noteq> 0 \<longrightarrow>
       0 \<le> human_share (last_value ''human'' ps) (last_value ''bot'' ps) \<and>
       human_share (last_value ''human'' ps) (last_value ''bot'' ps) \<le> 100 \<and>
       100 - human_share (last_value ''human'' ps) (last_value ''bot'' ps) =
         human_share (last_value ''bot'' ps) (last_value ''human'' ps))"
proof -
  have v: "0 \<le> last_value k ps" for k
    using assms by (auto simp: last_value_def split: option.split dest: find_SomeD)
  have bars: "2 \<le> bar_width mx (p_clicks p) \<and> bar_width mx (p_clicks p) \<le> 100"
    if mx: "mx = max_clicks (map p_clicks (take 8 ps))" and p: "p \<in> set (take 8 ps)" for mx p
    using max_clicks_ge(1) [of "p_clicks p" "map p_clicks (take 8 ps)"]
      max_clicks_ge(2) [of "map p_clicks (take 8 ps)"] p assms in_set_takeD [OF p]
    unfolding mx by (intro bar_width_bounds) auto
  have "100 - human_share h k = human_share k h" if "h + k \<noteq> 0" for h k
  proof -
    have "(of_int h + of_int k :: rat) \<noteq> 0" using that by (metis of_int_add of_int_eq_0_iff)
    then show ?thesis by (simp add: human_share_def add.commute [of k h] field_simps)
  qed
  with bars human_share_bounds [of "last_value ''human'' ps" "last_value ''bot'' ps"] v show ?thesis
    by blast
qed

definition sample_traffic :: "point list" where
  "sample_traffic = [\<lparr>p_key = ''human'', p_clicks = 3\<rparr>, \<lparr>p_key = ''bot'', p_clicks = 1\<rparr>]"

theorem shares_within_bounds_witness:
  "list_all (\<lambda>p. 2 \<le> bar_width (max_clicks (map p_clicks (take 8 sample_traffic))) (p_clicks p) \<and>
      bar_width (max_clicks (map p_clicks (take 8 sample_traffic))) (p_clicks p) \<le> 100) (take 8 sample_traffic) \<and>
    human_share (last_value ''human'' sample_traffic) (last_value ''bot'' sample_traffic) \<le> 100 \<and>
    100 - human_share (last_value ''human'' sample_traffic) (last_value ''bot'' sample_traffic) =
      human_share (last_value ''bot'' sample_traffic) (last_value ''human'' sample_traffic)"
proof -
  have "\<forall>p \<in> set sample_traffic. 0 \<le> p_clicks p" by (simp add: sample_traffic_def)
  note shares = shares_within_bounds [OF this]
  have "last_value ''human'' sample_traffic + last_value ''bot'' sample_traffic \<noteq> 0"
    by (simp add: sample_traffic_def last_value_def)
  with shares show ?thesis unfolding list_all_iff by blast
qed

text \<open>C24: No text in a report can inject markup into a chart. Two line charts of as many days, two bar
  charts of as many points, and two composition charts of as many points that both have traffic
  or both have none, make the browser read the same tags, whatever titles, days, keys (browser
  names, referrer hosts, campaign names) and counts they show.\<close>

theorem charts_markup:
  assumes "fmt_inert f" and "fmt_inert f'" and "length ds = length es" and "length ps = length qs"
    and "last_value ''human'' ps + last_value ''bot'' ps = 0 \<longleftrightarrow> last_value ''human'' qs + last_value ''bot'' qs = 0"
  shows "same_markup InText (render (lineChartCard f t s ds)) (render (lineChartCard f' t' s' es)) InText \<and>
    same_markup InText (render (barChartCard f t s ps)) (render (barChartCard f' t' s' qs)) InText \<and>
    same_markup InText (render (compositionChartCard f t s ps)) (render (compositionChartCard f' t' s' qs)) InText"
  by (intro conjI same_markup_template [where st'' = InText] chart_safe assms lineChartCard_shape
      barChartCard_shape compositionChartCard_shape)

definition plain_fmt :: fmt where
  "plain_fmt = \<lparr>f_date = int_text, f_number = (\<lambda>v d. int_text (floor v)), f_text = (\<lambda>v. int_text (floor v)),
     f_fixed1 = (\<lambda>v. int_text (floor v))\<rparr>"

lemma plain_fmt_inert [simp]: "fmt_inert plain_fmt"
  by (simp add: fmt_inert_def plain_fmt_def)

theorem charts_markup_witness:
  \<open>same_markup InText (render (lineChartCard plain_fmt ''a'' ''b'' sample_days))
     (render (lineChartCard plain_fmt ''<b>'' ''"'' (rev sample_days))) InText \<and>
   same_markup InText (render (barChartCard plain_fmt ''a'' ''b'' [\<lparr>p_key = ''human'', p_clicks = 1\<rparr>]))
     (render (barChartCard plain_fmt ''<b>'' ''"'' [\<lparr>p_key = ''bot'', p_clicks = 7\<rparr>])) InText \<and>
   same_markup InText (render (compositionChartCard plain_fmt ''a'' ''b'' [\<lparr>p_key = ''human'', p_clicks = 1\<rparr>]))
     (render (compositionChartCard plain_fmt ''<b>'' ''"'' [\<lparr>p_key = ''bot'', p_clicks = 7\<rparr>])) InText\<close>
  by (rule charts_markup) (simp_all add: last_value_def)

end
