(* ===== verification/Reports.thy ===== *)
theory Reports
  imports Browser Charts
begin

text \<open>
  The report view (\<open>web/reports.js\<close>): the date window (\<open>localDateValue\<close>, \<open>setReportPreset\<close>,
  \<open>reportQuery\<close>), the paths (\<open>reportBasePath\<close>, \<open>openLinkReport\<close>, \<open>openUserReport\<close>,
  \<open>downloadReport\<close>), \<open>loadCurrentReport\<close> and \<open>renderReport\<close>.

  A \<open>Date\<close> at local midnight is a calendar day (year, month, day); \<open>setDate\<close> with a day out of the
  month moves into the neighbouring months, which is \<open>add_days\<close>. What the code reads from its
  surroundings (formatting, today, the time zone) is the record \<open>env\<close>.
\<close>

section \<open>Calendar days\<close>

type_synonym date = "nat \<times> nat \<times> nat"

definition leap :: "nat \<Rightarrow> bool" where
  "leap y \<longleftrightarrow> (4 dvd y \<and> \<not> 100 dvd y) \<or> 400 dvd y"

definition month_days :: "nat \<Rightarrow> nat \<Rightarrow> nat" where
  "month_days y m = (if m = 2 then (if leap y then 29 else 28) else if m \<in> {4, 6, 9, 11} then 30 else 31)"

definition valid_date :: "date \<Rightarrow> bool" where
  "valid_date = (\<lambda>(y, m, d). 1 \<le> m \<and> m \<le> 12 \<and> 1 \<le> d \<and> d \<le> month_days y m)"

definition next_day :: "date \<Rightarrow> date" where
  "next_day = (\<lambda>(y, m, d).
     if d < month_days y m then (y, m, d + 1) else if m < 12 then (y, m + 1, 1) else (y + 1, 1, 1))"

definition prev_day :: "date \<Rightarrow> date" where
  "prev_day = (\<lambda>(y, m, d).
     if 1 < d then (y, m, d - 1) else if 1 < m then (y, m - 1, month_days y (m - 1)) else (y - 1, 12, 31))"

definition add_days :: "int \<Rightarrow> date \<Rightarrow> date" where
  \<comment> \<open>\<open>setDate(getDate() + k)\<close>\<close>
  "add_days k x = (if 0 \<le> k then (next_day ^^ nat k) x else (prev_day ^^ nat (- k)) x)"

definition pad2 :: "nat \<Rightarrow> string" where
  \<comment> \<open>\<open>String(n).padStart(2, "0")\<close>\<close>
  "pad2 n = (if n < 10 then CHR ''0'' # nat_text n else nat_text n)"

text \<open>\<open>None\<close> is an invalid date, whose parts all read NaN.\<close>

definition localDateValue :: "date option \<Rightarrow> string" where
  "localDateValue x =
     (case x of None \<Rightarrow> ''NaN-NaN-NaN''
      | Some (y, m, d) \<Rightarrow> nat_text y @ ''-'' @ pad2 m @ ''-'' @ pad2 d)"

text \<open>\<open>new Date(value + "T00:00:00")\<close> for the value of a date input: empty, or year-month-day.\<close>

definition parse_date :: "string \<Rightarrow> date option" where
  "parse_date s =
     (case split_on (CHR ''-'') s of
        [a, b, c] \<Rightarrow>
          (case (parse_nat a, parse_nat b, parse_nat c) of
             (Some y, Some m, Some d) \<Rightarrow>
               if length a = 4 \<and> length b = 2 \<and> length c = 2 \<and> valid_date (y, m, d) then Some (y, m, d) else None
           | _ \<Rightarrow> None)
      | _ \<Rightarrow> None)"

section \<open>The window of a report\<close>

record env =
  e_fmt :: fmt
  e_today :: date
  e_zone :: string

text \<open>\<open>setReportPreset\<close> up to the reload of the report (\<open>setReportPreset(value, false)\<close>).\<close>

definition set_preset_dates :: "env \<Rightarrow> string \<Rightarrow> unit act" where
  "set_preset_dates e v =
     (if v = ''custom'' then ret ()
      else (let start = (case js_number (str_or v ''30'') of JNum days \<Rightarrow> Some (add_days (1 - days) (e_today e))
                         | _ \<Rightarrow> None)
            in steps [set_value ''reportFrom'' (localDateValue start),
                      set_value ''reportTo'' (localDateValue (Some (e_today e)))]))"

definition report_params :: "env \<Rightarrow> browser \<Rightarrow> (string \<times> string) list" where
  "report_params e b =
     [(''from'', dm_value (b_dom b) ''reportFrom''),
      (''to'', localDateValue (map_option (add_days 1) (parse_date (dm_value (b_dom b) ''reportTo'')))),
      (''timezone'', str_or (e_zone e) ''UTC'')]"

definition reportQuery :: "env \<Rightarrow> browser \<Rightarrow> string" where
  "reportQuery e b = search_params (report_params e b)"

definition reportBasePath :: "browser \<Rightarrow> string" where
  "reportBasePath b =
     (case b_report b of None \<Rightarrow> []
      | Some (kind, i) \<Rightarrow> ''/api/v1/reports/'' @ (if kind = ''link'' then ''links'' else ''users'') @ ''/'' @ i)"

definition set_hash :: "string \<Rightarrow> unit act" where
  \<comment> \<open>assigning \<open>location.hash\<close>; the browser adds the number sign\<close>
  "set_hash h = modify (\<lambda>b. b\<lparr>b_hash := (if h \<noteq> [] \<and> hd h = CHR ''#'' then h else CHR ''#'' # h)\<rparr>)"

definition openLinkReport :: "int \<Rightarrow> unit act" where
  "openLinkReport i = set_hash (''report/link/'' @ int_text i)"

definition openUserReport :: "string option \<Rightarrow> unit act" where
  "openUserReport i = set_hash (''report/user/'' @ (case i of None \<Rightarrow> ''me'' | Some t \<Rightarrow> t))"

definition backToDashboard :: "unit act" where
  "backToDashboard = reading (\<lambda>b. set_hash (str_or (b_last_hash b) ''#home''))"

definition downloadReport :: "env \<Rightarrow> string \<Rightarrow> unit act" where
  "downloadReport e format = reading (\<lambda>b. only_if (b_report b \<noteq> None)
     (go_to (reportBasePath b @ ''/'' @ format @ ''?'' @ reportQuery e b)))"

section \<open>The report on the page\<close>

definition em_dash :: string where
  "em_dash = [CHR 0xE2, CHR 0x80, CHR 0x94]"

definition report_title :: "report_subject \<Rightarrow> string" where
  "report_title s = (case s of Link_subject slug title vis owner \<Rightarrow> str_or title (''/'' @ slug)
     | User_subject name email \<Rightarrow> name)"

definition report_subtitle :: "report_subject \<Rightarrow> string" where
  "report_subtitle s =
     (case s of Link_subject slug title vis owner \<Rightarrow>
        ''/'' @ slug @ '' '' @ mid_dot @ '' '' @ (if vis = ''department'' then ''shared with ALVA'' else ''private'') @
        '' '' @ mid_dot @ '' owned by '' @ owner
      | User_subject name email \<Rightarrow> email @ '' '' @ mid_dot @ '' owned-link performance'')"

definition report_coverage :: "report \<Rightarrow> string" where
  "report_coverage r =
     ''Showing '' @ rp_from r @ '' through the day before '' @ rp_to r @ '' in '' @ rp_timezone r @
     ''. Detailed events are retained for '' @ int_text (rp_retained_days r) @
     '' days. Unique visitors are estimated from distinct non-bot IP addresses; deleted links remain in owner reports.''"

definition is_link_subject :: "report_subject \<Rightarrow> bool" where
  "is_link_subject s = (case s of Link_subject _ _ _ _ \<Rightarrow> True | User_subject _ _ \<Rightarrow> False)"

definition summary_cards :: "fmt \<Rightarrow> report \<Rightarrow> (string \<times> string \<times> string) list" where
  "summary_cards f r =
     (let s = rp_summary r; n = (\<lambda>v. reportNumber f (of_int v) None); isLink = is_link_subject (rp_subject r) in
      [(''Period clicks'', n (rs_period s),
          (case rs_previous s of None \<Rightarrow> ''Successful redirects''
           | Some _ \<Rightarrow> reportNumber f (case rs_change s of None \<Rightarrow> 0 | Some c \<Rightarrow> c) (Some 1) @ ''% vs prior period'')),
       (''All-time clicks'', n (rs_all_time s), if isLink then ''Successful redirects'' else ''Across owned links''),
       (''Human clicks'', n (rs_human s), ''Heuristic non-bot traffic''),
       (''Estimated visitors'', n (rs_visitors s), ''Distinct non-bot IPs''),
       (''Bot clicks'', n (rs_bot s), ''User-agent heuristic''),
       (''Expired attempts'', n (rs_expired s), ''Tracked unavailable redirects''),
       (''Daily average'', reportNumber f (rs_average s) (Some 1), ''Successful redirects per day''),
       (''Peak day'', str_or (rs_peak_day s) em_dash, n (rs_peak_clicks s) @ '' clicks'')] @
      (if isLink then [] else
       [(''Owned links'', n (rs_active s + rs_deleted s),
         n (rs_active s) @ '' active '' @ mid_dot @ '' '' @ n (rs_deleted s) @ '' deleted'')]))"

definition breakdown_of :: "string \<Rightarrow> report \<Rightarrow> point list" where
  "breakdown_of k r = (case map_of (rp_breakdowns r) k of None \<Rightarrow> [] | Some ps \<Rightarrow> ps)"

definition chart_map :: "(string \<times> string \<times> string) list" where
  "chart_map =
     [(''country'', ''Countries'', ''Cloudflare country signal for successful redirects.''),
      (''device'', ''Devices'', ''Client device class for successful redirects.''),
      (''browser'', ''Browsers'', ''Detected browser family.''),
      (''os'', ''Operating systems'', ''Detected operating-system family.''),
      (''referrer'', ''Referrer hosts'', ''Unknown includes direct and privacy-restricted traffic.''),
      (''utm_source'', ''UTM sources'', ''Source parameter present on resolved destinations.''),
      (''utm_medium'', ''UTM media'', ''Medium parameter present on resolved destinations.''),
      (''campaign'', ''UTM campaigns'', ''Campaign parameter present on resolved destinations.''),
      (''route'', ''Routing outcomes'', ''Default, device, country, and expired routing decisions.''),
      (''status'', ''HTTP outcomes'', ''Tracked redirect and expired status codes.'')]"

definition report_charts :: "fmt \<Rightarrow> report \<Rightarrow> piece list" where
  "report_charts f r =
     lineChartCard f ''Clicks by day'' ''Successful redirects in the selected local-time period.'' (rp_daily r) @
     compositionChartCard f ''Human and bot traffic'' ''Successful redirects classified from user-agent strings.''
       (breakdown_of ''traffic'' r) @
     concat (map (\<lambda>(k, title, subtitle). barChartCard f title subtitle (breakdown_of k r)) chart_map)"

definition top_link_row :: "fmt \<Rightarrow> link_rank \<Rightarrow> piece list" where
  \<open>top_link_row f l =
     [Lit ''<div class="row one-action"><div><b>'', Expr (esc_text (str_or (lr_title l) (lr_slug l))),
      Lit ''</b><div class="tiny">/'', Expr (esc_text (lr_slug l)), Lit ('' '' @ mid_dot @ '' ''),
      Expr (reportNumber f (of_int (lr_period l)) None), Lit ('' period '' @ mid_dot @ '' ''),
      Expr (reportNumber f (of_int (lr_all_time l)) None), Lit ('' all-time '' @ mid_dot @ '' ''),
      Expr (esc_text (if lr_deleted_at l \<noteq> None then ''deleted'' else lr_visibility l)),
      Lit ''</div></div><button class="secondary" onclick="openLinkReport('', Expr (int_text (lr_id l)),
      Lit '')">Open report</button></div>'']\<close>

definition event_row :: "fmt \<Rightarrow> safe_event \<Rightarrow> piece list" where
  \<open>event_row f e =
     [Lit ''<tr><td>'', Expr (esc_text (f_date f (se_created_at e))), Lit ''</td><td>/'', Expr (esc_text (se_slug e)),
      Lit ''</td><td>'', Expr (esc_text (str_or (se_country e) ''unknown'')), Lit ''</td><td>'',
      Expr (esc_text (se_device e)), Lit ('' '' @ mid_dot @ '' ''), Expr (esc_text (se_browser e)),
      Lit ('' '' @ mid_dot @ '' ''), Expr (esc_text (se_os e)), Lit ''</td><td>'',
      Expr (esc_text (str_or (se_referrer e) ''unknown'')), Lit ''</td><td>'',
      Expr (esc_text (str_or (se_campaign e) ''unknown'')), Lit ''</td><td>'',
      Expr (if se_bot e then ''bot '' @ mid_dot @ '' '' else []), Expr (esc_text (se_route e)),
      Lit ('' '' @ right_arrow @ '' ''), Expr (int_text (se_status e)), Lit ''</td></tr>'']\<close>

definition events_html :: "fmt \<Rightarrow> safe_event list \<Rightarrow> string" where
  \<open>events_html f es =
     str_or (concat (map (\<lambda>e. render (event_row f e)) es))
       ''<tr><td colspan="7">No events in this period.</td></tr>''\<close>

definition renderReport :: "fmt \<Rightarrow> report \<Rightarrow> unit act" where
  "renderReport f r = steps
     [showMsg JUndef ''error'',
      set_text ''reportTitle'' (report_title (rp_subject r)),
      set_text ''reportSubtitle'' (report_subtitle (rp_subject r)),
      set_text ''reportCoverage'' (report_coverage r),
      set_html ''reportSummary'' (concat (map (\<lambda>(l, v, n). render (reportCard l v n)) (summary_cards f r))),
      set_html ''reportCharts'' (render (report_charts f r)),
      set_hidden ''reportTopLinksCard'' (rp_top_links r = []),
      set_html ''reportTopLinks'' (concat (map (\<lambda>l. render (top_link_row f l)) (rp_top_links r))),
      set_html ''reportEvents'' (events_html f (rp_events r))]"

definition loadCurrentReport :: "env \<Rightarrow> unit act" where
  \<open>loadCurrentReport e = reading (\<lambda>b. only_if (b_report b \<noteq> None) (steps
     [set_text ''reportTitle'' ''Loading report...'', set_text ''reportSubtitle'' [],
      set_html ''reportSummary'' ''<div class="empty">Loading metrics...</div>'', set_html ''reportCharts'' [],
      try_catch
        (reading (\<lambda>b. andThen (api_get (reportBasePath b @ ''?'' @ reportQuery e b))
           (\<lambda>p. case p of Some (A_report r) \<Rightarrow> renderReport (e_fmt e) r | _ \<Rightarrow> type_error)))
        (\<lambda>err. steps [set_text ''reportTitle'' ''Report unavailable'', set_html ''reportSummary'' [], showErr err])]))\<close>

definition setReportPreset :: "env \<Rightarrow> string \<Rightarrow> bool \<Rightarrow> unit act" where
  "setReportPreset e v reload = steps
     [set_preset_dates e v,
      reading (\<lambda>b. only_if (v \<noteq> ''custom'' \<and> reload \<and> b_report b \<noteq> None) (loadCurrentReport e))]"

end
