(* ===== verification/Loaders.thy ===== *)
theory Loaders
  imports Browser
begin

text \<open>
  The functions of \<open>web/app.js\<close> that fetch a list and show it: \<open>loadLinks\<close>, \<open>loadRecentLinks\<close>,
  \<open>loadKeys\<close>, \<open>loadStats\<close>, \<open>loadTenants\<close>, \<open>loadDomains\<close>, \<open>loadCustomers\<close>, \<open>loadAuditEvents\<close>,
  \<open>loadClicks\<close>, \<open>loadRuntimeInfo\<close>, with the pager state and buttons they drive. The pagers are the
  ones of \<open>Paging\<close>; a lemma says that a loader which gets its answer does to pager, label and
  buttons what \<open>show_page\<close> does there.

  \<open>loc\<close> is \<open>Date.prototype.toLocaleString\<close>, a parameter.
\<close>

section \<open>Reading an answer\<close>

text \<open>\<open>page.items || []\<close> and \<open>page.next_cursor || 0\<close>; a body of another type has neither.\<close>

definition links_of :: "payload option \<Rightarrow> link page" where
  "links_of p = (case p of Some (Links_page pg) \<Rightarrow> pg | _ \<Rightarrow> \<lparr>items = [], next_cursor = 0\<rparr>)"

definition users_of :: "payload option \<Rightarrow> user page" where
  "users_of p = (case p of Some (Users_page pg) \<Rightarrow> pg | _ \<Rightarrow> \<lparr>items = [], next_cursor = 0\<rparr>)"

definition audit_of :: "payload option \<Rightarrow> audit_event page" where
  "audit_of p = (case p of Some (Audit_page pg) \<Rightarrow> pg | _ \<Rightarrow> \<lparr>items = [], next_cursor = 0\<rparr>)"

definition clicks_of :: "payload \<Rightarrow> click_event page" where
  "clicks_of p = (case p of Clicks_page pg \<Rightarrow> pg | _ \<Rightarrow> \<lparr>items = [], next_cursor = 0\<rparr>)"

definition points_of :: "payload option \<Rightarrow> point list" where
  "points_of p = (case p of Some (Points xs) \<Rightarrow> xs | _ \<Rightarrow> [])"

definition list_query :: "string \<Rightarrow> string \<Rightarrow> (string \<times> string) list \<Rightarrow> string" where
  \<comment> \<open>the filters, \<open>limit\<close>, and \<open>cursor\<close> unless the first page is asked for\<close>
  "list_query n cursor filters =
     (let q = params_set ''limit'' n filters
      in search_params (if cursor \<noteq> [] then params_set ''cursor'' cursor q else q))"

text \<open>The form controls a \<open>FormData\<close> contains: those that are not disabled, by name.\<close>

definition form_entries :: "browser \<Rightarrow> string \<Rightarrow> string list \<Rightarrow> (string \<times> string) list" where
  "form_entries b form names =
     map (\<lambda>n. (n, dm_value (b_dom b) (form @ ''.'' @ n)))
       (filter (\<lambda>n. \<not> dm_disabled (b_dom b) (form @ ''.'' @ n)) names)"

definition user_filters :: "browser \<Rightarrow> (string \<times> string) list" where
  "user_filters b = form_entries b ''userFilters'' [''search'', ''role'', ''active'']"

definition audit_filters :: "browser \<Rightarrow> (string \<times> string) list" where
  "audit_filters b =
     form_entries b ''auditFilters'' [''actor'', ''action'', ''target_type'', ''outcome'', ''from'', ''to'']"

text \<open>The page number and the two buttons below a list.\<close>

definition show_pager :: "string \<Rightarrow> (browser \<Rightarrow> pager) \<Rightarrow> unit act" where
  "show_pager name get b =
     steps [set_text (name @ ''PageNumber'') (''Page '' @ nat_text (page_number (get b))),
            set_disabled (name @ ''Previous'') (previous_disabled (get b)),
            set_disabled (name @ ''Next'') (next_disabled (get b))] b"

section \<open>The paginated lists\<close>

definition loadLinks :: "(int \<Rightarrow> string) \<Rightarrow> unit act" where
  "loadLinks loc = reading (\<lambda>b.
     andThen (api_get (''/api/v1/links/page?'' @
         list_query (dm_value (b_dom b) ''linkPageSize'') (pg_cursor (b_link_pager b)) []))
       (\<lambda>p. let page = links_of p in steps
         [modify (\<lambda>b. b\<lparr>b_link_pager := (b_link_pager b)\<lparr>pg_next := next_cursor page\<rparr>, b_links := items page\<rparr>),
          reading (\<lambda>b. set_html ''links'' (links_html loc (b_user b) (items page))),
          show_pager ''link'' b_link_pager]))"

text \<open>\<open>setupCustomerForm\<close>: the controls of the user form for the signed-in role.\<close>

definition own_tenant_option :: "me \<Rightarrow> string" where
  \<open>own_tenant_option u =
     ''<option value="'' @ id_or (me_tenant_id u) [] @ ''">department '' @ id_or (me_tenant_id u) ''-'' @ ''</option>''\<close>

definition tenant_option :: "tenant \<Rightarrow> piece list" where
  \<open>tenant_option t =
     [Lit ''<option value="'', Expr (int_text (t_id t)), Lit ''">'', Expr (esc_text (t_name t)), Lit '' ('',
      Expr (esc_text (t_slug t)), Lit '')</option>'']\<close>

definition tenant_options :: "tenant list \<Rightarrow> string" where
  \<open>tenant_options ts =
     ''<option value="">select department</option>'' @ concat (map (\<lambda>t. render (tenant_option t)) ts)\<close>

definition setupCustomerForm :: "unit act" where
  \<open>setupCustomerForm = reading (\<lambda>b.
     case b_user b of None \<Rightarrow> ret ()
     | Some u \<Rightarrow>
        if me_role u = ''customer'' then ret ()
        else if me_role u = ''tenant'' then steps
          [set_html ''customerRole'' ''<option value="customer">user</option>'', set_disabled ''customerRole'' True,
           set_value ''userFilters.role'' ''customer'', set_disabled ''userFilters.role'' True,
           set_html ''customerTenant'' (own_tenant_option u), set_disabled ''customerTenant'' True]
        else steps
          [set_disabled ''customerRole'' False,
           set_html ''customerRole'' ''<option value="customer">user</option><option value="tenant">department admin</option>'',
           set_disabled ''userFilters.role'' False, set_disabled ''customerTenant'' False,
           set_html ''customerTenant'' (tenant_options (b_tenants b))])\<close>

definition loadCustomers :: "unit act" where
  "loadCustomers = the_user (\<lambda>u.
     if me_role u = ''customer'' then ret ()
     else steps [setupCustomerForm,
       reading (\<lambda>b. andThen (api_get (''/api/v1/customers?'' @
           list_query (dm_value (b_dom b) ''userPageSize'') (pg_cursor (b_user_pager b)) (user_filters b)))
         (\<lambda>p. let page = users_of p in steps
           [modify (\<lambda>b. b\<lparr>b_user_pager := (b_user_pager b)\<lparr>pg_next := next_cursor page\<rparr>\<rparr>),
            set_hidden ''customerPanel'' False,
            the_user (\<lambda>u. set_html ''customers'' (customers_html u (items page))),
            show_pager ''user'' b_user_pager]))])"

definition loadAuditEvents :: "(int \<Rightarrow> string) \<Rightarrow> unit act" where
  "loadAuditEvents loc = reading (\<lambda>b.
     if \<not> role_is b ''superadmin'' then ret ()
     else steps [set_hidden ''auditPanel'' False,
       reading (\<lambda>b. andThen (api_get (''/api/v1/audit-events?'' @
           list_query (dm_value (b_dom b) ''auditPageSize'') (pg_cursor (b_audit_pager b)) (audit_filters b)))
         (\<lambda>p. let page = audit_of p in steps
           [modify (\<lambda>b. b\<lparr>b_audit_pager := (b_audit_pager b)\<lparr>pg_next := next_cursor page\<rparr>\<rparr>),
            set_html ''auditEvents'' (audit_html loc (items page)),
            show_pager ''audit'' b_audit_pager]))])"

definition loadClicks :: "(int \<Rightarrow> string) \<Rightarrow> unit act" where
  "loadClicks loc = reading (\<lambda>b.
     andThen (both (api_get (''/api/v1/clicks?'' @
           list_query (dm_value (b_dom b) ''clickPageSize'') (pg_cursor (b_click_pager b)) []))
         (api_get ''/api/v1/analytics/breakdown?group_by=country''))
       (\<lambda>(p, breakdown). case p of None \<Rightarrow> type_error
        | Some body \<Rightarrow> (let page = clicks_of body in steps
           [modify (\<lambda>b. b\<lparr>b_click_pager := (b_click_pager b)\<lparr>pg_next := next_cursor page\<rparr>\<rparr>),
            set_html ''breakdown'' (breakdown_html (points_of breakdown)),
            set_html ''clicks'' (clicks_html loc (items page)),
            show_pager ''click'' b_click_pager])))"

section \<open>The other lists\<close>

definition loadRecentLinks :: "unit act" where
  "loadRecentLinks = andThen (api_get ''/api/v1/links/page?limit=5'')
     (\<lambda>p. steps [modify (\<lambda>b. b\<lparr>b_recent := items (links_of p)\<rparr>),
                 set_html ''homeLinks'' (home_links_html (items (links_of p)))])"

definition loadKeys :: "(int \<Rightarrow> string) \<Rightarrow> unit act" where
  "loadKeys loc = andThen (api_get ''/api/v1/api-keys'')
     (\<lambda>p. reading (\<lambda>b. set_html ''keys''
        (keys_html loc (b_user b) (case p of Some (Keys ks) \<Rightarrow> ks | _ \<Rightarrow> []))))"

definition loadStats :: "unit act" where
  "loadStats = andThen (api_get ''/api/v1/analytics'')
     (\<lambda>p. case p of None \<Rightarrow> type_error
        | Some body \<Rightarrow> set_html ''stats'' (stats_html (case body of Counters cs \<Rightarrow> cs | _ \<Rightarrow> [])))"

definition loadTenants :: "unit act" where
  "loadTenants = the_user (\<lambda>u.
     if me_role u \<noteq> ''superadmin'' then ret ()
     else andThen (api_get ''/api/v1/tenants'')
       (\<lambda>p. let ts = (case p of Some (Tenants ts) \<Rightarrow> ts | _ \<Rightarrow> []) in steps
         [modify (\<lambda>b. b\<lparr>b_tenants := ts\<rparr>), set_hidden ''tenantPanel'' False,
          set_html ''tenants'' (tenants_html ts)]))"

definition loadDomains :: "unit act" where
  "loadDomains = the_user (\<lambda>u.
     if me_role u = ''customer'' then ret ()
     else andThen (api_get ''/api/v1/domains'')
       (\<lambda>p. let ds = (case p of Some (Domains ds) \<Rightarrow> ds | _ \<Rightarrow> []) in steps
         [set_hidden ''domainPanel'' False,
          the_user (\<lambda>u. reading (\<lambda>b. set_html ''domainTenant''
            (if me_role u = ''tenant'' then own_tenant_option u else tenant_options (b_tenants b)))),
          reading (\<lambda>b. set_html ''domains'' (domains_html (b_user b) ds))]))"

text \<open>\<open>loadRuntimeInfo\<close> builds its rows from text nodes; row \<open>l\<close> is the text of \<open>runtimeInfo:l\<close>.\<close>

definition runtime_fields :: "jsval \<Rightarrow> (string \<times> jsval) list" where
  "runtime_fields info =
     [(''Database'', JStr (js_string (js_field info ''database_engine'') @ '' / '' @
                           js_string (js_field info ''database_name''))),
      (''Server hostname'', js_field info ''server_hostname''),
      (''Container ID'', js_field info ''container_id''),
      (''Deployed tag'', js_field info ''deploy_tag'')]"

definition loadRuntimeInfo :: "unit act" where
  "loadRuntimeInfo = reading (\<lambda>b.
     if \<not> role_is b ''superadmin'' \<or> (case b_user b of None \<Rightarrow> True | Some u \<Rightarrow> me_dashboard_mode u \<noteq> ''admin'')
     then ret ()
     else andThen (try_catch (andThen (api_get ''/api/v1/admin/runtime'') (\<lambda>info. ret (Some info)))
                     (\<lambda>_. andThen (set_hidden ''runtimePanel'' True) (\<lambda>_. ret None)))
       (\<lambda>fetched. case fetched of None \<Rightarrow> ret ()
        | Some info \<Rightarrow> steps
           [set_hidden ''runtimePanel'' False,
            (case info of None \<Rightarrow> type_error
             | Some p \<Rightarrow> if payload_js p = JNull then type_error
                 else steps (map (\<lambda>(label, v). set_text (''runtimeInfo:'' @ label)
                        (js_string (js_or v (JStr ''unknown'')))) (runtime_fields (payload_js p))))]))"

end
