(* ===== verification/Router.thy ===== *)
theory Router
  imports Reports Loaders
begin

text \<open>
  Views and sessions: \<open>routeView\<close> (\<open>web/reports.js\<close>), \<open>loadWorkspaceView\<close>, \<open>renderDashboardMode\<close>,
  \<open>renderDashboard\<close>, \<open>setDashboardMode\<close>, \<open>showDash\<close>, \<open>restoreSession\<close> (\<open>web/app.js\<close>).

  The elements of \<open>.workspace-view\<close> are \<open>view:home\<close> ... \<open>view:settings\<close>, their links \<open>nav:...\<close>, the
  panes of the Admin view \<open>pane:users\<close> ... \<open>pane:runtime\<close> and their links \<open>subnav:...\<close>.
\<close>

section \<open>Reading the hash\<close>

definition views :: "string list" where
  "views = [''home'', ''links'', ''analytics'', ''admin'', ''settings'']"

definition admin_views :: "string list" where
  "admin_views = [''users'', ''domains'', ''audit'', ''runtime'']"

definition strip_hash :: "string \<Rightarrow> string" where
  "strip_hash h = (case h of [] \<Rightarrow> [] | c # cs \<Rightarrow> if c = CHR ''#'' then cs else h)"

definition alnum :: "char \<Rightarrow> bool" where
  "alnum c \<longleftrightarrow> (let n = (of_char c :: nat) in
     (48 \<le> n \<and> n \<le> 57) \<or> (65 \<le> n \<and> n \<le> 90) \<or> (97 \<le> n \<and> n \<le> 122))"

text \<open>The match of \<open>^#?report/(link|user)/([a-z0-9]+)$\<close>, ignoring case: kind (in lower case) and id.\<close>

definition parse_report :: "string \<Rightarrow> (string \<times> string) option" where
  "parse_report h =
     (case split_on (CHR ''/'') (strip_hash h) of
        [a, k, i] \<Rightarrow>
          if lower a = ''report'' \<and> (lower k = ''link'' \<or> lower k = ''user'') \<and> i \<noteq> [] \<and> list_all alnum i
          then Some (lower k, i) else None
      | _ \<Rightarrow> None)"

text \<open>View and admin pane of any other hash, after the corrections for the role.\<close>

definition route_of :: "me \<Rightarrow> string \<Rightarrow> string \<times> string" where
  "route_of u h =
     (let parts = split_on (CHR ''/'') (strip_hash (str_or h ''#home''));
          view = (if hd parts \<in> set views then hd parts else ''home'');
          admin = (if length parts > 1 then str_or (parts ! 1) ''users'' else ''users'');
          allowed = (me_dashboard_mode u = ''admin'' \<and> me_role u \<noteq> ''customer'');
          view = (if view = ''admin'' \<and> \<not> allowed then ''home'' else view);
          admin = (if admin \<notin> set admin_views then ''users'' else admin);
          admin = (if (admin = ''audit'' \<or> admin = ''runtime'') \<and> me_role u \<noteq> ''superadmin'' then ''users'' else admin)
      in (view, admin))"

definition workspace_hash :: "string \<times> string \<Rightarrow> string" where
  \<comment> \<open>\<open>lastWorkspaceHash\<close>\<close>
  "workspace_hash r = (case r of (view, admin) \<Rightarrow> if view = ''admin'' then ''#admin/'' @ admin else ''#'' @ view)"

section \<open>Loading a view\<close>

definition view_key :: "string \<Rightarrow> string \<Rightarrow> string" where
  "view_key view admin = (if view = ''admin'' then ''admin/'' @ admin else view)"

definition loadWorkspaceView :: "env \<Rightarrow> string \<Rightarrow> string \<Rightarrow> unit act" where
  "loadWorkspaceView e view admin = reading (\<lambda>b.
     if view_key view admin \<in> set (b_loaded b) then ret ()
     else let loc = f_date (e_fmt e) in steps
      [only_if (view = ''home'') (finish (both loadStats loadRecentLinks)),
       only_if (view = ''links'') (loadLinks loc),
       only_if (view = ''analytics'') (loadClicks loc),
       only_if (view = ''settings'') (loadKeys loc),
       only_if (view = ''admin'') (steps
         [the_user (\<lambda>u. reading (\<lambda>b. only_if (me_role u = ''superadmin'' \<and> b_tenants b = []) loadTenants)),
          setupCustomerForm,
          only_if (admin = ''users'') loadCustomers,
          only_if (admin = ''domains'') loadDomains,
          only_if (admin = ''audit'') (loadAuditEvents loc),
          only_if (admin = ''runtime'') loadRuntimeInfo]),
       modify (\<lambda>b. b\<lparr>b_loaded := view_key view admin # b_loaded b\<rparr>)])"

definition show_view :: "string \<Rightarrow> string \<Rightarrow> unit act" where
  "show_view view admin = steps
     (map (\<lambda>v. set_hidden (''view:'' @ v) (v \<noteq> view)) views @
      map (\<lambda>v. toggle_class (''nav:'' @ v) ''active'' (v = view)) views @
      map (\<lambda>a. set_hidden (''pane:'' @ a) (a \<noteq> admin)) admin_views @
      map (\<lambda>a. toggle_class (''subnav:'' @ a) ''active'' (a = admin)) admin_views)"

definition routeView :: "env \<Rightarrow> unit act" where
  "routeView e = reading (\<lambda>b. case b_user b of None \<Rightarrow> ret ()
     | Some u \<Rightarrow>
       (case parse_report (b_hash b) of
          Some (kind, i) \<Rightarrow> steps
            ([modify (\<lambda>b. b\<lparr>b_report := Some (kind, i)\<rparr>)] @
             map (\<lambda>v. set_hidden (''view:'' @ v) True) views @
             [set_hidden ''workspaceNav'' True, set_hidden ''reportView'' False,
              reading (\<lambda>b. only_if (dm_value (b_dom b) ''reportFrom'' = []) (set_preset_dates e ''30'')),
              loadCurrentReport e])
        | None \<Rightarrow> (case route_of u (b_hash b) of (view, admin) \<Rightarrow> steps
            [modify (\<lambda>b. b\<lparr>b_report := None\<rparr>),
             set_hidden ''workspaceNav'' False, set_hidden ''reportView'' True,
             modify (\<lambda>b. b\<lparr>b_last_hash := workspace_hash (view, admin)\<rparr>),
             show_view view admin,
             loadWorkspaceView e view admin])))"

section \<open>Sessions\<close>

definition renderDashboardMode :: "unit act" where
  "renderDashboardMode = reading (\<lambda>b.
     let mode_is = (\<lambda>m. case b_user b of None \<Rightarrow> False | Some u \<Rightarrow> me_dashboard_mode u = m) in steps
      [set_hidden ''modeSwitcher'' (\<not> (case b_user b of None \<Rightarrow> False | Some u \<Rightarrow> me_can_switch_mode u)),
       set_hidden ''adminNavItem'' (\<not> (mode_is ''admin'' \<and> \<not> role_is b ''customer'')),
       set_hidden ''auditSubnav'' (\<not> role_is b ''superadmin''),
       set_hidden ''runtimeSubnav'' (\<not> role_is b ''superadmin''),
       toggle_class ''adminModeButton'' ''active'' (mode_is ''admin''),
       toggle_class ''userModeButton'' ''active'' (mode_is ''user'')])"

definition renderDashboard :: "env \<Rightarrow> unit act" where
  "renderDashboard e = steps
     [showApp, renderDashboardMode,
      the_user (\<lambda>u. set_text ''me'' (me_name u @ '' '' @ mid_dot @ '' '' @ me_email u @ '' '' @ mid_dot @
        '' acting as '' @ roleLabel (me_role u))),
      modify (\<lambda>b. b\<lparr>b_tenants := [], b_loaded := []\<rparr>),
      set_hidden ''tenantPanel'' True, set_hidden ''domainPanel'' True, set_hidden ''customerPanel'' True,
      set_hidden ''auditPanel'' True, set_hidden ''runtimePanel'' True,
      modify (\<lambda>b. b\<lparr>b_link_pager := reset_pager, b_user_pager := reset_pager, b_click_pager := reset_pager\<rparr>),
      routeView e]"

text \<open>The payload of \<open>/api/v1/me\<close> and of the mode switch becomes \<open>currentUser\<close>; a falsy answer (204,
  or the jump to the sign-in page) leaves none.\<close>

definition user_of :: "payload option \<Rightarrow> me option" where
  "user_of p = (case p of Some (Signed_in u) \<Rightarrow> Some u | _ \<Rightarrow> None)"

definition setDashboardMode :: "env \<Rightarrow> string \<Rightarrow> unit act" where
  "setDashboardMode e mode = reading (\<lambda>b. case b_user b of None \<Rightarrow> ret ()
     | Some u \<Rightarrow> only_if (me_dashboard_mode u \<noteq> mode) (steps
        [showOk ''Switching dashboard mode...'',
         try_catch (steps
           [andThen (api ''POST'' ''/api/v1/session/mode'' (JObj [(''mode'', JStr mode)]))
              (\<lambda>p. modify (\<lambda>b. b\<lparr>b_user := user_of p\<rparr>)),
            renderDashboard e,
            showOk (''Now acting as '' @ mode @ ''.'')]) showErr]))"

definition showDash :: "env \<Rightarrow> unit act" where
  "showDash e = andThen (api_get ''/api/v1/me'')
     (\<lambda>p. steps [modify (\<lambda>b. b\<lparr>b_user := user_of p\<rparr>), only_if (user_of p \<noteq> None) (renderDashboard e)])"

definition restoreSession :: "env \<Rightarrow> unit act" where
  "restoreSession e = try_catch (showDash e)
     (\<lambda>x. steps [showLogin, only_if (truthy x \<and> truthy (js_field x ''error'') \<and>
        js_field x ''error'' \<noteq> JStr ''sso required'') (showErr x)])"

section \<open>What loading leaves alone\<close>

text \<open>A reader of the page that no loader disturbs: the visibility of an element that is not one of
  the panels the loaders show, the signed-in user, the hash, the report.\<close>

definition panels :: "string list" where
  "panels = [''customerPanel'', ''auditPanel'', ''runtimePanel'', ''tenantPanel'', ''domainPanel'']"

definition undisturbed :: "(browser \<Rightarrow> 'x) \<Rightarrow> bool" where
  "undisturbed g \<longleftrightarrow>
     (\<forall>i t. keeps g (set_text i t) \<and> keeps g (set_html i t) \<and> keeps g (set_value i t)) \<and>
     (\<forall>i v. keeps g (set_disabled i v)) \<and> (\<forall>i v. i \<in> set panels \<longrightarrow> keeps g (set_hidden i v)) \<and>
     (\<forall>m path body. keeps g (api m path body)) \<and>
     (\<forall>f b. g (b\<lparr>b_link_pager := f b\<rparr>) = g b \<and> g (b\<lparr>b_user_pager := f b\<rparr>) = g b \<and>
            g (b\<lparr>b_click_pager := f b\<rparr>) = g b \<and> g (b\<lparr>b_audit_pager := f b\<rparr>) = g b) \<and>
     (\<forall>ls b. g (b\<lparr>b_links := ls\<rparr>) = g b \<and> g (b\<lparr>b_recent := ls\<rparr>) = g b) \<and>
     (\<forall>ts b. g (b\<lparr>b_tenants := ts\<rparr>) = g b)"

lemma undisturbed_dom [effects]:
  assumes "undisturbed g"
  shows "keeps g (set_text i t)" "keeps g (set_html i t)" "keeps g (set_value i t)"
    "keeps g (set_disabled i v)" "i \<in> set panels \<Longrightarrow> keeps g (set_hidden i v)"
    "keeps g (api m path body)" "keeps g (api_get path)"
  using assms unfolding undisturbed_def api_get_def by simp_all

lemma undisturbed_writes [effects]:
  assumes "undisturbed g"
  shows "keeps g (modify (\<lambda>b. b\<lparr>b_link_pager := f b, b_links := xs\<rparr>))"
    "keeps g (modify (\<lambda>b. b\<lparr>b_user_pager := f b\<rparr>))" "keeps g (modify (\<lambda>b. b\<lparr>b_audit_pager := f b\<rparr>))"
    "keeps g (modify (\<lambda>b. b\<lparr>b_click_pager := f b\<rparr>))" "keeps g (modify (\<lambda>b. b\<lparr>b_recent := xs\<rparr>))"
    "keeps g (modify (\<lambda>b. b\<lparr>b_tenants := ts\<rparr>))"
  using assms unfolding undisturbed_def by (auto intro!: keeps_modify)

lemma undisturbed_show_pager [effects]: "undisturbed g \<Longrightarrow> keeps g (show_pager name get)"
proof -
  assume g: "undisturbed g"
  have "show_pager name get = reading (\<lambda>b. steps
     [set_text (name @ ''PageNumber'') (''Page '' @ nat_text (page_number (get b))),
      set_disabled (name @ ''Previous'') (previous_disabled (get b)),
      set_disabled (name @ ''Next'') (next_disabled (get b))])"
    by (simp add: fun_eq_iff show_pager_def reading_def)
  with g show ?thesis by (auto intro!: effects)
qed

lemma undisturbed_setup [effects]: "undisturbed g \<Longrightarrow> keeps g setupCustomerForm"
  unfolding setupCustomerForm_def by (auto intro!: effects split: option.split)

lemma undisturbed_loaders [effects]:
  assumes g: "undisturbed g"
  shows "keeps g (loadLinks loc)" "keeps g loadCustomers" "keeps g (loadAuditEvents loc)"
    "keeps g (loadClicks loc)" "keeps g loadRecentLinks" "keeps g (loadKeys loc)" "keeps g loadStats"
    "keeps g loadTenants" "keeps g loadDomains" "keeps g loadRuntimeInfo"
proof -
  have p: "''customerPanel'' \<in> set panels" "''auditPanel'' \<in> set panels" "''runtimePanel'' \<in> set panels"
      "''tenantPanel'' \<in> set panels" "''domainPanel'' \<in> set panels"
    by (simp_all add: panels_def)
  show "keeps g (loadLinks loc)"
    using g unfolding loadLinks_def Let_def by (auto intro!: effects)
  show "keeps g loadCustomers"
    using g p unfolding loadCustomers_def Let_def by (auto intro!: effects)
  show "keeps g (loadAuditEvents loc)"
    using g p unfolding loadAuditEvents_def Let_def by (auto intro!: effects)
  show "keeps g (loadClicks loc)"
    using g unfolding loadClicks_def Let_def by (auto intro!: effects split: prod.split option.split)
  show "keeps g loadRecentLinks"
    using g unfolding loadRecentLinks_def by (auto intro!: effects)
  show "keeps g (loadKeys loc)"
    using g unfolding loadKeys_def by (auto intro!: effects)
  show "keeps g loadStats"
    using g unfolding loadStats_def by (auto intro!: effects split: option.split)
  show "keeps g loadTenants"
    using g p unfolding loadTenants_def Let_def by (auto intro!: effects)
  show "keeps g loadDomains"
    using g p unfolding loadDomains_def Let_def by (auto intro!: effects)
  show "keeps g loadRuntimeInfo"
    using g p unfolding loadRuntimeInfo_def by (auto intro!: effects split: option.split prod.split)
qed

lemma undisturbed_view [effects]:
  "undisturbed g \<Longrightarrow> (\<And>b ks. g (b\<lparr>b_loaded := ks\<rparr>) = g b) \<Longrightarrow> keeps g (loadWorkspaceView e view admin)"
  unfolding loadWorkspaceView_def Let_def by (auto intro!: effects keeps_modify)

lemma undisturbed_hidden [effects]: "j \<notin> set panels \<Longrightarrow> undisturbed (hidden_at j)"
  unfolding undisturbed_def by (auto intro!: effects) (simp_all add: hidden_at_def)

definition session :: "browser \<Rightarrow> me option \<times> string \<times> string \<times> (string \<times> string) option" where
  "session b = (b_user b, b_hash b, b_last_hash b, b_report b)"

lemma keeps_session_api: "keeps session (api m path body)"
  by (simp add: keeps_def session_def api_def Let_def go_to_def modify_def split: list.split answer.split)

lemma undisturbed_session [effects]: "undisturbed session"
  unfolding undisturbed_def
  by (auto intro: keeps_session_api) (simp_all add: session_def keeps_def dom_ops)

lemma undisturbed_loaded [effects]: "undisturbed b_loaded"
  unfolding undisturbed_def
  by (auto simp: keeps_def dom_ops api_def Let_def split: list.split answer.split)

section \<open>The view on the screen\<close>

lemma steps_quiet:
  "steps ms b = (Inr (), b1) \<Longrightarrow> steps (ms @ ns) b = steps ns b1"
  by (simp add: steps_append)

lemma show_view_ok:
  "\<exists>b1. show_view view admin b = (Inr (), b1) \<and> b_user b1 = b_user b \<and> b_hash b1 = b_hash b \<and>
     b_last_hash b1 = b_last_hash b \<and> b_report b1 = b_report b \<and> b_loaded b1 = b_loaded b \<and>
     b_sent b1 = b_sent b \<and> b_link_pager b1 = b_link_pager b \<and> dm_value (b_dom b1) = dm_value (b_dom b) \<and>
     (\<forall>v \<in> set views. hidden_at (''view:'' @ v) b1 \<longleftrightarrow> v \<noteq> view) \<and>
     (\<forall>a \<in> set admin_views. hidden_at (''pane:'' @ a) b1 \<longleftrightarrow> a \<noteq> admin) \<and>
     hidden_at ''reportView'' b1 = hidden_at ''reportView'' b \<and>
     hidden_at ''workspaceNav'' b1 = hidden_at ''workspaceNav'' b"
  by (simp add: show_view_def views_def admin_views_def dom_ops hidden_at_def)

lemma steps_single: "steps [m] b = m b"
  by (auto split: prod.split sum.split)

lemma routeView_workspace:
  assumes "b_user b = Some u" and "parse_report (b_hash b) = None" and "route_of u (b_hash b) = (view, admin)"
  shows "\<exists>b1. routeView e b = loadWorkspaceView e view admin b1 \<and>
    session b1 = (Some u, b_hash b, workspace_hash (view, admin), None) \<and> b_loaded b1 = b_loaded b \<and>
    (\<forall>v \<in> set views. hidden_at (''view:'' @ v) b1 \<longleftrightarrow> v \<noteq> view) \<and>
    (\<forall>a \<in> set admin_views. hidden_at (''pane:'' @ a) b1 \<longleftrightarrow> a \<noteq> admin) \<and>
    hidden_at ''reportView'' b1 \<and> \<not> hidden_at ''workspaceNav'' b1 \<and>
    b_sent b1 = b_sent b \<and> b_link_pager b1 = b_link_pager b \<and> dm_value (b_dom b1) = dm_value (b_dom b)"
proof -
  let ?pre = "[modify (\<lambda>b. b\<lparr>b_report := None\<rparr>), set_hidden ''workspaceNav'' False,
    set_hidden ''reportView'' True, modify (\<lambda>b. b\<lparr>b_last_hash := workspace_hash (view, admin)\<rparr>)]"
  obtain b0 where b0: "steps ?pre b = (Inr (), b0)"
      "session b0 = (Some u, b_hash b, workspace_hash (view, admin), None)" "b_loaded b0 = b_loaded b"
      "hidden_at ''reportView'' b0" "\<not> hidden_at ''workspaceNav'' b0"
      "b_sent b0 = b_sent b" "b_link_pager b0 = b_link_pager b" "dm_value (b_dom b0) = dm_value (b_dom b)"
    using assms(1) by (simp add: dom_ops session_def hidden_at_def)
  obtain b1 where b1: "show_view view admin b0 = (Inr (), b1)" "session b1 = session b0" "b_loaded b1 = b_loaded b0"
      "\<forall>v \<in> set views. hidden_at (''view:'' @ v) b1 \<longleftrightarrow> v \<noteq> view"
      "\<forall>a \<in> set admin_views. hidden_at (''pane:'' @ a) b1 \<longleftrightarrow> a \<noteq> admin"
      "hidden_at ''reportView'' b1 = hidden_at ''reportView'' b0"
      "hidden_at ''workspaceNav'' b1 = hidden_at ''workspaceNav'' b0"
      "b_sent b1 = b_sent b0" "b_link_pager b1 = b_link_pager b0" "dm_value (b_dom b1) = dm_value (b_dom b0)"
    using show_view_ok [of view admin b0] by (auto simp: session_def)
  have "routeView e b = steps (?pre @ [show_view view admin, loadWorkspaceView e view admin]) b"
    using assms by (simp add: routeView_def reading_def)
  also have "\<dots> = steps [show_view view admin, loadWorkspaceView e view admin] b0"
    by (rule steps_quiet [OF b0(1)])
  also have "\<dots> = loadWorkspaceView e view admin b1"
    by (subst steps.simps) (simp only: b1(1) prod.case sum.case steps_single)
  finally show ?thesis using b0 b1 by auto
qed

lemma keeps_preset [effects]: "undisturbed g \<Longrightarrow> keeps g (set_preset_dates e v)"
  unfolding set_preset_dates_def Let_def by (auto intro!: effects)

lemma keeps_report_card [effects]:
  "j \<noteq> ''reportTopLinksCard'' \<Longrightarrow> keeps (hidden_at j) (renderReport f r)"
  "keeps session (renderReport f r)"
  unfolding renderReport_def showMsg_def by (auto simp: keeps_def session_def hidden_at_def dom_ops)

lemma keeps_loadCurrentReport [effects]:
  "j \<notin> set panels \<Longrightarrow> j \<noteq> ''reportTopLinksCard'' \<Longrightarrow> keeps (hidden_at j) (loadCurrentReport e)"
  "keeps session (loadCurrentReport e)"
  unfolding loadCurrentReport_def showErr_def showMsg_def
  by (auto intro!: effects split: option.split payload.split)

lemma routeView_report:
  assumes "b_user b = Some u" and "parse_report (b_hash b) = Some (kind, i)"
  shows "session (snd (routeView e b)) = (Some u, b_hash b, b_last_hash b, Some (kind, i)) \<and>
    (\<forall>v \<in> set views. hidden_at (''view:'' @ v) (snd (routeView e b))) \<and>
    \<not> hidden_at ''reportView'' (snd (routeView e b)) \<and> hidden_at ''workspaceNav'' (snd (routeView e b))"
proof -
  let ?pre = "[modify (\<lambda>b. b\<lparr>b_report := Some (kind, i)\<rparr>)] @ map (\<lambda>v. set_hidden (''view:'' @ v) True) views @
    [set_hidden ''workspaceNav'' True, set_hidden ''reportView'' False]"
  let ?load = "[reading (\<lambda>b. only_if (dm_value (b_dom b) ''reportFrom'' = []) (set_preset_dates e ''30'')),
    loadCurrentReport e]"
  obtain b0 where b0: "steps ?pre b = (Inr (), b0)"
      "session b0 = (Some u, b_hash b, b_last_hash b, Some (kind, i))"
      "\<forall>v \<in> set views. hidden_at (''view:'' @ v) b0" "\<not> hidden_at ''reportView'' b0" "hidden_at ''workspaceNav'' b0"
    using assms(1) by (simp add: dom_ops session_def hidden_at_def views_def)
  have r: "routeView e b = steps ?load b0"
    using assms steps_quiet [OF b0(1), of ?load] by (simp add: routeView_def reading_def)
  have "keeps (hidden_at j) (steps ?load)" if "j \<notin> set panels" "j \<noteq> ''reportTopLinksCard''" for j
    using that by (auto intro!: effects)
  then have h: "hidden_at j (snd (routeView e b)) = hidden_at j b0"
    if "j \<notin> set panels" "j \<noteq> ''reportTopLinksCard''" for j
    using that r by (simp add: keeps_def)
  have "keeps session (steps ?load)" by (auto intro!: effects)
  then have "session (snd (routeView e b)) = session b0" by (simp add: keeps_def r)
  with b0 show ?thesis by (simp add: h panels_def views_def)
qed

lemma loaded_view:
  assumes "session b1 = s" and "\<forall>v \<in> set views. hidden_at (''view:'' @ v) b1 \<longleftrightarrow> v \<noteq> view"
    and "\<forall>a \<in> set admin_views. hidden_at (''pane:'' @ a) b1 \<longleftrightarrow> a \<noteq> admin"
    and "hidden_at ''reportView'' b1" and "\<not> hidden_at ''workspaceNav'' b1"
  shows "let b' = snd (loadWorkspaceView e view admin b1) in session b' = s \<and>
    (\<forall>v \<in> set views. hidden_at (''view:'' @ v) b' \<longleftrightarrow> v \<noteq> view) \<and>
    (\<forall>a \<in> set admin_views. hidden_at (''pane:'' @ a) b' \<longleftrightarrow> a \<noteq> admin) \<and>
    hidden_at ''reportView'' b' \<and> \<not> hidden_at ''workspaceNav'' b'"
proof -
  have h: "hidden_at j (snd (loadWorkspaceView e view admin b1)) = hidden_at j b1" if "j \<notin> set panels" for j
    using undisturbed_view [OF undisturbed_hidden [OF that], of e view admin]
    by (simp add: keeps_def hidden_at_def)
  have "session (snd (loadWorkspaceView e view admin b1)) = session b1"
    using undisturbed_view [OF undisturbed_session, of e view admin] by (simp add: keeps_def session_def)
  with assms show ?thesis by (simp add: h panels_def views_def admin_views_def)
qed

lemma routeView_shows:
  assumes "b_user b = Some u" and "parse_report (b_hash b) = None" and "route_of u (b_hash b) = (view, admin)"
  shows "session (snd (routeView e b)) = (Some u, b_hash b, workspace_hash (view, admin), None)"
    and "\<forall>v \<in> set views. hidden_at (''view:'' @ v) (snd (routeView e b)) \<longleftrightarrow> v \<noteq> view"
    and "\<forall>a \<in> set admin_views. hidden_at (''pane:'' @ a) (snd (routeView e b)) \<longleftrightarrow> a \<noteq> admin"
    and "hidden_at ''reportView'' (snd (routeView e b))" and "\<not> hidden_at ''workspaceNav'' (snd (routeView e b))"
proof -
  obtain b1 where b1: "routeView e b = loadWorkspaceView e view admin b1"
      "session b1 = (Some u, b_hash b, workspace_hash (view, admin), None)"
      "\<forall>v \<in> set views. hidden_at (''view:'' @ v) b1 \<longleftrightarrow> v \<noteq> view"
      "\<forall>a \<in> set admin_views. hidden_at (''pane:'' @ a) b1 \<longleftrightarrow> a \<noteq> admin"
      "hidden_at ''reportView'' b1" "\<not> hidden_at ''workspaceNav'' b1"
    using routeView_workspace [OF assms] by blast
  note l = loaded_view [OF b1(2-6), of e, folded b1(1), unfolded Let_def]
  show "session (snd (routeView e b)) = (Some u, b_hash b, workspace_hash (view, admin), None)"
    using l by (rule conjunct1)
  show "\<forall>v \<in> set views. hidden_at (''view:'' @ v) (snd (routeView e b)) \<longleftrightarrow> v \<noteq> view"
    using conjunct2 [OF l] by (rule conjunct1)
  show "\<forall>a \<in> set admin_views. hidden_at (''pane:'' @ a) (snd (routeView e b)) \<longleftrightarrow> a \<noteq> admin"
    using conjunct2 [OF conjunct2 [OF l]] by (rule conjunct1)
  show "hidden_at ''reportView'' (snd (routeView e b))" "\<not> hidden_at ''workspaceNav'' (snd (routeView e b))"
    using conjunct2 [OF conjunct2 [OF conjunct2 [OF l]]] by (rule conjunct1, rule conjunct2)
qed

lemma route_of_cases:
  assumes "route_of u h = (view, admin)"
  shows "view \<in> set views" and "admin \<in> set admin_views"
    and "view = ''admin'' \<Longrightarrow> me_dashboard_mode u = ''admin'' \<and> me_role u \<noteq> ''customer''"
    and "admin = ''audit'' \<or> admin = ''runtime'' \<Longrightarrow> me_role u = ''superadmin''"
proof -
  have home: "''home'' \<in> set views" and users: "''users'' \<in> set admin_views"
    by (simp_all add: views_def admin_views_def)
  have h: "''home'' \<noteq> ''admin''" "''users'' \<noteq> ''audit''" "''users'' \<noteq> ''runtime''" by simp_all
  show "view \<in> set views" "admin \<in> set admin_views"
    "view = ''admin'' \<Longrightarrow> me_dashboard_mode u = ''admin'' \<and> me_role u \<noteq> ''customer''"
    "admin = ''audit'' \<or> admin = ''runtime'' \<Longrightarrow> me_role u = ''superadmin''"
    using assms home users h unfolding route_of_def Let_def by (auto split: if_splits)
qed

text \<open>Going to the remembered hash leads to the view it was remembered for.\<close>

lemma route_of_workspace_hash:
  assumes "route_of u h = (view, admin)"
  shows "parse_report (workspace_hash (view, admin)) = None"
    and "route_of u (workspace_hash (view, admin)) = (view, if view = ''admin'' then admin else ''users'')"
proof -
  note r = route_of_cases [OF assms]
  consider "view = ''home''" | "view = ''links''" | "view = ''analytics''" | "view = ''settings''" | "view = ''admin''"
    using r(1) by (auto simp: views_def)
  note vcases = this
  consider "admin = ''users''" | "admin = ''domains''" | "admin = ''audit''" | "admin = ''runtime''"
    using r(2) by (auto simp: admin_views_def)
  note acases = this
  show "parse_report (workspace_hash (view, admin)) = None"
    using vcases by cases (use acases in \<open>cases; simp add: workspace_hash_def parse_report_def strip_hash_def\<close>)+
  show "route_of u (workspace_hash (view, admin)) = (view, if view = ''admin'' then admin else ''users'')"
    using vcases
  proof cases
    case 5
    from acases show ?thesis
      using 5 r(3,4) by cases (simp_all add: route_of_def workspace_hash_def strip_hash_def str_or_def views_def admin_views_def)
  qed (simp_all add: route_of_def workspace_hash_def strip_hash_def str_or_def views_def admin_views_def)
qed

section \<open>Properties\<close>

text \<open>C11: A hash shows exactly one view, and only one the user may open. After \<open>routeView\<close>, whatever
  the hash says and whatever the requests it sends come back with, either the report alone is on
  the screen or exactly one workspace view and one admin pane are; the Admin view only for an
  administrator in Admin mode, the audit and runtime panes only for a superadmin.\<close>

theorem routing_shows_one_allowed_view:
  assumes "b_user b = Some u"
  shows "let b' = snd (routeView e b); shown = (\<lambda>i. \<not> hidden_at i b') in
    (if parse_report (b_hash b) \<noteq> None
     then shown ''reportView'' \<and> \<not> shown ''workspaceNav'' \<and> (\<forall>v \<in> set views. \<not> shown (''view:'' @ v))
     else shown ''workspaceNav'' \<and> \<not> shown ''reportView'' \<and>
       (\<exists>!v. v \<in> set views \<and> shown (''view:'' @ v)) \<and> (\<exists>!a. a \<in> set admin_views \<and> shown (''pane:'' @ a)) \<and>
       (shown ''view:admin'' \<longrightarrow> me_dashboard_mode u = ''admin'' \<and> me_role u \<noteq> ''customer'') \<and>
       (shown ''pane:audit'' \<or> shown ''pane:runtime'' \<longrightarrow> me_role u = ''superadmin''))"
proof (cases "parse_report (b_hash b)")
  case (Some ki)
  then show ?thesis using routeView_report [OF assms, of "fst ki" "snd ki" e] by (simp add: Let_def)
next
  case None
  obtain view admin where r: "route_of u (b_hash b) = (view, admin)" by fastforce
  note flags = routeView_shows(2-5) [OF assms None r, of e]
  have adm: "''admin'' \<in> set views" "''audit'' \<in> set admin_views" "''runtime'' \<in> set admin_views"
    by (simp_all add: views_def admin_views_def)
  note rc = route_of_cases [OF r]
  have a: "hidden_at ''view:admin'' (snd (routeView e b)) \<longleftrightarrow> ''admin'' \<noteq> view"
      "hidden_at ''pane:audit'' (snd (routeView e b)) \<longleftrightarrow> ''audit'' \<noteq> admin"
      "hidden_at ''pane:runtime'' (snd (routeView e b)) \<longleftrightarrow> ''runtime'' \<noteq> admin"
    using bspec [OF flags(1) adm(1)] bspec [OF flags(2) adm(2)] bspec [OF flags(2) adm(3)] by simp_all
  show ?thesis
    using None flags rc by (auto simp: Let_def a)
qed

definition plain_env :: env where
  "plain_env = \<lparr>e_fmt = plain_fmt, e_today = (2026, 3, 1), e_zone = ''UTC''\<rparr>"

definition empty_dom :: dom where
  "empty_dom = \<lparr>dm_text = (\<lambda>_. []), dm_html = (\<lambda>_. []), dm_hidden = (\<lambda>_. False), dm_disabled = (\<lambda>_. False),
     dm_value = (\<lambda>_. []), dm_class = (\<lambda>_ _. False), dm_default = (\<lambda>_. [])\<rparr>"

definition fresh_browser :: browser where
  "fresh_browser =
     \<lparr>b_user = None, b_tenants = [], b_links = [], b_recent = [], b_loaded = [], b_last_hash = ''#home'',
      b_link_pager = reset_pager, b_user_pager = reset_pager, b_click_pager = reset_pager,
      b_audit_pager = reset_pager, b_report = None, b_hash = [], b_hrefs = [], b_dom = empty_dom,
      b_sent = [], b_answers = [], b_confirms = []\<rparr>"

theorem routing_shows_one_allowed_view_witness:
  "let b' = snd (routeView plain_env (fresh_browser\<lparr>b_user := Some sample_me, b_hash := ''#admin/audit''\<rparr>));
       shown = (\<lambda>i. \<not> hidden_at i b') in
    shown ''workspaceNav'' \<and> \<not> shown ''reportView'' \<and>
    (\<exists>!v. v \<in> set views \<and> shown (''view:'' @ v)) \<and> (\<exists>!a. a \<in> set admin_views \<and> shown (''pane:'' @ a)) \<and>
    \<not> shown ''view:admin'' \<and> \<not> shown ''pane:audit'' \<and> \<not> shown ''pane:runtime''"
  using routing_shows_one_allowed_view [of "fresh_browser\<lparr>b_user := Some sample_me, b_hash := ''#admin/audit''\<rparr>"
      sample_me plain_env]
  by (simp add: Let_def sample_me_def parse_report_def strip_hash_def)

lemma parse_report_link:
  "0 \<le> i \<Longrightarrow> parse_report (''#report/link/'' @ int_text i) = Some (''link'', int_text i)"
proof -
  assume "0 \<le> i"
  then have al: "list_all alnum (int_text i)"
    by (auto simp: list_all_iff int_text_def alnum_def digit_char_def dest!: nat_text_digits)
  have "split_on (CHR ''/'') (''report/link/'' @ int_text i) = [''report'', ''link'', int_text i]"
    by (simp add: not_in_int_text)
  then show ?thesis
    using al by (simp add: parse_report_def strip_hash_def lower_def lower_char_def)
qed

text \<open>Opening a report and going back returns to where the user was. From any hash that is not a
  report, opening the report of link \<open>i\<close> shows the report of exactly that link, and \<open>Back to
  dashboard\<close> then shows the workspace view that was on the screen before.\<close>

theorem report_and_back:
  assumes "b_user b = Some u" and "parse_report (b_hash b) = None" and "0 \<le> i"
  shows "let b1 = snd (routeView e b); b2 = snd (routeView e (snd (openLinkReport i b1)));
      b3 = snd (routeView e (snd (backToDashboard b2))) in
    b_report b2 = Some (''link'', int_text i) \<and>
    reportBasePath b2 = ''/api/v1/reports/links/'' @ int_text i \<and>
    (\<forall>v \<in> set views. hidden_at (''view:'' @ v) b2) \<and>
    (\<forall>v \<in> set views. hidden_at (''view:'' @ v) b3 = hidden_at (''view:'' @ v) b1) \<and> b_report b3 = None"
proof -
  obtain view admin where r: "route_of u (b_hash b) = (view, admin)" by fastforce
  let ?h = "workspace_hash (view, admin)"
  define b1 where "b1 = snd (routeView e b)"
  have b1: "session b1 = (Some u, b_hash b, ?h, None)" "\<forall>v \<in> set views. hidden_at (''view:'' @ v) b1 \<longleftrightarrow> v \<noteq> view"
    unfolding b1_def by (rule routeView_shows [OF assms(1,2) r])+
  define c1 where "c1 = snd (openLinkReport i b1)"
  have c1: "b_user c1 = Some u" "parse_report (b_hash c1) = Some (''link'', int_text i)" "b_last_hash c1 = ?h"
    using b1(1) parse_report_link [OF assms(3)]
    by (simp_all add: c1_def openLinkReport_def set_hash_def modify_def session_def)
  define b2 where "b2 = snd (routeView e c1)"
  have b2: "session b2 = (Some u, b_hash c1, ?h, Some (''link'', int_text i))"
      "\<forall>v \<in> set views. hidden_at (''view:'' @ v) b2"
    using routeView_report [OF c1(1,2), of e] by (simp_all add: b2_def c1(3))
  define c2 where "c2 = snd (backToDashboard b2)"
  have hash: "?h \<noteq> []" "hd ?h = CHR ''#''" by (simp_all add: workspace_hash_def)
  then have c2: "b_user c2 = Some u" "b_hash c2 = ?h"
    using b2(1) by (simp_all add: c2_def backToDashboard_def reading_def set_hash_def modify_def session_def str_or_def)
  define b3 where "b3 = snd (routeView e c2)"
  have p: "parse_report (b_hash c2) = None" "route_of u (b_hash c2) = (view, if view = ''admin'' then admin else ''users'')"
    using route_of_workspace_hash [OF r] by (simp_all add: c2(2))
  have b3: "session b3 = (Some u, b_hash c2, workspace_hash (view, if view = ''admin'' then admin else ''users''), None)"
      "\<forall>v \<in> set views. hidden_at (''view:'' @ v) b3 \<longleftrightarrow> v \<noteq> view"
    unfolding b3_def by (rule routeView_shows [OF c2(1) p])+
  show ?thesis
    using b1(2) b2 b3 unfolding Let_def b1_def [symmetric] c1_def [symmetric] b2_def [symmetric]
      c2_def [symmetric] b3_def [symmetric]
    by (simp add: session_def reportBasePath_def)
qed

theorem report_and_back_witness:
  "let b = fresh_browser\<lparr>b_user := Some sample_me, b_hash := ''#links''\<rparr>;
      b1 = snd (routeView plain_env b); b2 = snd (routeView plain_env (snd (openLinkReport 7 b1)));
      b3 = snd (routeView plain_env (snd (backToDashboard b2))) in
    b_report b2 = Some (''link'', int_text 7) \<and>
    reportBasePath b2 = ''/api/v1/reports/links/'' @ int_text 7 \<and>
    (\<forall>v \<in> set views. hidden_at (''view:'' @ v) b2) \<and>
    (\<forall>v \<in> set views. hidden_at (''view:'' @ v) b3 = hidden_at (''view:'' @ v) b1) \<and> b_report b3 = None"
  using report_and_back [of "fresh_browser\<lparr>b_user := Some sample_me, b_hash := ''#links''\<rparr>" sample_me 7 plain_env]
  by (simp add: Let_def parse_report_def strip_hash_def)


end
