(* ===== verification/Actions.thy ===== *)
theory Actions
  imports LinkForm Router
begin

text \<open>
  What the user can do with links (\<open>web/app.js\<close>): create, edit, save, import, delete, page through,
  and make QR codes; and the page handlers of the other paginated lists.

  The forms are controls of the page: \<open>linkForm.url\<close> is the value of the control \<open>url\<close> of the create
  form, \<open>editLinkForm.url\<close> the one of the edit dialog; a checkbox is checked when its element has the
  class \<open>checked\<close>. A dialog is open when it is not hidden. Calls the code does not await are run to
  their end and their failure is ignored (\<open>detached\<close>); how they can overlap is the subject of \<open>Paging\<close>.
\<close>

section \<open>Helpers\<close>

definition detached :: "unit act \<Rightarrow> unit act" where
  "detached m = try_catch m (\<lambda>_. ret ())"

definition with_body :: "payload option \<Rightarrow> (payload \<Rightarrow> 'a act) \<Rightarrow> 'a act" where
  \<comment> \<open>reading a property of the answer: a TypeError when there is none\<close>
  "with_body p k = (case p of None \<Rightarrow> type_error | Some q \<Rightarrow> if payload_js q = JNull then type_error else k q)"

definition answer_text :: "payload \<Rightarrow> string \<Rightarrow> string" where
  \<comment> \<open>\<open>${link.short_url}\<close> and \<open>${result.slug}\<close>\<close>
  "answer_text p k = (case p of
     A_link l \<Rightarrow> (if k = ''short_url'' then l_short_url l else if k = ''slug'' then l_slug l else ''undefined'')
   | _ \<Rightarrow> js_string (js_field (payload_js p) k))"

definition unload :: "string \<Rightarrow> unit act" where
  \<comment> \<open>\<open>loadedWorkspaceViews.delete(key)\<close>\<close>
  "unload key = modify (\<lambda>b. b\<lparr>b_loaded := filter (\<lambda>k. k \<noteq> key) (b_loaded b)\<rparr>)"

section \<open>The forms of a link\<close>

definition create_names :: "string list" where
  "create_names = [''url'', ''slug'', ''title'', ''visibility'', ''redirect_code'', ''expires_at'', ''max_clicks'',
     ''expired_url'', ''ios_url'', ''android_url'', ''geo_targets'', ''tags'', ''utm_source'', ''utm_medium'',
     ''utm_campaign'', ''password'']"

definition edit_names :: "string list" where
  "edit_names = [''id'', ''url'', ''title'', ''visibility'', ''redirect_code'', ''expires_at'', ''max_clicks'',
     ''expired_url'', ''ios_url'', ''android_url'', ''geo_targets'', ''tags'', ''utm_source'', ''utm_medium'',
     ''utm_campaign'', ''password'']"

definition control_text :: "browser \<Rightarrow> string \<Rightarrow> string list \<Rightarrow> string \<Rightarrow> string option" where
  "control_text b form names k = (if k \<in> set names then Some (dm_value (b_dom b) (form @ ''.'' @ k)) else None)"

definition control_checked :: "browser \<Rightarrow> string \<Rightarrow> bool" where
  "control_checked b i = dm_class (b_dom b) i ''checked''"

definition create_form_of :: "browser \<Rightarrow> link_form" where
  "create_form_of b =
     \<lparr>fo_text = control_text b ''linkForm'' create_names,
      fo_forward_query = Some (control_checked b ''linkForm.forward_query''), fo_clear_password = None\<rparr>"

definition edit_form_of :: "browser \<Rightarrow> link_form" where
  "edit_form_of b =
     \<lparr>fo_text = control_text b ''editLinkForm'' edit_names,
      fo_forward_query = Some (control_checked b ''editLinkForm.forward_query''),
      fo_clear_password = Some (control_checked b ''editLinkForm.clear_password'')\<rparr>"

section \<open>Creating, editing, importing, deleting\<close>

definition link_created :: "payload option \<Rightarrow> unit act" where
  \<comment> \<open>what \<open>createLink\<close> does with the answer\<close>
  "link_created p = steps
     [reset_controls (map (\<lambda>k. ''linkForm.'' @ k) create_names),
      toggle_class ''linkForm.forward_query'' ''checked'' False,
      with_body p (\<lambda>q. showOk (''Created: '' @ answer_text q ''short_url'')),
      modify (\<lambda>b. b\<lparr>b_link_pager := reset_pager\<rparr>),
      unload ''links'',
      finish (both loadRecentLinks loadStats)]"

definition createLink :: "codec \<Rightarrow> unit act" where
  "createLink c = andThen (showOk ''Creating link...'') (\<lambda>_.
     try_catch (reading (\<lambda>b. case linkPayloadFromForm c (create_form_of b) True of
          Inl x \<Rightarrow> throw x
        | Inr v \<Rightarrow> andThen (api ''POST'' ''/api/v1/links'' v) link_created)) showErr)"

definition editLink :: "codec \<Rightarrow> int \<Rightarrow> unit act" where
  "editLink c i = reading (\<lambda>b. case find (\<lambda>l. l_id l = i) (b_links b) of None \<Rightarrow> ret ()
     | Some l \<Rightarrow> steps
        [reset_controls (map (\<lambda>k. ''editLinkForm.'' @ k) edit_names),
         toggle_class ''editLinkForm.clear_password'' ''checked'' False,
         toggle_class ''editLinkForm.forward_query'' ''checked'' False,
         set_text ''editSlug'' (''/'' @ l_slug l),
         steps (map (\<lambda>(k, v). only_if (k \<in> set edit_names) (set_value (''editLinkForm.'' @ k) v)) (edit_values c l)),
         (case l_expires_at l of None \<Rightarrow> ret ()
          | Some t \<Rightarrow> set_value ''editLinkForm.expires_at'' (take 16 (co_iso c t))),
         (case l_max_clicks l of None \<Rightarrow> ret ()
          | Some n \<Rightarrow> only_if (n \<noteq> 0) (set_value ''editLinkForm.max_clicks'' (int_text n))),
         toggle_class ''editLinkForm.forward_query'' ''checked'' (l_forward_query l),
         set_hidden ''linkEditor'' False])"

definition saveLink :: "env \<Rightarrow> codec \<Rightarrow> unit act" where
  "saveLink e c = try_catch (reading (\<lambda>b. case linkPayloadFromForm c (edit_form_of b) False of
       Inl x \<Rightarrow> throw x
     | Inr v \<Rightarrow> andThen (api ''PATCH'' (''/api/v1/links/'' @ dm_value (b_dom b) ''editLinkForm.id'') v) (\<lambda>p. steps
        [set_hidden ''linkEditor'' True,
         with_body p (\<lambda>q. showOk (''Updated /'' @ answer_text q ''slug'' @ ''; the slug was not changed.'')),
         unload ''home'',
         finish (both (loadLinks (f_date (e_fmt e))) loadStats)]))) showErr"

definition downloadLinks :: "unit act" where
  "downloadLinks = go_to ''/api/v1/links/export.csv''"

text \<open>\<open>importLinks\<close> calls \<open>fetch\<close> itself: the answer must be JSON, whatever its status, and is thrown when
  the status is an error. The argument is the text of the chosen file, if one was chosen.\<close>

definition fetch_json :: "string \<Rightarrow> string \<Rightarrow> jsval \<Rightarrow> jsval act" where
  "fetch_json http_method path body b =
     (let b1 = b\<lparr>b_sent := b_sent b @ [\<lparr>rq_method = http_method, rq_path = path, rq_body = body\<rparr>],
                b_answers := tl (b_answers b)\<rparr> in
      case b_answers b of
        Answer status _ p # _ \<Rightarrow>
          (case payload_js p of JStr _ \<Rightarrow> (Inl (JObj []), b1)
           | v \<Rightarrow> if status = 204 then (Inl (JObj []), b1)
                  else if status < 200 \<or> 299 < status then (Inl v, b1) else (Inr v, b1))
      | _ \<Rightarrow> (Inl (JObj []), b1))"

definition import_kind :: "jsval \<Rightarrow> string" where
  \<comment> \<open>an error notice when some rows were refused\<close>
  "import_kind result = (case js_field result ''errors'' of JObj fs \<Rightarrow> if fs = [] then ''ok'' else ''error''
     | JArr xs \<Rightarrow> if xs = [] then ''ok'' else ''error'' | JStr s \<Rightarrow> if s = [] then ''ok'' else ''error'' | _ \<Rightarrow> ''ok'')"

definition importLinks :: "env \<Rightarrow> string option \<Rightarrow> unit act" where
  "importLinks e file = (case file of None \<Rightarrow> ret ()
     | Some csv \<Rightarrow> andThen (try_catch
        (andThen (fetch_json ''POST'' ''/api/v1/links/import'' (JStr csv)) (\<lambda>result. steps
           [if js_get result ''imported'' = None then type_error
            else showMsg (JStr (''Imported '' @ js_string (js_field result ''imported'') @ '' links.'')) (import_kind result),
            modify (\<lambda>b. b\<lparr>b_link_pager := reset_pager\<rparr>),
            unload ''home'',
            finish (both (loadLinks (f_date (e_fmt e))) loadStats)])) showErr)
        (\<lambda>_. set_value ''csvFile'' []))"

definition delLink :: "env \<Rightarrow> int \<Rightarrow> unit act" where
  "delLink e i = reading (\<lambda>b.
     andThen (confirmAction ''Delete short link?''
        (''/'' @ (case find (\<lambda>l. l_id l = i) (b_links b) of None \<Rightarrow> ''this link'' | Some l \<Rightarrow> l_slug l) @
         '' will stop redirecting immediately. Its analytics will be retained.'') ''Delete link'' True)
      (\<lambda>yes. only_if yes (try_catch (steps
        [finish (api ''DELETE'' (''/api/v1/links/'' @ int_text i) JUndef),
         showOk ''Link deleted.'',
         unload ''home'',
         finish (both (loadLinks (f_date (e_fmt e))) loadStats)]) showErr)))"

definition toggleTargetURL :: "int \<Rightarrow> unit act" where
  \<comment> \<open>the button of the row of link \<open>i\<close> and the URL before it\<close>
  "toggleTargetURL i = reading (\<lambda>b. let expanded = \<not> dm_class (b_dom b) (''url:'' @ int_text i) ''expanded'' in steps
     [toggle_class (''url:'' @ int_text i) ''expanded'' expanded,
      set_text (''toggle:'' @ int_text i) (if expanded then ''Hide full URL'' else ''Show full URL''),
      set_text (''toggle.aria-expanded:'' @ int_text i) (if expanded then ''true'' else ''false'')])"

section \<open>The page handlers\<close>

definition changeLinkPageSize :: "env \<Rightarrow> unit act" where
  "changeLinkPageSize e = steps
     [modify (\<lambda>b. b\<lparr>b_link_pager := reset_pager\<rparr>), detached (loadLinks (f_date (e_fmt e)))]"

definition nextLinkPage :: "env \<Rightarrow> unit act" where
  "nextLinkPage e = reading (\<lambda>b. case next_page (b_link_pager b) of None \<Rightarrow> ret ()
     | Some p \<Rightarrow> steps [modify (\<lambda>b. b\<lparr>b_link_pager := p\<rparr>), detached (loadLinks (f_date (e_fmt e)))])"

definition previousLinkPage :: "env \<Rightarrow> unit act" where
  "previousLinkPage e = reading (\<lambda>b. case previous_page (b_link_pager b) of None \<Rightarrow> ret ()
     | Some p \<Rightarrow> steps [modify (\<lambda>b. b\<lparr>b_link_pager := p\<rparr>), detached (loadLinks (f_date (e_fmt e)))])"

definition changeUserPageSize :: "unit act" where
  "changeUserPageSize = steps [modify (\<lambda>b. b\<lparr>b_user_pager := reset_pager\<rparr>), detached loadCustomers]"

definition filterUsers :: "unit act" where
  "filterUsers = steps [modify (\<lambda>b. b\<lparr>b_user_pager := reset_pager\<rparr>), detached loadCustomers]"

definition nextUserPage :: "unit act" where
  "nextUserPage = reading (\<lambda>b. case next_page (b_user_pager b) of None \<Rightarrow> ret ()
     | Some p \<Rightarrow> steps [modify (\<lambda>b. b\<lparr>b_user_pager := p\<rparr>), detached loadCustomers])"

definition previousUserPage :: "unit act" where
  "previousUserPage = reading (\<lambda>b. case previous_page (b_user_pager b) of None \<Rightarrow> ret ()
     | Some p \<Rightarrow> steps [modify (\<lambda>b. b\<lparr>b_user_pager := p\<rparr>), detached loadCustomers])"

definition changeAuditPageSize :: "env \<Rightarrow> unit act" where
  "changeAuditPageSize e = steps
     [modify (\<lambda>b. b\<lparr>b_audit_pager := reset_pager\<rparr>), detached (loadAuditEvents (f_date (e_fmt e)))]"

definition filterAuditEvents :: "env \<Rightarrow> unit act" where
  "filterAuditEvents e = steps
     [modify (\<lambda>b. b\<lparr>b_audit_pager := reset_pager\<rparr>), detached (loadAuditEvents (f_date (e_fmt e)))]"

definition nextAuditPage :: "env \<Rightarrow> unit act" where
  "nextAuditPage e = reading (\<lambda>b. case next_page (b_audit_pager b) of None \<Rightarrow> ret ()
     | Some p \<Rightarrow> steps [modify (\<lambda>b. b\<lparr>b_audit_pager := p\<rparr>), detached (loadAuditEvents (f_date (e_fmt e)))])"

definition previousAuditPage :: "env \<Rightarrow> unit act" where
  "previousAuditPage e = reading (\<lambda>b. case previous_page (b_audit_pager b) of None \<Rightarrow> ret ()
     | Some p \<Rightarrow> steps [modify (\<lambda>b. b\<lparr>b_audit_pager := p\<rparr>), detached (loadAuditEvents (f_date (e_fmt e)))])"

definition changeClickPageSize :: "env \<Rightarrow> unit act" where
  "changeClickPageSize e = steps
     [modify (\<lambda>b. b\<lparr>b_click_pager := reset_pager\<rparr>), detached (loadClicks (f_date (e_fmt e)))]"

definition nextClickPage :: "env \<Rightarrow> unit act" where
  "nextClickPage e = reading (\<lambda>b. case next_page (b_click_pager b) of None \<Rightarrow> ret ()
     | Some p \<Rightarrow> steps [modify (\<lambda>b. b\<lparr>b_click_pager := p\<rparr>), detached (loadClicks (f_date (e_fmt e)))])"

definition previousClickPage :: "env \<Rightarrow> unit act" where
  "previousClickPage e = reading (\<lambda>b. case previous_page (b_click_pager b) of None \<Rightarrow> ret ()
     | Some p \<Rightarrow> steps [modify (\<lambda>b. b\<lparr>b_click_pager := p\<rparr>), detached (loadClicks (f_date (e_fmt e)))])"

section \<open>QR codes\<close>

definition qr_text :: "browser \<Rightarrow> string" where
  "qr_text b = trim (dm_value (b_dom b) ''qrText'')"

definition qrURL :: "browser \<Rightarrow> string" where
  "qrURL b = ''/api/v1/qr?'' @ search_params
     [(''text'', qr_text b), (''format'', dm_value (b_dom b) ''qrFormat''), (''size'', dm_value (b_dom b) ''qrSize''),
      (''foreground'', dm_value (b_dom b) ''qrForeground''), (''background'', dm_value (b_dom b) ''qrBackground'')]"

definition makeQR :: "int \<Rightarrow> unit act" where
  \<comment> \<open>\<open>now\<close> is \<open>Date.now()\<close>, which keeps the browser from reusing the old image\<close>
  "makeQR now = reading (\<lambda>b.
     if qr_text b = [] then showErr (JStr ''Enter text or URL for QR.'')
     else if dm_value (b_dom b) ''qrFormat'' = ''pdf'' then showOk ''PDF is ready to download.''
     else set_text ''qrImg.src'' (qrURL b @ ''&_='' @ int_text now))"

definition qrForLink :: "int \<Rightarrow> int \<Rightarrow> unit act" where
  \<comment> \<open>scrolling the field into view is left out\<close>
  "qrForLink now i = reading (\<lambda>b. case find (\<lambda>l. l_id l = i) (b_links b @ b_recent b) of
       None \<Rightarrow> showErr (JStr ''The selected link is no longer available.'')
     | Some l \<Rightarrow> steps [set_value ''qrText'' (l_short_url l), makeQR now])"

definition downloadQR :: "unit act" where
  "downloadQR = reading (\<lambda>b.
     if qr_text b = [] then showErr (JStr ''Enter text or URL for QR.'')
     else steps [set_text ''download.href'' (qrURL b),
                 set_text ''download.name'' (''shortq-qr.'' @ dm_value (b_dom b) ''qrFormat'')])"

end
