(* ===== verification/Admin.thy ===== *)
theory Admin
  imports Actions
begin

text \<open>
  Administration in the dashboard (\<open>web/app.js\<close>): API keys, departments, domains, users and their
  deletion access; and the sum of all things a user can do, \<open>ui_action\<close>, over which the theorems about
  requests are stated.
\<close>

section \<open>Form data\<close>

text \<open>\<open>data(e)\<close>: the controls that are not disabled, in the order of the page, as an object. A control
  is given by its name and its element.\<close>

definition data_of :: "browser \<Rightarrow> (string \<times> string) list \<Rightarrow> (string \<times> jsval) list" where
  "data_of b controls =
     map (\<lambda>(n, i). (n, JStr (dm_value (b_dom b) i))) (filter (\<lambda>(n, i). \<not> dm_disabled (b_dom b) i) controls)"

definition put_field :: "string \<Rightarrow> jsval \<Rightarrow> (string \<times> jsval) list \<Rightarrow> (string \<times> jsval) list" where
  \<comment> \<open>\<open>d.k = v\<close>\<close>
  "put_field k v fs =
     (if k \<in> set (map fst fs) then map (\<lambda>(n, w). if n = k then (n, v) else (n, w)) fs else fs @ [(k, v)])"

definition field_or_undef :: "(string \<times> jsval) list \<Rightarrow> string \<Rightarrow> jsval" where
  "field_or_undef fs k = (case map_of fs k of None \<Rightarrow> JUndef | Some v \<Rightarrow> v)"

definition number_of :: "jsval \<Rightarrow> jsval" where
  \<comment> \<open>\<open>Number(v)\<close> of a text, a number, null or undefined\<close>
  "number_of v = (case v of JStr s \<Rightarrow> js_number s | JNum n \<Rightarrow> JNum n | JNull \<Rightarrow> JNum 0 | _ \<Rightarrow> JNaN)"

definition tenant_js :: "me \<Rightarrow> jsval" where
  "tenant_js u = (case me_tenant_id u of None \<Rightarrow> JNull | Some t \<Rightarrow> JNum t)"

section \<open>API keys\<close>

definition key_controls :: "(string \<times> string) list" where
  "key_controls = [(''name'', ''keyForm.name'')]"

definition createKey :: "env \<Rightarrow> unit act" where
  "createKey e = try_catch (reading (\<lambda>b.
     andThen (api ''POST'' ''/api/v1/api-keys'' (JObj (data_of b key_controls))) (\<lambda>p. steps
       [with_body p (\<lambda>q. set_text ''newKey''
          (''Copy now. Shown once:'' @ [CHR 0x0A] @ js_string (js_field (payload_js q) ''key''))),
        reset_controls (map snd key_controls),
        loadKeys (f_date (e_fmt e))]))) showErr"

definition delKey :: "env \<Rightarrow> int \<Rightarrow> unit act" where
  "delKey e i = andThen (confirmAction ''Revoke API key?''
       ''Any integration using this key will lose access immediately. This action cannot be undone.''
       ''Revoke key'' True)
     (\<lambda>yes. only_if yes (try_catch (steps
       [finish (api ''DELETE'' (''/api/v1/api-keys/'' @ int_text i) JUndef),
        showOk ''API key revoked.'', loadKeys (f_date (e_fmt e))]) showErr))"

section \<open>Departments and domains\<close>

definition createTenant :: "(string \<times> string) list \<Rightarrow> unit act" where
  \<comment> \<open>\<open>controls\<close> are the controls of the form; the page of this version has no such form\<close>
  "createTenant controls = try_catch (reading (\<lambda>b.
     andThen (api ''POST'' ''/api/v1/tenants'' (JObj (data_of b controls))) (\<lambda>_. steps
       [reset_controls (map snd controls), showOk ''Department created.'',
        finish (both loadTenants loadStats), setupCustomerForm, loadDomains]))) showErr"

definition domain_controls :: "(string \<times> string) list" where
  "domain_controls = [(''tenant_id'', ''domainTenant''), (''domain'', ''domainForm.domain'')]"

definition domain_data :: "me \<Rightarrow> (string \<times> jsval) list \<Rightarrow> (string \<times> jsval) list" where
  "domain_data u d =
     (let d = (if me_role u = ''tenant'' then put_field ''tenant_id'' (tenant_js u) d else d)
      in put_field ''tenant_id'' (number_of (field_or_undef d ''tenant_id'')) d)"

definition createDomain :: "unit act" where
  "createDomain = the_user (\<lambda>u. try_catch (reading (\<lambda>b.
     andThen (api ''POST'' ''/api/v1/domains'' (JObj (domain_data u (data_of b domain_controls)))) (\<lambda>_. steps
       [reset_controls (map snd domain_controls),
        showOk ''Domain added. Add DNS TXT/CNAME then verify.'', loadDomains]))) showErr)"

definition verifyDomain :: "int \<Rightarrow> unit act" where
  "verifyDomain i = try_catch
     (andThen (api ''POST'' (''/api/v1/domains/'' @ int_text i @ ''/verify'') (JObj [])) (\<lambda>p. steps
       [showMsg (case p of None \<Rightarrow> JNull | Some q \<Rightarrow> payload_js q) ''ok'', loadDomains])) showErr"

definition delDomain :: "int \<Rightarrow> unit act" where
  "delDomain i = andThen (confirmAction ''Delete custom domain?''
       ''Short links using this domain may stop working. This action cannot be undone.'' ''Delete domain'' True)
     (\<lambda>yes. only_if yes (try_catch (steps
       [finish (api ''DELETE'' (''/api/v1/domains/'' @ int_text i) JUndef),
        showOk ''Domain deleted.'', loadDomains]) showErr))"

section \<open>Users\<close>

definition setDeletionAccess :: "int \<Rightarrow> bool \<Rightarrow> unit act" where
  "setDeletionAccess i enabled = andThen (confirmAction
       ((if enabled then ''Enable'' else ''Disable'') @ '' deletion access?'')
       (if enabled then ''This user will be able to delete links, domains, and API keys.''
        else ''This user will immediately lose deletion access.'')
       (if enabled then ''Enable access'' else ''Disable access'') enabled)
     (\<lambda>yes. only_if yes (try_catch (steps
       [finish (api ''PATCH'' (''/api/v1/customers/'' @ int_text i @ ''/deletion-access'')
          (JObj [(''enabled'', JBool enabled)])),
        showOk ''Deletion access updated.'', unload ''admin/audit'', loadCustomers]) showErr))"

definition customer_controls :: "(string \<times> string) list" where
  "customer_controls = [(''name'', ''customerForm.name''), (''email'', ''customerForm.email''),
     (''role'', ''customerRole''), (''tenant_id'', ''customerTenant''), (''password'', ''customerForm.password'')]"

definition customer_data :: "me \<Rightarrow> (string \<times> jsval) list \<Rightarrow> (string \<times> jsval) list" where
  "customer_data u d =
     (let d = (if me_role u = ''tenant''
               then put_field ''tenant_id'' (tenant_js u) (put_field ''role'' (JStr ''customer'') d) else d)
      in if truthy (field_or_undef d ''tenant_id'')
         then put_field ''tenant_id'' (number_of (field_or_undef d ''tenant_id'')) d
         else filter (\<lambda>kv. fst kv \<noteq> ''tenant_id'') d)"

definition createCustomer :: "unit act" where
  "createCustomer = the_user (\<lambda>u. try_catch (reading (\<lambda>b.
     andThen (api ''POST'' ''/api/v1/customers'' (JObj (customer_data u (data_of b customer_controls)))) (\<lambda>_. steps
       [reset_controls (map snd customer_controls), showOk ''User created.'', setupCustomerForm,
        modify (\<lambda>b. b\<lparr>b_user_pager := reset_pager\<rparr>),
        finish (both loadCustomers loadStats)]))) showErr)"

section \<open>Everything a user can do\<close>

datatype ui_action =
    Sign_in | Sign_out | Change_password | Start | Hash_changed string | Set_mode string
  | Create_link | Edit_link int | Save_link | Import_links "string option" | Export_links | Delete_link int
  | Toggle_url int | Refresh_links | Link_page_size | Next_links | Previous_links
  | Create_key | Delete_key int | Create_tenant "(string \<times> string) list"
  | Create_domain | Verify_domain int | Delete_domain int
  | Create_user | Deletion_access int bool | Filter_users | User_page_size | Next_users | Previous_users
  | Filter_audit | Audit_page_size | Next_audit | Previous_audit
  | Click_page_size | Next_clicks | Previous_clicks
  | Make_qr int | Qr_for_link int int | Download_qr
  | Open_link_report int | Open_user_report "string option" | Leave_report | Report_preset string | Show_report
  | Download_report string
  | Type_text string string
  \<comment> \<open>the user enters a text into a control\<close>

fun perform :: "env \<Rightarrow> codec \<Rightarrow> ui_action \<Rightarrow> unit act" where
  "perform e c Sign_in = login"
| "perform e c Sign_out = logout"
| "perform e c Change_password = changePass"
| "perform e c Start = restoreSession e"
| "perform e c (Hash_changed h) = steps [set_hash h, try_catch (routeView e) showErr]"
| "perform e c (Set_mode m) = setDashboardMode e m"
| "perform e c Create_link = createLink c"
| "perform e c (Edit_link i) = editLink c i"
| "perform e c Save_link = saveLink e c"
| "perform e c (Import_links file) = importLinks e file"
| "perform e c Export_links = downloadLinks"
| "perform e c (Delete_link i) = delLink e i"
| "perform e c (Toggle_url i) = toggleTargetURL i"
| "perform e c Refresh_links = detached (loadLinks (f_date (e_fmt e)))"
| "perform e c Link_page_size = changeLinkPageSize e"
| "perform e c Next_links = nextLinkPage e"
| "perform e c Previous_links = previousLinkPage e"
| "perform e c Create_key = createKey e"
| "perform e c (Delete_key i) = delKey e i"
| "perform e c (Create_tenant cs) = createTenant cs"
| "perform e c Create_domain = detached createDomain"
| "perform e c (Verify_domain i) = verifyDomain i"
| "perform e c (Delete_domain i) = delDomain i"
| "perform e c Create_user = detached createCustomer"
| "perform e c (Deletion_access i x) = setDeletionAccess i x"
| "perform e c Filter_users = filterUsers"
| "perform e c User_page_size = changeUserPageSize"
| "perform e c Next_users = nextUserPage"
| "perform e c Previous_users = previousUserPage"
| "perform e c Filter_audit = filterAuditEvents e"
| "perform e c Audit_page_size = changeAuditPageSize e"
| "perform e c Next_audit = nextAuditPage e"
| "perform e c Previous_audit = previousAuditPage e"
| "perform e c Click_page_size = changeClickPageSize e"
| "perform e c Next_clicks = nextClickPage e"
| "perform e c Previous_clicks = previousClickPage e"
| "perform e c (Make_qr now) = makeQR now"
| "perform e c (Qr_for_link now i) = qrForLink now i"
| "perform e c Download_qr = downloadQR"
| "perform e c (Open_link_report i) = steps [openLinkReport i, try_catch (routeView e) showErr]"
| "perform e c (Open_user_report i) = steps [openUserReport i, try_catch (routeView e) showErr]"
| "perform e c Leave_report = steps [backToDashboard, try_catch (routeView e) showErr]"
| "perform e c (Report_preset v) = setReportPreset e v True"
| "perform e c Show_report = loadCurrentReport e"
| "perform e c (Download_report f) = downloadReport e f"
| "perform e c (Type_text i t) = set_value i t"

fun play :: "env \<Rightarrow> codec \<Rightarrow> ui_action list \<Rightarrow> browser \<Rightarrow> browser" where
  "play e c [] b = b"
| "play e c (a # as) b = play e c as (snd (perform e c a b))"

end
