(* ===== verification/Requests.thy ===== *)
theory Requests
  imports Admin
begin

text \<open>
  What the dashboard asks of the server: which handler sends which requests, and that nothing that
  cannot be undone is asked for without the user's confirmation. The lemmas follow the structure of the
  handlers with the rules of \<open>effects\<close>; the theorems hold for every server and every user.
\<close>

section \<open>Requests that only read\<close>

definition reads :: "sent \<Rightarrow> bool" where
  "reads r \<longleftrightarrow> rq_method r = ''GET''"

lemma reads_api_get [effects]: "sends reads (api_get path)"
  by (rule sends_api_get) (simp add: reads_def)

lemma sends_mono: "sends P m \<Longrightarrow> (\<And>r. P r \<Longrightarrow> Q r) \<Longrightarrow> sends Q m"
  unfolding sends_def sent_more_def by (metis list_all_iff)

lemma sends_detached [effects]: "sends P m \<Longrightarrow> sends P (detached m)"
  unfolding detached_def by (intro effects)

lemma sends_with_body [effects]: "(\<And>q. sends P (k q)) \<Longrightarrow> sends P (with_body p k)"
  unfolding with_body_def by (auto intro!: effects split: option.split)

lemma sends_state [effects]:
  "sends P (modify (\<lambda>b. b\<lparr>b_link_pager := f b, b_links := xs\<rparr>))"
  "sends P (modify (\<lambda>b. b\<lparr>b_link_pager := f b\<rparr>))"
  "sends P (modify (\<lambda>b. b\<lparr>b_user_pager := f b\<rparr>))" "sends P (modify (\<lambda>b. b\<lparr>b_audit_pager := f b\<rparr>))"
  "sends P (modify (\<lambda>b. b\<lparr>b_click_pager := f b\<rparr>))" "sends P (modify (\<lambda>b. b\<lparr>b_recent := xs\<rparr>))"
  "sends P (modify (\<lambda>b. b\<lparr>b_tenants := ts\<rparr>))" "sends P (modify (\<lambda>b. b\<lparr>b_loaded := g b\<rparr>))"
  "sends P (modify (\<lambda>b. b\<lparr>b_report := rp\<rparr>))" "sends P (modify (\<lambda>b. b\<lparr>b_last_hash := h\<rparr>))"
  "sends P (modify (\<lambda>b. b\<lparr>b_user := u\<rparr>))" "sends P (modify (\<lambda>b. b\<lparr>b_tenants := ts, b_loaded := ks\<rparr>))"
  "sends P (modify (\<lambda>b. b\<lparr>b_link_pager := p1, b_user_pager := p2, b_click_pager := p3\<rparr>))"
  "sends P (unload key)" "sends P (set_hash h)"
  by (auto simp: unload_def set_hash_def intro!: sends_modify)

lemma sends_show_pager [effects]: "sends P (show_pager name get)"
proof -
  have "show_pager name get = reading (\<lambda>b. steps
     [set_text (name @ ''PageNumber'') (''Page '' @ nat_text (page_number (get b))),
      set_disabled (name @ ''Previous'') (previous_disabled (get b)),
      set_disabled (name @ ''Next'') (next_disabled (get b))])"
    by (simp add: fun_eq_iff show_pager_def reading_def)
  then show ?thesis by (auto intro!: effects)
qed

lemma sends_setup [effects]: "sends P setupCustomerForm"
  unfolding setupCustomerForm_def by (auto intro!: effects split: option.split)

text \<open>Every loader sends its own requests and no other. The predicate stands for "this endpoint may be
  asked".\<close>

definition get_of :: "string \<Rightarrow> sent" where
  "get_of path = \<lparr>rq_method = ''GET'', rq_path = path, rq_body = JUndef\<rparr>"

lemma sends_get [effects]: "P (get_of path) \<Longrightarrow> sends P (api_get path)"
  unfolding get_of_def by (rule sends_api_get)

lemma sends_loaders:
  "(\<And>q. P (get_of (''/api/v1/links/page?'' @ q))) \<Longrightarrow> sends P (loadLinks loc)"
  "P (get_of ''/api/v1/links/page?limit=5'') \<Longrightarrow> sends P loadRecentLinks"
  "(\<And>q. P (get_of (''/api/v1/clicks?'' @ q))) \<Longrightarrow> P (get_of ''/api/v1/analytics/breakdown?group_by=country'') \<Longrightarrow>
     sends P (loadClicks loc)"
  "P (get_of ''/api/v1/api-keys'') \<Longrightarrow> sends P (loadKeys loc)"
  "P (get_of ''/api/v1/analytics'') \<Longrightarrow> sends P loadStats"
  "(\<And>q. P (get_of (''/api/v1/customers?'' @ q))) \<Longrightarrow> sends P loadCustomers"
  "P (get_of ''/api/v1/tenants'') \<Longrightarrow> sends P loadTenants"
  "P (get_of ''/api/v1/domains'') \<Longrightarrow> sends P loadDomains"
  "(\<And>q. P (get_of (''/api/v1/audit-events?'' @ q))) \<Longrightarrow> sends P (loadAuditEvents loc)"
  "P (get_of ''/api/v1/admin/runtime'') \<Longrightarrow> sends P loadRuntimeInfo"
  unfolding loadLinks_def loadRecentLinks_def loadClicks_def loadKeys_def loadStats_def loadCustomers_def
    loadTenants_def loadDomains_def loadAuditEvents_def loadRuntimeInfo_def Let_def
  by (auto intro!: effects split: option.split)

lemma reads_get_of [simp]: "reads (get_of path)"
  by (simp add: reads_def get_of_def)

lemma reads_loaders [effects]:
  "sends reads (loadLinks loc)" "sends reads loadRecentLinks" "sends reads (loadClicks loc)"
  "sends reads (loadKeys loc)" "sends reads loadStats" "sends reads loadCustomers" "sends reads loadTenants"
  "sends reads loadDomains" "sends reads (loadAuditEvents loc)" "sends reads loadRuntimeInfo"
  by (simp_all add: sends_loaders)

lemma reads_renderReport [effects]: "sends P (renderReport f r)"
  unfolding renderReport_def by (auto intro!: effects)

lemma reads_views [effects]:
  "sends reads (loadWorkspaceView e view admin)" "sends P (set_preset_dates e v)"
  "sends reads (loadCurrentReport e)" "sends P (show_view view admin)"
  unfolding loadWorkspaceView_def set_preset_dates_def loadCurrentReport_def show_view_def Let_def
  by (auto intro!: effects split: option.split payload.split)

lemma reads_routeView [effects]: "sends reads (routeView e)"
  unfolding routeView_def by (auto intro!: effects split: option.split prod.split)

lemma sends_mode [effects]: "sends P renderDashboardMode" "sends P showApp" "sends P showLogin"
  unfolding renderDashboardMode_def showApp_def showLogin_def setAuthNav_def Let_def by (auto intro!: effects)

lemma reads_renderDashboard [effects]: "sends reads (renderDashboard e)" "sends reads (showDash e)"
    "sends reads (restoreSession e)"
proof -
  show d: "sends reads (renderDashboard e)" unfolding renderDashboard_def by (auto intro!: effects)
  show s: "sends reads (showDash e)" unfolding showDash_def by (auto intro!: effects d)
  show "sends reads (restoreSession e)" unfolding restoreSession_def by (auto intro!: effects s)
qed

section \<open>Confirmed requests\<close>

text \<open>The requests that take something away: a DELETE, and the change of a user's deletion access.\<close>

definition sensitive :: "sent \<Rightarrow> bool" where
  "sensitive r \<longleftrightarrow> rq_method r = ''DELETE'' \<or> rq_method r = ''PATCH'' \<and> has_prefix ''/api/v1/customers/'' (rq_path r)"

abbreviation harmless :: "sent \<Rightarrow> bool" where
  "harmless r \<equiv> \<not> sensitive r"

text \<open>A handler is \<open>paid\<close> for when the sensitive requests it sends are at most as many as the
  confirmations the user gave while it ran.\<close>

definition paid_by :: "browser \<Rightarrow> browser \<Rightarrow> bool" where
  "paid_by b b' \<longleftrightarrow> (\<exists>used rs. b_confirms b = used @ b_confirms b' \<and> b_sent b' = b_sent b @ rs \<and>
     length (filter sensitive rs) \<le> length (filter id used))"

definition paid :: "'a act \<Rightarrow> bool" where
  "paid m \<longleftrightarrow> (\<forall>b. paid_by b (snd (m b)))"

lemma paid_by_refl [simp]: "paid_by b b"
  by (simp add: paid_by_def)

lemma paid_by_trans:
  assumes "paid_by b1 b2" and "paid_by b2 b3"
  shows "paid_by b1 b3"
proof -
  obtain u1 r1 where a: "b_confirms b1 = u1 @ b_confirms b2" "b_sent b2 = b_sent b1 @ r1"
      "length (filter sensitive r1) \<le> length (filter id u1)" using assms(1) unfolding paid_by_def by blast
  obtain u2 r2 where c: "b_confirms b2 = u2 @ b_confirms b3" "b_sent b3 = b_sent b2 @ r2"
      "length (filter sensitive r2) \<le> length (filter id u2)" using assms(2) unfolding paid_by_def by blast
  show ?thesis unfolding paid_by_def
    using a c by (intro exI [of _ "u1 @ u2"] exI [of _ "r1 @ r2"]) simp
qed

lemma paidI: "keeps b_confirms m \<Longrightarrow> sends harmless m \<Longrightarrow> paid m"
  unfolding paid_def paid_by_def keeps_def sends_def sent_more_def
  by (metis append_Nil filter_False list_all_iff list.size(3) zero_le)

lemma paid_steps:
  assumes "\<And>m. m \<in> set ms \<Longrightarrow> paid m"
  shows "paid (steps ms)"
  using assms
proof (induction ms)
  case Nil
  then show ?case by (simp add: paid_def)
next
  case (Cons m ms)
  have m: "paid_by b (snd (m b))" and ms: "paid_by b (snd (steps ms b))" for b
    using Cons by (simp_all add: paid_def)
  show ?case unfolding paid_def
  proof
    fix b
    obtain r b' where r: "m b = (r, b')" by fastforce
    show "paid_by b (snd (steps (m # ms) b))"
      using m [of b] r by (cases r) (auto intro: paid_by_trans ms)
  qed
qed

text \<open>A confirmation pays for one sensitive request, the first of what follows it.\<close>

definition sends_once :: "'a act \<Rightarrow> bool" where
  "sends_once m \<longleftrightarrow> keeps b_confirms m \<and>
     (\<forall>b. \<exists>rs. b_sent (snd (m b)) = b_sent b @ rs \<and> length (filter sensitive rs) \<le> 1)"

lemma sends_once_call:
  assumes "\<And>m. m \<in> set ms \<Longrightarrow> sends harmless m" and "\<And>x. sends harmless (h x)"
    and "keeps b_confirms (try_catch (steps (finish (api mth path body) # ms)) h)"
  shows "sends_once (try_catch (steps (finish (api mth path body) # ms)) h)"
  unfolding sends_once_def
proof (intro conjI allI)
  fix b :: browser
  let ?r = "\<lparr>rq_method = mth, rq_path = path, rq_body = body\<rparr>"
  have more: "\<exists>rs. b_sent b' = b_sent b @ rs \<and> length (filter sensitive rs) \<le> 1"
    if "b_sent b1 = b_sent b @ [?r]" "sent_more harmless b1 b'" for b1 b'
    using that unfolding sent_more_def by (auto simp: list_all_iff filter_empty_conv)
  obtain x b1 where a: "api mth path body b = (x, b1)" by fastforce
  then have b1: "b_sent b1 = b_sent b @ [?r]" using api_sent [of mth path body b] by simp
  have rest: "sends harmless (steps ms)" using assms(1) by (rule sends_steps)
  show "\<exists>rs. b_sent (snd (try_catch (steps (finish (api mth path body) # ms)) h b)) = b_sent b @ rs \<and>
      length (filter sensitive rs) \<le> 1"
  proof (cases x)
    case (Inl err)
    with a have "try_catch (steps (finish (api mth path body) # ms)) h b = h err b1"
      by (simp add: try_catch_def finish_def andThen_def)
    then show ?thesis using more [OF b1] sends_after [OF assms(2), of b1 b1 err] by simp
  next
    case (Inr p)
    with a have eq: "try_catch (steps (finish (api mth path body) # ms)) h b = try_catch (steps ms) h b1"
      by (simp add: try_catch_def finish_def andThen_def ret_def)
    have "sends harmless (try_catch (steps ms) h)" by (intro sends_try_catch rest assms(2))
    then show ?thesis using more [OF b1] eq by (simp add: sends_def)
  qed
qed (rule assms(3))

lemma confirmAction_sent: "b_sent (snd (confirmAction t msg l d b)) = b_sent b"
  by (simp add: confirmAction_def andThen_def reading_def ret_def dom_ops)

lemma confirmAction_result:
  "fst (confirmAction t msg l d b) = Inr (b_confirms b \<noteq> [] \<and> hd (b_confirms b))"
  "b_confirms (snd (confirmAction t msg l d b)) = tl (b_confirms b)"
  by (simp_all add: confirmAction_def andThen_def reading_def ret_def dom_ops)

lemma paid_confirmed:
  assumes "sends_once m"
  shows "paid (andThen (confirmAction t msg l d) (\<lambda>yes. only_if yes m))"
  unfolding paid_def
proof
  fix b :: browser
  obtain x b1 where c: "confirmAction t msg l d b = (x, b1)" by fastforce
  then have x: "x = Inr (b_confirms b \<noteq> [] \<and> hd (b_confirms b))" and b1: "b_confirms b1 = tl (b_confirms b)"
      "b_sent b1 = b_sent b"
    using confirmAction_result [of t msg l d b] confirmAction_sent [of t msg l d b] by simp_all
  obtain rs where rs: "b_sent (snd (m b1)) = b_sent b1 @ rs" "length (filter sensitive rs) \<le> 1"
      "b_confirms (snd (m b1)) = b_confirms b1"
    using assms unfolding sends_once_def keeps_def by blast
  show "paid_by b (snd (andThen (confirmAction t msg l d) (\<lambda>yes. only_if yes m) b))"
  proof (cases "b_confirms b")
    case Nil
    then show ?thesis by (simp add: andThen_def c x only_if_def ret_def paid_by_def b1)
  next
    case (Cons y ys)
    show ?thesis
    proof (cases y)
      case True
      then show ?thesis using Cons rs b1
        by (auto simp: andThen_def c x only_if_def paid_by_def intro!: exI [of _ "[True]"])
    next
      case False
      then show ?thesis using Cons b1
        by (auto simp: andThen_def c x only_if_def ret_def paid_by_def intro!: exI [of _ "[False]"])
    qed
  qed
qed

section \<open>Every handler is paid for\<close>

lemma keeps_confirms_dom [effects]:
  "keeps b_confirms (set_text i t)" "keeps b_confirms (set_html i t)" "keeps b_confirms (set_hidden i v)"
  "keeps b_confirms (set_disabled i v)" "keeps b_confirms (set_value i t)" "keeps b_confirms (toggle_class i c v)"
  "keeps b_confirms (go_to u)" "keeps b_confirms (reset_controls ids)" "keeps b_confirms (set_hash h)"
  "keeps b_confirms (unload key)" "keeps b_confirms (api mth path body)" "keeps b_confirms (fetch_json mth path body)"
  by (simp_all add: keeps_def dom_ops set_hash_def unload_def api_def fetch_json_def Let_def
      split: list.split answer.split jsval.split)

lemma keeps_confirms_state [effects]:
  "keeps b_confirms (modify (\<lambda>b. b\<lparr>b_loaded := ks b\<rparr>))" "keeps b_confirms (modify (\<lambda>b. b\<lparr>b_report := rp\<rparr>))"
  "keeps b_confirms (modify (\<lambda>b. b\<lparr>b_last_hash := h\<rparr>))" "keeps b_confirms (modify (\<lambda>b. b\<lparr>b_user := u\<rparr>))"
  "keeps b_confirms (modify (\<lambda>b. b\<lparr>b_tenants := ts, b_loaded := ks'\<rparr>))"
  "keeps b_confirms (modify (\<lambda>b. b\<lparr>b_link_pager := p1, b_user_pager := p2, b_click_pager := p3\<rparr>))"
  "keeps b_confirms (modify (\<lambda>b. b\<lparr>b_link_pager := f b\<rparr>))"
  by (auto intro!: keeps_modify)

lemma undisturbed_confirms [effects]: "undisturbed b_confirms"
  unfolding undisturbed_def by (auto intro!: effects)

lemma keeps_with_body [effects]: "(\<And>q. keeps g (k q)) \<Longrightarrow> keeps g (with_body p k)"
  unfolding with_body_def by (auto intro!: effects split: option.split)

lemma keeps_detached [effects]: "keeps g m \<Longrightarrow> keeps g (detached m)"
  unfolding detached_def by (intro effects)

lemma keeps_confirms_msg [effects]:
  "keeps b_confirms (showMsg x k)" "keeps b_confirms (showErr x)" "keeps b_confirms (showOk t)"
  unfolding showErr_def showOk_def showMsg_def by (auto intro!: effects)

lemma keeps_confirms_views [effects]:
  "keeps b_confirms (renderReport f r)" "keeps b_confirms (loadCurrentReport e)" "keeps b_confirms (show_view v a)"
  "keeps b_confirms (routeView e)" "keeps b_confirms renderDashboardMode" "keeps b_confirms (renderDashboard e)"
  "keeps b_confirms (showDash e)" "keeps b_confirms (restoreSession e)" "keeps b_confirms (setDashboardMode e mode)"
proof -
  show r: "keeps b_confirms (renderReport f r)" for f r
    unfolding renderReport_def by (auto intro!: effects)
  show l: "keeps b_confirms (loadCurrentReport e)"
    unfolding loadCurrentReport_def by (auto intro!: effects r split: option.split payload.split)
  show v: "keeps b_confirms (show_view v a)" for v a
    unfolding show_view_def by (auto intro!: effects)
  show rv: "keeps b_confirms (routeView e)"
    unfolding routeView_def by (auto intro!: effects l v split: option.split prod.split)
  show m: "keeps b_confirms renderDashboardMode"
    unfolding renderDashboardMode_def Let_def by (auto intro!: effects)
  show d: "keeps b_confirms (renderDashboard e)"
    unfolding renderDashboard_def showApp_def setAuthNav_def by (auto intro!: effects rv m)
  show s: "keeps b_confirms (showDash e)"
    unfolding showDash_def by (auto intro!: effects d)
  show "keeps b_confirms (restoreSession e)"
    unfolding restoreSession_def showLogin_def setAuthNav_def by (auto intro!: effects s)
  show "keeps b_confirms (setDashboardMode e mode)"
    unfolding setDashboardMode_def by (auto intro!: effects d split: option.split)
qed

lemma harmless_reads: "sends reads m \<Longrightarrow> sends harmless m"
  by (erule sends_mono) (simp add: reads_def sensitive_def)

lemmas harmless_loaders [effects] = reads_loaders [THEN harmless_reads] reads_views(1,3) [THEN harmless_reads]
  reads_routeView [THEN harmless_reads] reads_renderDashboard [THEN harmless_reads]

text \<open>Handlers that need no confirmation.\<close>

lemma sensitive_request [simp]:
  "sensitive \<lparr>rq_method = m, rq_path = p, rq_body = v\<rparr> \<longleftrightarrow>
     m = ''DELETE'' \<or> m = ''PATCH'' \<and> has_prefix ''/api/v1/customers/'' p"
  by (simp add: sensitive_def)

lemma harmless_fetch [effects]: "sends harmless (fetch_json ''POST'' path body)"
  by (simp add: sends_def sent_more_def fetch_json_def Let_def split: list.split answer.split jsval.split)

lemmas page_handlers =
  changeLinkPageSize_def nextLinkPage_def previousLinkPage_def changeUserPageSize_def filterUsers_def
  nextUserPage_def previousUserPage_def changeAuditPageSize_def filterAuditEvents_def nextAuditPage_def
  previousAuditPage_def changeClickPageSize_def nextClickPage_def previousClickPage_def

lemmas form_handlers =
  createLink_def link_created_def editLink_def saveLink_def importLinks_def createKey_def createTenant_def createDomain_def
  verifyDomain_def createCustomer_def

lemmas quiet_handlers =
  login_def logout_def changePass_def downloadLinks_def toggleTargetURL_def makeQR_def qrForLink_def downloadQR_def
  openLinkReport_def openUserReport_def backToDashboard_def downloadReport_def setReportPreset_def Let_def

definition needs_confirmation :: "ui_action \<Rightarrow> bool" where
  "needs_confirmation a = (case a of Delete_link _ \<Rightarrow> True | Delete_key _ \<Rightarrow> True | Delete_domain _ \<Rightarrow> True
     | Deletion_access _ _ \<Rightarrow> True | _ \<Rightarrow> False)"

lemma unconfirmed_harmless:
  "\<not> needs_confirmation a \<Longrightarrow> sends harmless (perform e c a)"
  by (cases a)
    (auto simp: needs_confirmation_def page_handlers form_handlers quiet_handlers setDashboardMode_def has_prefix_def
      intro!: effects split: option.split sum.split)

lemma unconfirmed_keeps:
  "\<not> needs_confirmation a \<Longrightarrow> keeps b_confirms (perform e c a)"
  by (cases a)
    (auto simp: needs_confirmation_def page_handlers form_handlers quiet_handlers
      intro!: effects split: option.split sum.split)

lemma perform_paid: "paid (perform e c a)"
proof (cases "needs_confirmation a")
  case False
  then show ?thesis by (intro paidI unconfirmed_keeps unconfirmed_harmless)
next
  case True
  then show ?thesis
  proof (cases a)
    case (Delete_link i)
    have "paid (delLink e i)"
      unfolding delLink_def
      by (auto simp: paid_def reading_def intro!: paid_confirmed [unfolded paid_def, rule_format] sends_once_call effects)
    with Delete_link show ?thesis by simp
  next
    case (Delete_key i)
    then show ?thesis by (auto simp: delKey_def intro!: paid_confirmed sends_once_call effects)
  next
    case (Delete_domain i)
    then show ?thesis by (auto simp: delDomain_def intro!: paid_confirmed sends_once_call effects)
  next
    case (Deletion_access i x)
    then show ?thesis
      by (auto simp: setDeletionAccess_def intro!: paid_confirmed sends_once_call effects)
  qed (simp_all add: needs_confirmation_def)
qed

lemma play_paid: "paid_by b (play e c as b)"
proof (induction as arbitrary: b)
  case Nil
  then show ?case by simp
next
  case (Cons a as)
  have "paid_by b (snd (perform e c a b))" using perform_paid by (simp add: paid_def)
  with Cons show ?case by (auto intro: paid_by_trans)
qed

section \<open>Properties\<close>


section \<open>A deletion, step by step\<close>

lemma detached_result: "fst (try_catch m showErr b) = Inr ()"
  by (auto simp: try_catch_def showErr_def showMsg_def dom_ops split: prod.split sum.split)

lemma delLink_accepted:
  assumes "b_confirms b \<noteq> []" and "hd (b_confirms b)"
  shows "\<exists>rs. b_sent (snd (delLink e i b)) = b_sent b @
      \<lparr>rq_method = ''DELETE'', rq_path = ''/api/v1/links/'' @ int_text i, rq_body = JUndef\<rparr> # rs \<and> list_all reads rs"
    and "fst (delLink e i b) = Inr ()"
proof -
  let ?path = "''/api/v1/links/'' @ int_text i"
  let ?rest = "[showOk ''Link deleted.'', unload ''home'', finish (both (loadLinks (f_date (e_fmt e))) loadStats)]"
  let ?m = "try_catch (steps (finish (api ''DELETE'' ?path JUndef) # ?rest)) showErr"
  let ?say = "''/'' @ (case find (\<lambda>l. l_id l = i) (b_links b) of None \<Rightarrow> ''this link'' | Some l \<Rightarrow> l_slug l) @
    '' will stop redirecting immediately. Its analytics will be retained.''"
  obtain y b1 where c: "confirmAction ''Delete short link?'' ?say ''Delete link'' True b = (y, b1)" by fastforce
  then have "y = Inr True" and sent: "b_sent b1 = b_sent b"
    using assms confirmAction_result(1) [of "''Delete short link?''" ?say "''Delete link''" True b]
      confirmAction_sent [of "''Delete short link?''" ?say "''Delete link''" True b] by simp_all
  with c have b1: "confirmAction ''Delete short link?'' ?say ''Delete link'' True b = (Inr True, b1)" "b_sent b1 = b_sent b"
    by simp_all
  have d: "delLink e i b = ?m b1"
    unfolding delLink_def reading_def andThen_def by (simp only: b1(1) prod.case sum.case only_if_def if_True)
  show "fst (delLink e i b) = Inr ()" unfolding d by (rule detached_result)
  obtain x b2 where a: "api ''DELETE'' ?path JUndef b1 = (x, b2)" by fastforce
  then have b2: "b_sent b2 = b_sent b @ [\<lparr>rq_method = ''DELETE'', rq_path = ?path, rq_body = JUndef\<rparr>]"
    using api_sent [of "''DELETE''" ?path JUndef b1] b1(2) by simp
  have r: "sends reads (try_catch (steps ?rest) showErr)" by (auto intro!: effects)
  have e: "sends reads (showErr y)" for y by (intro effects)
  have "sent_more reads b2 (snd (?m b1))"
  proof (cases x)
    case (Inl err)
    then have "?m b1 = showErr err b2" using a by (simp add: try_catch_def finish_def andThen_def)
    then show ?thesis using e by (simp add: sends_def)
  next
    case (Inr p)
    then have "?m b1 = try_catch (steps ?rest) showErr b2"
      using a by (simp add: try_catch_def finish_def andThen_def ret_def)
    then show ?thesis using r by (simp add: sends_def)
  qed
  then show "\<exists>rs. b_sent (snd (delLink e i b)) = b_sent b @
      \<lparr>rq_method = ''DELETE'', rq_path = ?path, rq_body = JUndef\<rparr> # rs \<and> list_all reads rs"
    unfolding d sent_more_def using b2 by auto
qed

text \<open>Deleting a link asks first and deletes that link only. \<open>delLink\<close> never throws; when the user
  accepts, its first request is the DELETE of exactly that link and every later one only reads, and
  when the user dismisses the dialog nothing is sent and the lists stay as they are.\<close>

theorem delete_link_flow:
  "fst (delLink e i b) = Inr () \<and>
   (if b_confirms b \<noteq> [] \<and> hd (b_confirms b)
    then \<exists>rs. b_sent (snd (delLink e i b)) = b_sent b @
      \<lparr>rq_method = ''DELETE'', rq_path = ''/api/v1/links/'' @ int_text i, rq_body = JUndef\<rparr> # rs \<and> list_all reads rs
    else b_sent (snd (delLink e i b)) = b_sent b \<and> b_links (snd (delLink e i b)) = b_links b \<and>
      b_loaded (snd (delLink e i b)) = b_loaded b)"
proof (cases "b_confirms b \<noteq> [] \<and> hd (b_confirms b)")
  case True
  then show ?thesis using delLink_accepted [of b e i] by simp
next
  case False
  then show ?thesis
    by (auto simp: delLink_def reading_def andThen_def confirmAction_def only_if_def ret_def dom_ops)
qed

section \<open>What a department user asks for\<close>

definition admin_endpoint :: "string \<Rightarrow> bool" where
  "admin_endpoint path \<longleftrightarrow>
     list_ex (\<lambda>p. has_prefix p path)
       [''/api/v1/tenants'', ''/api/v1/customers'', ''/api/v1/domains'', ''/api/v1/audit-events'', ''/api/v1/admin/'']"

definition own_request :: "sent \<Rightarrow> bool" where
  "own_request r \<longleftrightarrow> rq_method r = ''GET'' \<and> \<not> admin_endpoint (rq_path r)"

lemma own_get [simp]: "own_request (get_of path) \<longleftrightarrow> \<not> admin_endpoint path"
  by (simp add: own_request_def get_of_def)

lemma own_loaders:
  "sends own_request (loadLinks loc)" "sends own_request loadRecentLinks" "sends own_request (loadClicks loc)"
  "sends own_request (loadKeys loc)" "sends own_request loadStats"
  by (auto intro!: sends_loaders simp: admin_endpoint_def has_prefix_def)

lemma own_report: "sends own_request (loadCurrentReport e)"
proof -
  have "\<not> admin_endpoint (reportBasePath b @ CHR ''?'' # q)" for b q
    by (auto simp: reportBasePath_def admin_endpoint_def has_prefix_def split: option.split)
  then show ?thesis
    unfolding loadCurrentReport_def by (auto intro!: effects split: option.split payload.split)
qed

lemma own_view: "view \<noteq> ''admin'' \<Longrightarrow> sends own_request (loadWorkspaceView e view admin)"
  unfolding loadWorkspaceView_def Let_def by (auto intro!: effects own_loaders)

lemma own_routeView:
  assumes "b_user b = Some u" and "me_role u = ''customer''"
  shows "sent_more own_request b (snd (routeView e b))"
proof (cases "parse_report (b_hash b)")
  case (Some ki)
  obtain kind i where ki: "ki = (kind, i)" by fastforce
  have "sends own_request (steps ([modify (\<lambda>b. b\<lparr>b_report := Some (kind, i)\<rparr>)] @
      map (\<lambda>v. set_hidden (''view:'' @ v) True) views @
      [set_hidden ''workspaceNav'' True, set_hidden ''reportView'' False,
       reading (\<lambda>b. only_if (dm_value (b_dom b) ''reportFrom'' = []) (set_preset_dates e ''30'')),
       loadCurrentReport e]))"
    by (auto intro!: effects own_report)
  then show ?thesis using assms Some ki by (simp only: sends_def routeView_def reading_def option.case prod.case)
next
  case None
  obtain view admin where r: "route_of u (b_hash b) = (view, admin)" by fastforce
  have "view \<noteq> ''admin''" using route_of_cases(3) [OF r] assms(2) by auto
  then have "sends own_request (steps
      [modify (\<lambda>b. b\<lparr>b_report := None\<rparr>), set_hidden ''workspaceNav'' False, set_hidden ''reportView'' True,
       modify (\<lambda>b. b\<lparr>b_last_hash := workspace_hash (view, admin)\<rparr>), show_view view admin,
       loadWorkspaceView e view admin])"
    by (auto intro!: effects own_view)
  then show ?thesis using assms None r by (simp only: sends_def routeView_def reading_def option.case prod.case)
qed

text \<open>C26: A department user only asks for what is the user's own. Whatever the hash, showing a view for
  a user whose role is department user sends only GET requests, and none to the endpoints of
  departments, users, domains, the audit log or the runtime.\<close>

theorem users_ask_for_their_own:
  assumes "b_user b = Some u" and "me_role u = ''customer''"
  shows "\<exists>rs. b_sent (snd (routeView e b)) = b_sent b @ rs \<and>
    list_all (\<lambda>r. rq_method r = ''GET'' \<and> \<not> admin_endpoint (rq_path r)) rs"
  using own_routeView [OF assms] unfolding sent_more_def own_request_def .

theorem users_ask_for_their_own_witness:
  "\<exists>rs. b_sent (snd (routeView plain_env (fresh_browser\<lparr>b_user := Some sample_me, b_hash := ''#admin/audit''\<rparr>))) = rs \<and>
    list_all (\<lambda>r. rq_method r = ''GET'' \<and> \<not> admin_endpoint (rq_path r)) rs"
proof -
  have "b_user (fresh_browser\<lparr>b_user := Some sample_me, b_hash := ''#admin/audit''\<rparr>) = Some sample_me"
    "me_role sample_me = ''customer''"
    by (simp_all add: sample_me_def)
  from users_ask_for_their_own [OF this] show ?thesis by (simp add: fresh_browser_def)
qed

section \<open>What a department admin can create\<close>

lemma put_field_get: "field_or_undef (put_field k v fs) j = (if j = k then v else field_or_undef fs j)"
proof -
  have "map_of (map (\<lambda>(n, w). if n = k then (n, v) else (n, w)) fs) j =
      (if j = k then (if map_of fs k = None then None else Some v) else map_of fs j)" for fs :: "(string \<times> jsval) list"
  proof (induction fs)
    case (Cons p fs)
    then show ?case by (cases p; cases "j = k") simp_all
  qed simp
  moreover have "k \<in> set (map fst fs) \<longleftrightarrow> map_of fs k \<noteq> None" by (simp add: map_of_eq_None_iff)
  ultimately show ?thesis
    by (cases "map_of fs j") (auto simp: put_field_def field_or_undef_def map_add_def split: option.split)
qed

text \<open>A department admin creates users and domains of the own department only. Whatever the form
  holds, the user that is sent has the role department user and the admin's department, and the
  domain the admin's department; nothing else of the form is changed.\<close>

theorem department_admin_stays_home:
  assumes "me_role u = ''tenant''" and "me_tenant_id u = Some t" and "t \<noteq> 0"
  shows "field_or_undef (customer_data u d) k =
      (if k = ''role'' then JStr ''customer'' else if k = ''tenant_id'' then JNum t else field_or_undef d k) \<and>
    field_or_undef (domain_data u d) k = (if k = ''tenant_id'' then JNum t else field_or_undef d k)"
  using assms
  by (simp add: customer_data_def domain_data_def Let_def put_field_get tenant_js_def number_of_def)

theorem department_admin_stays_home_witness:
  "field_or_undef (customer_data (sample_me\<lparr>me_role := ''tenant''\<rparr>)
      [(''role'', JStr ''superadmin''), (''tenant_id'', JStr ''9'')]) ''role'' = JStr ''customer'' \<and>
   field_or_undef (domain_data (sample_me\<lparr>me_role := ''tenant''\<rparr>) [(''tenant_id'', JStr ''9'')]) ''tenant_id'' = JNum 1"
proof -
  have h: "me_role (sample_me\<lparr>me_role := ''tenant''\<rparr>) = ''tenant''" "me_tenant_id (sample_me\<lparr>me_role := ''tenant''\<rparr>) = Some 1"
      "(1 :: int) \<noteq> 0"
    by (simp_all add: sample_me_def)
  show ?thesis
    using department_admin_stays_home [OF h, of "[(''role'', JStr ''superadmin''), (''tenant_id'', JStr ''9'')]" "''role''"]
      department_admin_stays_home [OF h, of "[(''tenant_id'', JStr ''9'')]" "''tenant_id''"]
    by simp
qed

end
