(* ===== verification/Outcomes.thy ===== *)
theory Outcomes
  imports Requests
begin

text \<open>
  What the user sees of an action: how a refusal of the server is reported, what is asked again after a
  link was created, and what the edit dialog sends.
\<close>

section \<open>Refusals\<close>

definition confirmed :: "browser \<Rightarrow> bool" where
  "confirmed b \<longleftrightarrow> b_confirms b \<noteq> [] \<and> hd (b_confirms b)"

definition sends_payload :: "jsval + jsval \<Rightarrow> bool" where
  "sends_payload r = (case r of Inl _ \<Rightarrow> False | Inr _ \<Rightarrow> True)"

text \<open>The actions that ask the server to change something, in a state in which they do ask.\<close>

definition asks_to_change :: "codec \<Rightarrow> browser \<Rightarrow> ui_action \<Rightarrow> bool" where
  "asks_to_change c b a = (case a of
     Create_link \<Rightarrow> sends_payload (linkPayloadFromForm c (create_form_of b) True)
   | Save_link \<Rightarrow> sends_payload (linkPayloadFromForm c (edit_form_of b) False)
   | Delete_link _ \<Rightarrow> confirmed b | Delete_key _ \<Rightarrow> confirmed b | Delete_domain _ \<Rightarrow> confirmed b
   | Deletion_access _ _ \<Rightarrow> confirmed b
   | Create_key \<Rightarrow> True | Create_tenant _ \<Rightarrow> True | Verify_domain _ \<Rightarrow> True
   | Create_domain \<Rightarrow> b_user b \<noteq> None | Create_user \<Rightarrow> b_user b \<noteq> None
   | _ \<Rightarrow> False)"

definition refusal :: "int \<Rightarrow> string \<Rightarrow> string \<Rightarrow> answer" where
  \<comment> \<open>what \<open>errOut\<close> of \<open>internal/handlers/handlers.go\<close> sends\<close>
  "refusal status status_text m = Answer status status_text (Plain (JObj [(''error'', JStr m)]))"

lemma api_refused:
  assumes "b_answers b = refusal status st m # rest" and "400 \<le> status"
  shows "api mth path body b = (Inl (JObj [(''error'', JStr m)]),
    b\<lparr>b_sent := b_sent b @ [\<lparr>rq_method = mth, rq_path = path, rq_body = body\<rparr>], b_answers := rest\<rparr>)"
  using assms by (simp add: api_def refusal_def payload_js_def js_field_def Let_def js_or_def)

definition shows_error :: "string \<Rightarrow> browser \<Rightarrow> browser \<Rightarrow> bool" where
  \<comment> \<open>one more request, the message, and the forms and lists as they were\<close>
  "shows_error m b b' \<longleftrightarrow> length (b_sent b') = length (b_sent b) + 1 \<and>
     dm_text (b_dom b') ''msg'' = m \<and> dm_text (b_dom b') ''msg.class'' = ''notice error'' \<and>
     dm_value (b_dom b') = dm_value (b_dom b) \<and> b_links b' = b_links b \<and> b_loaded b' = b_loaded b \<and>
     b_link_pager b' = b_link_pager b \<and> b_user_pager b' = b_user_pager b"

lemma showErr_error: "m \<noteq> [] \<Longrightarrow> showErr (JObj [(''error'', JStr m)]) b =
    (Inr (), snd (steps [set_text ''msg'' m, set_text ''msg.class'' ''notice error''] b))"
  by (simp add: showErr_def showMsg_def message_text_def js_field_def js_or_def dom_ops)

lemma confirm_yes:
  assumes "confirmed b"
  obtains b1 where "confirmAction t msg l d b = (Inr True, b1)" "b_answers b1 = b_answers b" "b_sent b1 = b_sent b"
    "dm_value (b_dom b1) = dm_value (b_dom b)" "b_links b1 = b_links b" "b_loaded b1 = b_loaded b"
    "b_link_pager b1 = b_link_pager b" "b_user_pager b1 = b_user_pager b"
  using assms that by (simp add: confirmed_def confirmAction_def andThen_def reading_def ret_def dom_ops)

lemma refused_call:
  assumes "b_answers b = refusal status st m # rest" and "400 \<le> status" and "m \<noteq> []"
  shows "shows_error m b (snd (try_catch (steps (finish (api mth path body) # ms)) showErr b))"
    and "shows_error m b (snd (try_catch (andThen (api mth path body) k) showErr b))"
  using assms(3)
  by (simp_all add: try_catch_def finish_def andThen_def api_refused [OF assms(1,2)] showErr_error shows_error_def dom_ops)

lemma refused_confirmed_call:
  assumes "confirmed b" and "b_answers b = refusal status st m # rest" and "400 \<le> status" and "m \<noteq> []"
  shows "shows_error m b (snd (andThen (confirmAction t msg l d)
    (\<lambda>yes. only_if yes (try_catch (steps (finish (api mth path body) # ms)) showErr)) b))"
proof -
  obtain b1 where b1: "confirmAction t msg l d b = (Inr True, b1)" "b_answers b1 = b_answers b" "b_sent b1 = b_sent b"
    "dm_value (b_dom b1) = dm_value (b_dom b)" "b_links b1 = b_links b" "b_loaded b1 = b_loaded b"
    "b_link_pager b1 = b_link_pager b" "b_user_pager b1 = b_user_pager b"
    using confirm_yes [OF assms(1)] by blast
  have "shows_error m b1 (snd (try_catch (steps (finish (api mth path body) # ms)) showErr b1))"
    using assms b1 by (intro refused_call(1)) simp_all
  then show ?thesis using b1 by (simp add: andThen_def [of "confirmAction t msg l d"] only_if_def shows_error_def)
qed

lemma detached_inr: "m b = (Inr (), b') \<Longrightarrow> detached m b = (Inr (), b')"
  by (simp add: detached_def try_catch_def)

lemma snd_detached_try: "snd (detached (try_catch m showErr) b) = snd (try_catch m showErr b)"
  using detached_inr [of "try_catch m showErr" b] detached_result [of m b] by (metis prod.collapse)

lemma try_reading: "try_catch (reading f) h b = try_catch (f b) h b"
  by (simp add: try_catch_def reading_def)

lemma detached_user: "b_user b = Some u \<Longrightarrow> detached (the_user k) b = detached (k u) b"
  by (simp add: detached_def try_catch_def the_user_def)


definition refused_browser :: browser where
  "refused_browser = fresh_browser\<lparr>b_confirms := [True], b_answers := [refusal 403 ''Forbidden'' ''deletion access required'']\<rparr>"


section \<open>After a link was created\<close>

lemma keeps_sent [effects]:
  "keeps b_sent (set_text i t)" "keeps b_sent (set_html i t)" "keeps b_sent (set_hidden i v)"
  "keeps b_sent (set_disabled i v)" "keeps b_sent (set_value i t)" "keeps b_sent (toggle_class i c v)"
  "keeps b_sent (reset_controls ids)" "keeps b_sent (unload key)"
  "keeps b_sent (modify (\<lambda>b. b\<lparr>b_link_pager := f b, b_links := xs\<rparr>))"
  "keeps b_sent (modify (\<lambda>b. b\<lparr>b_link_pager := f b\<rparr>))" "keeps b_sent (modify (\<lambda>b. b\<lparr>b_loaded := g b\<rparr>))"
  by (simp_all add: keeps_def dom_ops unload_def)

lemma keeps_sent_show_pager [effects]: "keeps b_sent (show_pager name get)"
  by (simp add: keeps_def show_pager_def dom_ops)

lemma call_sent:
  assumes "\<And>p. keeps b_sent (k p)"
  shows "b_sent (snd (andThen (api mth path body) k b)) =
    b_sent b @ [\<lparr>rq_method = mth, rq_path = path, rq_body = body\<rparr>]"
proof -
  obtain x b1 where a: "api mth path body b = (x, b1)" by fastforce
  then have "b_sent b1 = b_sent b @ [\<lparr>rq_method = mth, rq_path = path, rq_body = body\<rparr>]"
    using api_sent [of mth path body b] by simp
  then show ?thesis using a assms by (cases x) (simp_all add: andThen_def keeps_def)
qed

lemma loadLinks_sent:
  "b_sent (snd (loadLinks loc b)) = b_sent b @
     [get_of (''/api/v1/links/page?'' @ list_query (dm_value (b_dom b) ''linkPageSize'') (pg_cursor (b_link_pager b)) [])]"
  unfolding loadLinks_def api_get_def get_of_def
  by (subst reading_def, rule call_sent) (auto simp: Let_def intro!: effects)

lemma links_view_sent:
  assumes "''links'' \<notin> set (b_loaded b)"
  shows "b_sent (snd (loadWorkspaceView e ''links'' ''users'' b)) = b_sent b @
     [get_of (''/api/v1/links/page?'' @ list_query (dm_value (b_dom b) ''linkPageSize'') (pg_cursor (b_link_pager b)) [])]"
proof -
  obtain x b1 where l: "loadLinks (f_date (e_fmt e)) b = (x, b1)" by fastforce
  then have "b_sent b1 = b_sent b @
     [get_of (''/api/v1/links/page?'' @ list_query (dm_value (b_dom b) ''linkPageSize'') (pg_cursor (b_link_pager b)) [])]"
    using loadLinks_sent [of "f_date (e_fmt e)" b] by simp
  moreover have "snd (loadWorkspaceView e ''links'' ''users'' b) = b1 \<or>
      snd (loadWorkspaceView e ''links'' ''users'' b) = b1\<lparr>b_loaded := ''links'' # b_loaded b1\<rparr>"
    using assms l
    by (cases x) (simp_all add: loadWorkspaceView_def reading_def view_key_def Let_def only_if_def ret_def modify_def)
  ultimately show ?thesis by auto
qed

text \<open>A reader of the state that does not look at the page, the requests or the answers.\<close>

definition offpage :: "(browser \<Rightarrow> 'x) \<Rightarrow> bool" where
  "offpage g \<longleftrightarrow> (\<forall>b d. g (b\<lparr>b_dom := d\<rparr>) = g b) \<and> (\<forall>b s a. g (b\<lparr>b_sent := s, b_answers := a\<rparr>) = g b) \<and>
     (\<forall>b h. g (b\<lparr>b_hrefs := h\<rparr>) = g b)"

lemma offpage_keeps [effects]:
  assumes "offpage g"
  shows "keeps g (set_text i t)" "keeps g (set_html i t)" "keeps g (set_hidden i v)" "keeps g (go_to u)"
    "keeps g (api mth path body)" "keeps g (api_get path)" "keeps g (showErr x)"
proof -
  show t: "keeps g (set_text i t)" "keeps g (set_html i t)" "keeps g (set_hidden i v)" "keeps g (go_to u)"
    for i t v u
    using assms by (simp_all add: offpage_def keeps_def dom_ops)
  have api: "g (snd (api mth path body b)) = g b" for mth path body b
  proof -
    have "g (b\<lparr>b_sent := s, b_answers := a, b_hrefs := h\<rparr>) = g b" for s a h
      using assms unfolding offpage_def by metis
    then show ?thesis using assms
      by (auto simp: offpage_def api_def Let_def go_to_def modify_def split: list.split answer.split)
  qed
  then show "keeps g (api mth path body)" "keeps g (api_get path)" by (simp_all add: keeps_def api_get_def)
  show "keeps g (showErr x)" unfolding showErr_def showMsg_def by (auto intro!: effects t)
qed

lemma created_state:
  assumes "linkPayloadFromForm c (create_form_of b) True = Inr v"
    and "b_answers b = Answer 201 st (A_link l) # rest"
  shows "let b' = snd (createLink c b) in b_link_pager b' = reset_pager \<and> ''links'' \<notin> set (b_loaded b') \<and>
    b_user b' = b_user b \<and>
    (\<exists>rs. b_sent b' = b_sent b @ \<lparr>rq_method = ''POST'', rq_path = ''/api/v1/links'', rq_body = v\<rparr> # rs \<and> list_all reads rs)"
proof -
  let ?r = "\<lparr>rq_method = ''POST'', rq_path = ''/api/v1/links'', rq_body = v\<rparr>"
  obtain b1 where b1: "showOk ''Creating link...'' b = (Inr (), b1)" "create_form_of b1 = create_form_of b"
      "b_answers b1 = b_answers b" "b_sent b1 = b_sent b" "b_user b1 = b_user b"
    by (simp add: showOk_def showMsg_def dom_ops create_form_of_def control_checked_def control_text_def fun_eq_iff)
  define b2 where "b2 = b1\<lparr>b_sent := b_sent b @ [?r], b_answers := rest\<rparr>"
  have api: "api ''POST'' ''/api/v1/links'' v b1 = (Inr (Some (A_link l)), b2)"
    using assms(2) b1 by (simp add: api_def Let_def b2_def payload_js_def js_field_def)
  have eq: "createLink c b = try_catch (link_created (Some (A_link l))) showErr b2"
    using assms(1) by (simp add: createLink_def andThen_def b1(1,2) try_catch_def reading_def api)
  let ?pre = "[reset_controls (map (\<lambda>k. ''linkForm.'' @ k) create_names),
      toggle_class ''linkForm.forward_query'' ''checked'' False,
      with_body (Some (A_link l)) (\<lambda>q. showOk (''Created: '' @ answer_text q ''short_url'')),
      modify (\<lambda>b. b\<lparr>b_link_pager := reset_pager\<rparr>), unload ''links'']"
  obtain b3 where b3: "steps ?pre b2 = (Inr (), b3)" "b_link_pager b3 = reset_pager" "''links'' \<notin> set (b_loaded b3)"
      "b_sent b3 = b_sent b2" "b_user b3 = b_user b2"
    by (simp add: dom_ops with_body_def payload_js_def showOk_def showMsg_def unload_def)
  have "link_created (Some (A_link l)) b2 = steps (?pre @ [finish (both loadRecentLinks loadStats)]) b2"
    by (simp add: link_created_def)
  also have "\<dots> = finish (both loadRecentLinks loadStats) b3"
    by (simp only: steps_quiet [OF b3(1)] steps_single)
  finally have "link_created (Some (A_link l)) b2 = finish (both loadRecentLinks loadStats) b3" .
  then have eq: "createLink c b = try_catch (finish (both loadRecentLinks loadStats)) showErr b3"
    using eq by (simp add: try_catch_def)
  have keep: "keeps g (try_catch (finish (both loadRecentLinks loadStats)) showErr)"
    if "offpage g" and "\<And>b xs. g (b\<lparr>b_recent := xs\<rparr>) = g b" for g :: "browser \<Rightarrow> pager \<times> string list \<times> me option"
    using that unfolding loadRecentLinks_def loadStats_def by (auto intro!: effects keeps_modify split: option.split)
  have "keeps (\<lambda>b. (b_link_pager b, b_loaded b, b_user b)) (try_catch (finish (both loadRecentLinks loadStats)) showErr)"
    by (rule keep) (simp_all add: offpage_def)
  note keep = this
  have "sends reads (try_catch (finish (both loadRecentLinks loadStats)) showErr)" by (intro effects)
  then obtain rs where "b_sent (snd (createLink c b)) = b_sent b3 @ rs" "list_all reads rs"
    unfolding eq sends_def sent_more_def by blast
  then show ?thesis using keep b3(2-5)
    unfolding eq by (simp add: Let_def keeps_def b2_def b1(5))
qed

text \<open>A new link is on the next page shown. After the server accepted a new link, opening the links
  view asks again, whatever was loaded before and whatever page was shown: its one request is for
  the first page, which lists the newest links. The request that created the link was the one
  POST sent, and everything sent after it only reads.\<close>

theorem created_link_is_listed:
  assumes "linkPayloadFromForm c (create_form_of b) True = Inr v"
    and "b_answers b = Answer 201 st (A_link l) # rest" and "b_user b = Some u"
  shows "let b1 = snd (createLink c b); b2 = b1\<lparr>b_hash := ''#links''\<rparr> in
    (\<exists>rs. b_sent b1 = b_sent b @ \<lparr>rq_method = ''POST'', rq_path = ''/api/v1/links'', rq_body = v\<rparr> # rs \<and>
       list_all reads rs) \<and>
    b_sent (snd (routeView e b2)) = b_sent b1 @
      [get_of (''/api/v1/links/page?'' @ list_query (dm_value (b_dom b1) ''linkPageSize'') [] [])]"
proof -
  let ?b1 = "snd (createLink c b)"
  let ?b2 = "?b1\<lparr>b_hash := ''#links''\<rparr>"
  note s = created_state [OF assms(1,2), unfolded Let_def]
  have "parse_report ''#links'' = None" "route_of u ''#links'' = (''links'', ''users'')"
    by (simp_all add: parse_report_def strip_hash_def route_of_def str_or_def views_def admin_views_def)
  then obtain b3 where "routeView e ?b2 = loadWorkspaceView e ''links'' ''users'' b3" "b_loaded b3 = b_loaded ?b1"
      "b_sent b3 = b_sent ?b1" "b_link_pager b3 = b_link_pager ?b1" "dm_value (b_dom b3) = dm_value (b_dom ?b1)"
    using routeView_workspace [of ?b2 u "''links''" "''users''" e] s assms(3) by auto
  then show ?thesis using links_view_sent [of b3 e] s by (simp add: Let_def reset_pager_def)
qed

definition create_browser :: browser where
  \<comment> \<open>the create form filled with an address, the server ready to accept\<close>
  "create_browser = fresh_browser\<lparr>b_user := Some sample_me, b_loaded := [''home'', ''links''],
     b_dom := empty_dom\<lparr>dm_value := (dm_value empty_dom)(''linkForm.url'' := ''https://example.com/'')\<rparr>,
     b_answers := [Answer 201 ''Created'' (A_link sample_link)]\<rparr>"

theorem created_link_is_listed_witness:
  "b_sent (snd (routeView plain_env ((snd (createLink berlin_codec create_browser))\<lparr>b_hash := ''#links''\<rparr>))) =
     b_sent (snd (createLink berlin_codec create_browser)) @
      [get_of (''/api/v1/links/page?'' @
         list_query (dm_value (b_dom (snd (createLink berlin_codec create_browser))) ''linkPageSize'') [] [])]"
proof -
  obtain v where v: "linkPayloadFromForm berlin_codec (create_form_of create_browser) True = Inr v"
    by (simp add: linkPayloadFromForm_def create_form_of_def raw_def control_text_def create_names_def
        create_browser_def empty_dom_def)
  have "b_answers create_browser = Answer 201 ''Created'' (A_link sample_link) # []" "b_user create_browser = Some sample_me"
    by (simp_all add: create_browser_def)
  from created_link_is_listed [OF v this] show ?thesis by (simp add: Let_def)
qed

section \<open>The edit dialog\<close>

text \<open>The values of the page's HTML: the edit form as \<open>reset\<close> leaves it.\<close>

definition blank_defaults :: "browser \<Rightarrow> bool" where
  "blank_defaults b \<longleftrightarrow>
     (\<forall>k \<in> set edit_names. fo_text blank_edit_form k = Some (dm_default (b_dom b) (''editLinkForm.'' @ k)))"

lemma set_value_control:
  assumes "k \<in> set edit_names"
  shows "edit_form_of (snd (set_value (''editLinkForm.'' @ k) v b)) = set_control (k, v) (edit_form_of b)"
  using assms
  by (simp add: edit_form_of_def set_control_def control_text_def control_checked_def dom_ops fun_eq_iff)

lemma set_control_absent: "k \<notin> set edit_names \<Longrightarrow> set_control (k, v) (edit_form_of b) = edit_form_of b"
  by (simp add: set_control_def edit_form_of_def control_text_def)

lemma fill_controls:
  "\<exists>b'. steps (map (\<lambda>(k, v). only_if (k \<in> set edit_names) (set_value (''editLinkForm.'' @ k) v)) kvs) b = (Inr (), b') \<and>
     edit_form_of b' = fold set_control kvs (edit_form_of b) \<and> b_sent b' = b_sent b"
proof (induction kvs arbitrary: b)
  case Nil
  then show ?case by simp
next
  case (Cons kv kvs)
  obtain k v where kv: "kv = (k, v)" by fastforce
  let ?m = "only_if (k \<in> set edit_names) (set_value (''editLinkForm.'' @ k) v)"
  obtain b1 where b1: "?m b = (Inr (), b1)" "edit_form_of b1 = set_control (k, v) (edit_form_of b)" "b_sent b1 = b_sent b"
  proof (cases "k \<in> set edit_names")
    case True
    then show ?thesis using that set_value_control [OF True, of v b] by (simp add: only_if_def dom_ops)
  next
    case False
    then show ?thesis using that set_control_absent [OF False] by (simp add: only_if_def ret_def)
  qed
  obtain b' where "steps (map (\<lambda>(k, v). only_if (k \<in> set edit_names) (set_value (''editLinkForm.'' @ k) v)) kvs) b1 = (Inr (), b')"
      "edit_form_of b' = fold set_control kvs (edit_form_of b1)" "b_sent b' = b_sent b1"
    using Cons.IH by blast
  with b1 kv show ?case by (simp del: append.simps)
qed

lemma reset_edit_form:
  assumes "blank_defaults b"
  shows "edit_form_of (snd (steps [reset_controls (map (\<lambda>k. ''editLinkForm.'' @ k) edit_names),
      toggle_class ''editLinkForm.clear_password'' ''checked'' False,
      toggle_class ''editLinkForm.forward_query'' ''checked'' False,
      set_text ''editSlug'' t] b)) = blank_edit_form"
proof -
  have "fo_text blank_edit_form k =
      (if k \<in> set edit_names then Some (dm_default (b_dom b) (''editLinkForm.'' @ k)) else None)" for k
  proof (cases "k \<in> set edit_names")
    case True
    then show ?thesis using assms by (simp add: blank_defaults_def)
  next
    case False
    then show ?thesis by (simp add: edit_names_def blank_edit_form_def)
  qed
  then have "fo_text blank_edit_form =
      (\<lambda>k. if k \<in> set edit_names then Some (dm_default (b_dom b) (''editLinkForm.'' @ k)) else None)"
    by (rule ext)
  moreover have "fo_forward_query blank_edit_form = Some False" "fo_clear_password blank_edit_form = Some False"
    by (simp_all add: blank_edit_form_def)
  ultimately show ?thesis
    by (intro link_form.equality)
      (simp_all add: edit_form_of_def control_text_def control_checked_def dom_ops fun_eq_iff image_iff)
qed

lemma edit_dialog_filled:
  assumes "blank_defaults b" and "find (\<lambda>l. l_id l = i) (b_links b) = Some l"
  shows "edit_form_of (snd (editLink c i b)) = edit_form c l" and "b_sent (snd (editLink c i b)) = b_sent b"
proof -
  let ?reset = "[reset_controls (map (\<lambda>k. ''editLinkForm.'' @ k) edit_names),
      toggle_class ''editLinkForm.clear_password'' ''checked'' False,
      toggle_class ''editLinkForm.forward_query'' ''checked'' False, set_text ''editSlug'' (''/'' @ l_slug l)]"
  let ?fill = "steps (map (\<lambda>(k, v). only_if (k \<in> set edit_names) (set_value (''editLinkForm.'' @ k) v)) (edit_values c l))"
  let ?expiry = "case l_expires_at l of None \<Rightarrow> ret () | Some t \<Rightarrow> set_value ''editLinkForm.expires_at'' (take 16 (co_iso c t))"
  let ?clicks = "case l_max_clicks l of None \<Rightarrow> ret ()
    | Some n \<Rightarrow> only_if (n \<noteq> 0) (set_value ''editLinkForm.max_clicks'' (int_text n))"
  let ?rest = "[toggle_class ''editLinkForm.forward_query'' ''checked'' (l_forward_query l), set_hidden ''linkEditor'' False]"
  obtain b1 where b1: "steps ?reset b = (Inr (), b1)" "b_sent b1 = b_sent b" by (simp add: dom_ops)
  have f1: "edit_form_of b1 = blank_edit_form" using reset_edit_form [OF assms(1), of "''/'' @ l_slug l"] b1(1) by simp
  obtain b2 where b2: "?fill b1 = (Inr (), b2)" "edit_form_of b2 = fold set_control (edit_values c l) blank_edit_form"
      "b_sent b2 = b_sent b1"
    using fill_controls [of "edit_values c l" b1] f1 by auto
  define f3 where "f3 = (case l_expires_at l of None \<Rightarrow> edit_form_of b2
    | Some t \<Rightarrow> set_control (''expires_at'', take 16 (co_iso c t)) (edit_form_of b2))"
  have n: "''expires_at'' \<in> set edit_names" "''max_clicks'' \<in> set edit_names" by (simp_all add: edit_names_def)
  obtain b3 where b3: "?expiry b2 = (Inr (), b3)" "edit_form_of b3 = f3" "b_sent b3 = b_sent b2"
    using set_value_control [OF n(1), of _ b2]
    by (cases "l_expires_at l") (simp_all add: ret_def f3_def dom_ops)
  define f4 where "f4 = (case l_max_clicks l of None \<Rightarrow> f3
    | Some k \<Rightarrow> if k = 0 then f3 else set_control (''max_clicks'', int_text k) f3)"
  obtain b4 where b4: "?clicks b3 = (Inr (), b4)" "edit_form_of b4 = f4" "b_sent b4 = b_sent b3"
    using set_value_control [OF n(2), of _ b3] b3(2)
    by (cases "l_max_clicks l"; cases "the (l_max_clicks l) = 0") (simp_all add: ret_def f4_def dom_ops only_if_def)
  have "editLink c i b = steps (?reset @ [?fill, ?expiry, ?clicks] @ ?rest) b"
    by (simp only: editLink_def reading_def assms(2) option.case append.simps)
  also have "\<dots> = steps ([?fill, ?expiry, ?clicks] @ ?rest) b1" by (rule steps_quiet [OF b1(1)])
  also have "\<dots> = steps ?rest b4"
    by (rule steps_quiet) (simp only: steps.simps b2(1) b3(1) b4(1) prod.case sum.case)
  finally have eq: "editLink c i b = steps ?rest b4" .
  have "edit_form_of (snd (steps ?rest b4)) = (edit_form_of b4)\<lparr>fo_forward_query := Some (l_forward_query l)\<rparr>"
    by (simp add: edit_form_of_def control_text_def control_checked_def dom_ops fun_eq_iff)
  moreover have "f4\<lparr>fo_forward_query := Some (l_forward_query l)\<rparr> = edit_form c l"
    unfolding f4_def f3_def b2(2) edit_form_def Let_def by simp
  ultimately show "edit_form_of (snd (editLink c i b)) = edit_form c l" unfolding eq b4(2) by simp
  show "b_sent (snd (editLink c i b)) = b_sent b"
    unfolding eq using b1(2) b2(3) b3(3) b4(3) by (simp add: dom_ops)
qed

lemma edit_form_id: "fo_text (edit_form c l) ''id'' = Some (int_text (l_id l))"
  by (simp add: edit_form_controls blank_edit_form_def edit_values_def split: option.split)

lemma saveLink_sent:
  assumes "linkPayloadFromForm c (edit_form_of b) False = Inr v"
  shows "\<exists>rs. b_sent (snd (saveLink e c b)) = b_sent b @
    \<lparr>rq_method = ''PATCH'', rq_path = ''/api/v1/links/'' @ dm_value (b_dom b) ''editLinkForm.id'', rq_body = v\<rparr> # rs \<and>
    list_all reads rs"
proof -
  let ?path = "''/api/v1/links/'' @ dm_value (b_dom b) ''editLinkForm.id''"
  define k where "k = (\<lambda>p. steps [set_hidden ''linkEditor'' True,
         with_body p (\<lambda>q. showOk (''Updated /'' @ answer_text q ''slug'' @ ''; the slug was not changed.'')),
         unload ''home'', finish (both (loadLinks (f_date (e_fmt e))) loadStats)])"
  have s: "saveLink e c b = try_catch (andThen (api ''PATCH'' ?path v) k) showErr b"
    using assms by (simp add: saveLink_def try_reading k_def)
  obtain x b1 where a: "api ''PATCH'' ?path v b = (x, b1)" by fastforce
  then have b1: "b_sent b1 = b_sent b @ [\<lparr>rq_method = ''PATCH'', rq_path = ?path, rq_body = v\<rparr>]"
    using api_sent [of "''PATCH''" ?path v b] by simp
  have r: "sends reads (try_catch (k p) showErr)" "sends reads (showErr y)" for p y
    unfolding k_def by (auto intro!: effects)
  have "sent_more reads b1 (snd (saveLink e c b))"
  proof (cases x)
    case (Inl err)
    then have "saveLink e c b = showErr err b1" unfolding s try_catch_def andThen_def a by simp
    then show ?thesis using r(2) by (simp add: sends_def)
  next
    case (Inr p)
    then have "saveLink e c b = try_catch (k p) showErr b1" unfolding s try_catch_def andThen_def a by simp
    then show ?thesis using r(1) by (simp add: sends_def)
  qed
  then show ?thesis using b1 unfolding sent_more_def by auto
qed


definition editing_browser :: browser where
  "editing_browser = fresh_browser\<lparr>b_links := [sample_link\<lparr>l_expires_at := Some 1782986400, l_tags := [''q3'', ''eu'']\<rparr>],
     b_dom := empty_dom\<lparr>dm_default := (\<lambda>_. [])(''editLinkForm.visibility'' := ''private'', ''editLinkForm.redirect_code'' := ''302'')\<rparr>\<rparr>"


end
