(* ===== verification/Spec2Isabelle.thy ===== *)
theory Spec2Isabelle
  imports LinkRuns Accounts UserStore ClickStore Outcomes Redirect
begin

text \<open>
  A model of shortq, a link shortener: a Go server (\<open>cmd\<close>, \<open>internal\<close>) with PostgreSQL, an optional Redis
  cache and an optional RabbitMQ queue, and a dashboard in plain JavaScript (\<open>web/app.js\<close>, \<open>web/reports.js\<close>).

  How the parts interact. The dashboard keeps its state in global variables and the page; it talks to the
  server through \<open>api\<close>, and shows lists page by page. The server finds out who acts and in which mode, reads and
  writes the tables, and leaves audit rows. A visitor's redirect reads the link through the cache, passes the
  password gate, and records a click: in the tables, or as a message that a worker records later in batches. A
  change of a link invalidates its cache entries.

  Theories:

  \<^item> \<open>Prelude\<close>: texts, numbers and lists shared by all; \<open>JsValue\<close>: JavaScript values; \<open>Html\<close>: \<open>esc\<close> and the
    browser's reading of markup; \<open>Models\<close>: \<open>internal/models/models.go\<close>.
  \<^item> \<open>Rows\<close>: the list templates of the dashboard. \<open>Paging\<close>: cursors, page buttons, and lists with several
    requests under way. \<open>Encoding\<close>: query strings. \<open>Charts\<close>: the charts of \<open>reports.js\<close>, over the rationals.
  \<^item> \<open>Browser\<close>: the global variables, the page, \<open>api\<close>, messages and the confirmation dialog; an operation is a
    function from the browser to the browser, which meets the server as a list of answers and records the
    requests it sends. \<open>Loaders\<close>, \<open>Reports\<close>, \<open>Router\<close>: the load functions, the report page, hash routing and the
    view cache. \<open>LinkForm\<close>: the link form, its payload and how the server applies it. \<open>Actions\<close>, \<open>Admin\<close>: every
    handler of the page. \<open>Requests\<close>: which requests an operation can send; \<open>Outcomes\<close>: what a whole action leads to.
  \<^item> \<open>Principal\<close>: modes, roles and scopes. \<open>Listing\<close>: what a listing promises, as locales. \<open>Database\<close>: tables,
    query parameters, audit log. \<open>LinkStore\<close>, \<open>LinkHandler\<close>: listing, lookup, deletion, Short.io deletion.
    \<open>UserStore\<close>, \<open>ClickStore\<close>: the user directory and the click log.
  \<^item> \<open>LinkWrite\<close>: validation, creation and updates of links, one or many, with their handlers. \<open>Csv\<close>: export and
    import. \<open>Shortio\<close>: creation over the Short.io interface. \<open>LinkRuns\<close>: every request that writes links, and
    what any sequence of them keeps.
  \<^item> \<open>Accounts\<close>: users, API keys, sessions, the sign-in, and who a request acts as. \<open>Domains\<close>: the domains of the
    departments, with the handlers and what visits do to them.
  \<^item> \<open>RedirectCache\<close>, \<open>RedisCache\<close>: cache entries, keys, resolver and invalidation; the Redis client.
    \<open>Limiter\<close>: password attempts. \<open>ClickRecord\<close>: the transactions that record clicks. \<open>ClickWorker\<close>: messages,
    the recorder and the worker. \<open>Redirect\<close>: the redirect handler over all of these.

  Conventions. A record is a struct or a row, a datatype an enumeration or an outcome; errors are \<open>Inl\<close> or
  \<open>None\<close>. A table is the list of its rows. Ids are integers, below \<open>2 ^ 53\<close> where JavaScript reads them and with the
  wrap-around of 64 bits where a computation could leave the range. Times are milliseconds.

  Interfaces are locales, each interpreted on the model of the code: the contracts of listings (\<open>Listing\<close>,
  interpreted by links, users, audit rows and clicks), the redirect cache (\<open>redirect_cache\<close>, by \<open>RedisCache\<close>) and
  the store of the worker (\<open>batch_store\<close>, by \<open>RecordClicks\<close>).

  What meets the model from outside is a parameter: the answers of the server for the dashboard; number and date
  formatting; the form encoding of an expiry; DNS, URL parsing, hashes, token signatures and encodings; and lists of
  outcomes for calls that can fail (Redis, RabbitMQ, statements of a transaction). Past the end of such a list
  calls succeed. Nothing is assumed of these lists unless a theorem says so.

  What the lemmas show. Texts cannot become markup, whatever they hold. Listings are complete and in order page by
  page, and what a list on the screen shows is the answer to its last request. The dashboard opens only views the
  user may open, asks before it deletes, reports refusals, and offers what the server accepts. Deletion needs
  authority, hits one link, and bulk operations are all or nothing. Every stored link passes the validation,
  whatever is written; an edit changes one link and never its identity. Rights come from superadmins alone, a key
  that was taken back stays dead, and a session is the user who signed in. A domain stays with its department and is
  active only when proven; a Short.io creation answers with the link that was asked for. Forms round-trip but for
  the expiry, CSV files but for cells that look like formulas. The cache agrees with the database while invalidation works, never answers from an entry older than a day, and cannot
  be noticed in a redirect. The tables of clicks agree with each other whatever fails; batches equal single
  recordings; the worker settles each delivery once, loses no click and ends its retries. A password protects its
  link, with five guesses in fifteen minutes.

  Bounds and fuel. Recursion is structural or has a measure; \<open>visit\<close> takes the number of pages to show, and the
  theorems ask for more pages than rows, which is enough because every page but the last is not empty. A worker
  runs over the list of its inputs; \<open>retry_rounds\<close> over one list of broker outcomes for each round, and as many
  rounds as the configured maximum of attempts suffice.

  Not modelled. The list of departments: a plain read of a table that no request changes. The timed deletion of old click and
  audit rows. Report queries, PDF and CSV output, QR images: SQL aggregation and drawing. OpenID Connect and bcrypt: libraries. RabbitMQ connections, start-up,
  configuration and metrics: wiring. \<open>docs-init.js\<close> and the viewer it starts: third party.
\<close>

end
